(* ===== verification/Prelude.thy ===== *)
theory Prelude
  imports Complex_Main "HOL-Library.Multiset" "HOL-Library.Monad_Syntax"
begin

text \<open>
  Shared vocabulary of the development: the collections of rewrite rules the component
  theories extend, and generic facts about lists and options that the components use.

  A JavaScript expression that may throw is a value of type \<open>'a option\<close>: \<open>None\<close> is an
  exception that unwinds the handler, \<open>Some v\<close> a normal result, and the \<open>do\<close> notation of
  \<open>Monad_Syntax\<close> is sequencing.
\<close>

named_theorems js_arith \<open>evaluation of JavaScript arithmetic\<close>

type_synonym 'a throws = "'a option"

text \<open>\<open>mapM\<close> is \<open>Array.prototype.map\<close> with a callback that may throw.\<close>

primrec mapM :: "('a \<Rightarrow> 'b option) \<Rightarrow> 'a list \<Rightarrow> 'b list option" where
  "mapM f [] = Some []"
| "mapM f (x # xs) = do { y \<leftarrow> f x; ys \<leftarrow> mapM f xs; Some (y # ys) }"

text \<open>\<open>filterM\<close> is \<open>Array.prototype.filter\<close> with a predicate that may throw.\<close>

primrec filterM :: "('a \<Rightarrow> bool option) \<Rightarrow> 'a list \<Rightarrow> 'a list option" where
  "filterM p [] = Some []"
| "filterM p (x # xs) = do { b \<leftarrow> p x; ys \<leftarrow> filterM p xs; Some (if b then x # ys else ys) }"

text \<open>\<open>foldM\<close> is a \<open>forEach\<close> whose callback updates a variable and may throw.\<close>

primrec foldM :: "('b \<Rightarrow> 'a \<Rightarrow> 'b option) \<Rightarrow> 'b \<Rightarrow> 'a list \<Rightarrow> 'b option" where
  "foldM f acc [] = Some acc"
| "foldM f acc (x # xs) = do { acc' \<leftarrow> f acc x; foldM f acc' xs }"

text \<open>\<open>first_some\<close> is a loop that returns the first result that is not \<open>null\<close>.\<close>

primrec first_some :: "('a \<Rightarrow> 'b option) \<Rightarrow> 'a list \<Rightarrow> 'b option" where
  "first_some f [] = None"
| "first_some f (x # xs) = (case f x of None \<Rightarrow> first_some f xs | Some y \<Rightarrow> Some y)"

lemma foldM_cong [fundef_cong]:
  "xs = ys \<Longrightarrow> a = b \<Longrightarrow> (\<And>x c. x \<in> set ys \<Longrightarrow> f c x = g c x) \<Longrightarrow> foldM f a xs = foldM g b ys"
proof (induction xs arbitrary: ys a b)
  case (Cons x xs)
  have "f b x = g b x" using Cons.prems(1) Cons.prems(3)[of x b] by auto
  moreover have "foldM f c xs = foldM g c xs" for c using Cons.prems(1,3) by (intro Cons.IH) auto
  ultimately show ?case using Cons.prems(1,2) by (cases "g b x") auto
qed auto

lemma first_some_cong [fundef_cong]:
  "xs = ys \<Longrightarrow> (\<And>x. x \<in> set ys \<Longrightarrow> f x = g x) \<Longrightarrow> first_some f xs = first_some g ys"
  by (induction xs arbitrary: ys) (auto split: option.split)

lemma bind_eq_Some [simp]: "(m \<bind> f = Some y) \<longleftrightarrow> (\<exists>x. m = Some x \<and> f x = Some y)"
  by (cases m) auto

lemma bind_eq_None [simp]: "(m \<bind> f = None) \<longleftrightarrow> m = None \<or> (\<exists>x. m = Some x \<and> f x = None)"
  by (cases m) auto

lemma mapM_Some_iff: "mapM f xs = Some ys \<longleftrightarrow> list_all2 (\<lambda>x y. f x = Some y) xs ys"
proof (induction xs arbitrary: ys)
  case Nil
  then show ?case by auto
next
  case (Cons x xs)
  then show ?case by (cases ys) auto
qed

lemma mapM_pure: "(\<And>x. x \<in> set xs \<Longrightarrow> f x = Some (g x)) \<Longrightarrow> mapM f xs = Some (map g xs)"
  by (induction xs) auto

lemma mapM_cong [fundef_cong]:
  "xs = ys \<Longrightarrow> (\<And>x. x \<in> set ys \<Longrightarrow> f x = g x) \<Longrightarrow> mapM f xs = mapM g ys"
  by (induction xs arbitrary: ys) auto

lemma mapM_map: "mapM f (map g xs) = mapM (\<lambda>x. f (g x)) xs"
  by (induction xs) simp_all

lemma mapM_append: "mapM f (xs @ ys) = do { as \<leftarrow> mapM f xs; bs \<leftarrow> mapM f ys; Some (as @ bs) }"
proof (induction xs)
  case (Cons x xs)
  then show ?case by (cases "f x"; cases "mapM f xs"; cases "mapM f ys") simp_all
qed (cases "mapM f ys"; simp)

lemma mapM_eq_None: "mapM f xs = None \<longleftrightarrow> (\<exists>x \<in> set xs. f x = None)"
  by (induction xs) auto

lemma mapM_defined: "(\<And>x. x \<in> set xs \<Longrightarrow> \<exists>y. f x = Some y) \<Longrightarrow> \<exists>ys. mapM f xs = Some ys"
  using mapM_eq_None[of f xs] by fastforce

lemma mapM_rel_ex:
  "(\<And>x. x \<in> set xs \<Longrightarrow> \<exists>y. f x = Some y \<and> Q x y) \<Longrightarrow> \<exists>ys. mapM f xs = Some ys \<and> list_all2 Q xs ys"
proof (induction xs)
  case (Cons x xs)
  then obtain ys where "mapM f xs = Some ys" "list_all2 Q xs ys" by auto
  moreover obtain y where "f x = Some y" "Q x y" using Cons.prems by auto
  ultimately show ?case by (intro exI[of _ "y # ys"]) simp
qed simp

lemma filterM_pure: "(\<And>x. x \<in> set xs \<Longrightarrow> p x = Some (q x)) \<Longrightarrow> filterM p xs = Some (filter q xs)"
  by (induction xs) auto

lemma filterM_Some_filter:
  "filterM p xs = Some ys \<Longrightarrow> ys = filter (\<lambda>x. p x = Some True) xs"
  by (induction xs arbitrary: ys) (auto split: if_splits)

lemma filterM_Some_defined:
  "filterM p xs = Some ys \<Longrightarrow> x \<in> set xs \<Longrightarrow> \<exists>b. p x = Some b"
  by (induction xs arbitrary: ys) auto

lemma filterM_eq_Some_iff:
  "filterM p xs = Some ys \<longleftrightarrow>
     (\<forall>x \<in> set xs. p x \<noteq> None) \<and> ys = filter (\<lambda>x. p x = Some True) xs"
proof (induction xs arbitrary: ys)
  case Nil
  then show ?case by auto
next
  case (Cons x xs)
  then show ?case by (cases "p x") auto
qed

lemma filterM_cong:
  "(\<And>x. x \<in> set xs \<Longrightarrow> p x = q x) \<Longrightarrow> filterM p xs = filterM q xs"
  by (induction xs) auto

lemma foldM_append: "foldM f a (xs @ ys) = foldM f a xs \<bind> (\<lambda>b. foldM f b ys)"
  by (induction xs arbitrary: a) (simp_all add: bind_assoc)

lemma concat_concat: "concat (concat xss) = concat (map concat xss)"
  by (induction xss) simp_all

text \<open>Removing elements keeps the keys of a list distinct.\<close>

lemma distinct_map_take [intro]: "distinct (map f xs) \<Longrightarrow> distinct (map f (take n xs))"
  by (simp add: take_map[symmetric])

lemma distinct_map_mset: "mset xs = mset ys \<Longrightarrow> distinct (map f xs) = distinct (map f ys)"
proof -
  assume "mset xs = mset ys"
  then have "mset (map f xs) = mset (map f ys)" by simp
  then show ?thesis by (rule mset_eq_imp_distinct_iff)
qed

lemma distinct_map_inj: "distinct (map f xs) \<Longrightarrow> x \<in> set xs \<Longrightarrow> y \<in> set xs \<Longrightarrow> f x = f y \<Longrightarrow> x = y"
  by (simp add: distinct_map inj_on_def)

lemma sorted_wrt_take: "sorted_wrt R xs \<Longrightarrow> sorted_wrt R (take n xs)"
  by (metis append_take_drop_id sorted_wrt_append)

end
