(* ===== verification/JsNumber.thy ===== *)
theory JsNumber
  imports Prelude
begin

text \<open>
  JavaScript numbers: IEEE-754 binary64 values with round-to-nearest-even arithmetic.

  A finite double is kept as the rational it denotes; \<open>rnd\<close> rounds a rational to the nearest
  double (53 significant bits, smallest exponent \<open>-1074\<close>) and \<open>fl\<close> adds overflow to the
  infinities.  The two zeros are identified: only a division by a negative zero could tell
  them apart and no divisor of the program is one.
\<close>

section \<open>Rounding\<close>

text \<open>Round to an integer, ties to even.\<close>

definition rne :: "rat \<Rightarrow> int" where
  "rne x = (let f = \<lfloor>x\<rfloor>; d = x - of_int f
            in if d < 1/2 then f else if 1/2 < d then f + 1 else if even f then f else f + 1)"

text \<open>Number of binary digits.\<close>

function blen :: "int \<Rightarrow> int" where
  "blen n = (if n \<le> 0 then 0 else 1 + blen (n div 2))"
  by pat_completeness auto
termination
  by (relation "measure nat") auto

declare blen.simps [simp del]

text \<open>The exponent of the leading binary digit of a positive rational.\<close>

definition ilog2 :: "rat \<Rightarrow> int" where
  "ilog2 r = (let (a, b) = quotient_of r; k = blen a - blen b
              in if 2 powi k \<le> r then k else k - 1)"

text \<open>The exponent of the last bit of the double nearest to \<open>x\<close>.\<close>

definition uexp :: "rat \<Rightarrow> int" where
  "uexp x = max (ilog2 \<bar>x\<bar> - 52) (- 1074)"

definition rnd :: "rat \<Rightarrow> rat" where
  "rnd x = (if x = 0 then 0 else of_int (rne (x / 2 powi (uexp x))) * 2 powi (uexp x))"

text \<open>The rationals a double without exponent limit can denote.\<close>

definition dbl :: "rat \<Rightarrow> bool" where
  "dbl y \<longleftrightarrow> (\<exists>m k. y = of_int m * 2 powi k \<and> \<bar>m\<bar> \<le> 2 ^ 53 \<and> - 1074 \<le> k)"

subsection \<open>Rounding to an integer\<close>

lemma rne_of_int [simp]: "rne (of_int n) = n"
  by (simp add: rne_def)

lemma rne_cases:
  obtains "rne x = \<lfloor>x\<rfloor>" "x - of_int \<lfloor>x\<rfloor> \<le> 1/2" | "rne x = \<lfloor>x\<rfloor> + 1" "1/2 \<le> x - of_int \<lfloor>x\<rfloor>"
  unfolding rne_def Let_def by (metis linorder_not_less order_less_imp_le)

lemma rne_close: "\<bar>of_int (rne x) - x\<bar> \<le> 1/2"
proof (cases x rule: rne_cases)
  case 1
  have "of_int \<lfloor>x\<rfloor> \<le> x" by simp
  with 1 show ?thesis by (simp add: abs_le_iff)
next
  case 2
  have "x < of_int \<lfloor>x\<rfloor> + 1" by linarith
  with 2 show ?thesis by (simp add: abs_le_iff field_simps)
qed

lemma rne_mono: "x \<le> y \<Longrightarrow> rne x \<le> rne y"
proof (rule ccontr)
  assume le: "x \<le> y" and "\<not> rne x \<le> rne y"
  then have gt: "rne y + 1 \<le> rne x" by simp
  have fl: "\<lfloor>x\<rfloor> \<le> \<lfloor>y\<rfloor>" using le by (rule floor_mono)
  show False
  proof (cases x rule: rne_cases)
    case 1
    with gt fl show False by (cases y rule: rne_cases) auto
  next
    case 2
    show False
    proof (cases y rule: rne_cases)
      case y: 1
      with gt fl 2 have eq: "\<lfloor>x\<rfloor> = \<lfloor>y\<rfloor>" by auto
      with y 2 le have "x = y" by linarith
      with gt show False by simp
    next
      case y: 2
      with gt fl 2 show False by auto
    qed
  qed
qed

lemma rne_minus: "rne (- x) = - rne x"
proof (cases "x = of_int \<lfloor>x\<rfloor>")
  case True
  then have "rne (- x) = rne (of_int (- \<lfloor>x\<rfloor>))" by (metis of_int_minus)
  also have "\<dots> = - \<lfloor>x\<rfloor>" by (rule rne_of_int)
  also have "\<lfloor>x\<rfloor> = rne x" by (metis True rne_of_int)
  finally show ?thesis .
next
  case False
  have f: "\<lfloor>- x\<rfloor> = - \<lfloor>x\<rfloor> - 1"
    using False by (metis add_diff_cancel_right' ceiling_altdef ceiling_def diff_minus_eq_add floor_minus minus_add_distrib minus_diff_eq uminus_add_conv_diff)
  show ?thesis
    unfolding rne_def Let_def f by auto
qed

lemma rne_le_of_int: "x \<le> of_int n \<Longrightarrow> rne x \<le> n"
  using rne_mono[of x "of_int n"] by simp

lemma rne_ge_of_int: "of_int n \<le> x \<Longrightarrow> n \<le> rne x"
  using rne_mono[of "of_int n" x] by simp

subsection \<open>The binary exponent\<close>

lemma blen_nonneg: "0 \<le> blen n"
proof (induction n rule: blen.induct)
  case (1 n)
  then show ?case by (cases "n \<le> 0") (simp_all add: blen.simps[of n])
qed

lemma blen_bounds: "0 < n \<Longrightarrow> 2 ^ nat (blen n) \<le> 2 * n \<and> n < 2 ^ nat (blen n)"
proof (induction n rule: blen.induct)
  case (1 n)
  have b: "nat (blen n) = Suc (nat (blen (n div 2)))"
    using 1(2) blen_nonneg[of "n div 2"] by (simp add: blen.simps[of n])
  show ?case
  proof (cases "n div 2 = 0")
    case True
    with 1 have "n = 1" by auto
    then show ?thesis by (simp add: blen.simps)
  next
    case False
    then have "0 < n div 2" using 1(2) by linarith
    with 1 have "2 ^ nat (blen (n div 2)) \<le> 2 * (n div 2)" "n div 2 < 2 ^ nat (blen (n div 2))" by auto
    moreover have "(2::int) ^ nat (blen n) = 2 * 2 ^ nat (blen (n div 2))" by (simp add: b)
    ultimately show ?thesis by linarith
  qed
qed

lemma powi_Suc: "(2::rat) powi (k + 1) = 2 * 2 powi k"
  by (simp add: power_int_add)

lemma powi_pos [simp]: "(0::rat) < 2 powi k"
  by simp

lemma powi_of_nat: "(2::rat) powi int n = 2 ^ n"
  by simp

lemma powi_le: "k \<le> l \<Longrightarrow> (2::rat) powi k \<le> 2 powi l"
  by (simp add: power_int_increasing)

lemma powi_less_iff: "((2::rat) powi k < 2 powi l) = (k < l)"
  by (metis linorder_not_less order_less_imp_le power_int_increasing power_int_strict_increasing one_less_numeral_iff semiring_norm(76) one_le_numeral)

lemma ilog2_bounds:
  assumes "0 < r"
  shows "2 powi (ilog2 r) \<le> r" "r < 2 powi (ilog2 r + 1)"
proof -
  obtain a b where ab: "quotient_of r = (a, b)" by fastforce
  then have b: "0 < b" and r: "r = of_int a / of_int b"
    by (auto simp: quotient_of_denom_pos quotient_of_div)
  have a: "0 < a" using assms b r by (simp add: zero_less_divide_iff)
  define A where "A = nat (blen a)"
  define B where "B = nat (blen b)"
  have cast: "(2::rat) ^ N \<le> 2 * of_int c \<and> of_int c < (2::rat) ^ N"
    if "2 ^ N \<le> 2 * c \<and> c < 2 ^ N" for c N
  proof -
    have "of_int (2 ^ N) \<le> (of_int (2 * c) :: rat)" using that by (simp only: of_int_le_iff)
    moreover have "of_int c < (of_int (2 ^ N) :: rat)" using that by (simp only: of_int_less_iff)
    ultimately show ?thesis by simp
  qed
  have A': "(2::rat) ^ A \<le> 2 * of_int a" "of_int a < (2::rat) ^ A"
    using cast[OF blen_bounds[OF a]] by (auto simp: A_def)
  have B': "(2::rat) ^ B \<le> 2 * of_int b" "of_int b < (2::rat) ^ B"
    using cast[OF blen_bounds[OF b]] by (auto simp: B_def)
  define k where "k = int A - int B"
  have pk: "(2::rat) powi k = 2 ^ A / 2 ^ B"
    unfolding k_def by (simp add: power_int_diff)
  have up: "r < 2 powi (k + 1)"
  proof -
    have "r < 2 ^ A / of_int b" unfolding r using A'(2) b by (simp add: divide_strict_right_mono)
    also have "\<dots> \<le> 2 ^ A / (2 ^ B / 2)" using B'(1) b by (intro divide_left_mono) auto
    also have "\<dots> = 2 powi (k + 1)" by (simp add: powi_Suc pk)
    finally show ?thesis .
  qed
  have lo: "2 powi (k - 1) \<le> r"
  proof -
    have "(2::rat) powi (k - 1) = (2 ^ A / 2) / 2 ^ B" by (simp add: power_int_diff pk)
    also have "\<dots> \<le> of_int a / 2 ^ B" using A'(1) by (intro divide_right_mono) auto
    also have "\<dots> \<le> r" unfolding r using B'(2) a b by (intro divide_left_mono) auto
    finally show ?thesis .
  qed
  have i: "ilog2 r = (if 2 powi k \<le> r then k else k - 1)"
    by (simp add: ilog2_def ab k_def A_def B_def blen_nonneg)
  show "2 powi (ilog2 r) \<le> r" using lo by (simp add: i)
  show "r < 2 powi (ilog2 r + 1)" using up by (simp add: i)
qed

lemma ilog2_mono: "0 < x \<Longrightarrow> x \<le> y \<Longrightarrow> ilog2 x \<le> ilog2 y"
proof -
  assume "0 < x" "x \<le> y"
  then have "2 powi (ilog2 x) < (2::rat) powi (ilog2 y + 1)"
    using ilog2_bounds(1)[of x] ilog2_bounds(2)[of y] by linarith
  then show ?thesis by (simp add: powi_less_iff)
qed

lemma ilog2_less: "0 < x \<Longrightarrow> x < 2 powi k \<Longrightarrow> ilog2 x < k"
  using ilog2_bounds(1)[of x] powi_less_iff[of "ilog2 x" k] by linarith

lemma ilog2_ge: "0 < x \<Longrightarrow> 2 powi k \<le> x \<Longrightarrow> k \<le> ilog2 x"
  using ilog2_bounds(2)[of x] powi_less_iff[of k "ilog2 x + 1"] by linarith


lemma uexp_minus [simp]: "uexp (- x) = uexp x"
  by (simp add: uexp_def)

lemma uexp_mono: "0 < x \<Longrightarrow> x \<le> y \<Longrightarrow> uexp x \<le> uexp y"
  using ilog2_mono[of x y] by (simp add: uexp_def)

text \<open>Two positive numbers with different last-bit exponents are separated by a power of two.\<close>

lemma uexp_less_separated:
  assumes "0 < x" "x \<le> y" "uexp x < uexp y"
  shows "x < 2 powi (ilog2 y)" "uexp y = ilog2 y - 52"
proof -
  show u: "uexp y = ilog2 y - 52" using assms by (simp add: uexp_def max_def split: if_splits)
  then have "ilog2 x < ilog2 y" using assms by (simp add: uexp_def max_def split: if_splits)
  then have "ilog2 x + 1 \<le> ilog2 y" by simp
  then show "x < 2 powi (ilog2 y)"
    using ilog2_bounds(2)[OF assms(1)] powi_le[of "ilog2 x + 1" "ilog2 y"] by linarith
qed

subsection \<open>Representable numbers are fixed points\<close>

lemma dbl_minus [simp]: "dbl (- y) = dbl y"
proof -
  have "dbl y \<Longrightarrow> dbl (- y)" for y
    unfolding dbl_def
  proof (elim exE conjE)
    fix m k
    assume "y = of_int m * 2 powi k" "\<bar>m\<bar> \<le> 2 ^ 53" "- 1074 \<le> k"
    then show "\<exists>m k. - y = of_int m * 2 powi k \<and> \<bar>m\<bar> \<le> 2 ^ 53 \<and> - 1074 \<le> k"
      by (intro exI[of _ "- m"] exI[of _ k]) simp
  qed
  from this[of y] this[of "- y"] show ?thesis by auto
qed

lemma dbl_0 [simp]: "dbl 0"
  unfolding dbl_def by (rule exI[of _ 0], rule exI[of _ 0]) simp

lemma dbl_of_int: "\<bar>n\<bar> \<le> 2 ^ 53 \<Longrightarrow> dbl (of_int n)"
  unfolding dbl_def by (rule exI[of _ n], rule exI[of _ 0]) simp

lemma dbl_powi: "- 1074 \<le> k \<Longrightarrow> dbl (2 powi k)"
  unfolding dbl_def by (rule exI[of _ 1], rule exI[of _ k]) simp

lemma mult_of_powi:
  assumes "k \<le> l"
  obtains n where "of_int m * (2::rat) powi l = of_int n * 2 powi k"
proof
  have "(2::rat) powi (int (nat (l - k)) + k) = 2 ^ nat (l - k) * 2 powi k"
    by (subst power_int_add) (auto simp only: power_int_of_nat)
  then have "(2::rat) powi l = 2 ^ nat (l - k) * 2 powi k" using assms by simp
  then show "of_int m * (2::rat) powi l = of_int (m * 2 ^ nat (l - k)) * 2 powi k"
    by simp
qed

lemma dbl_on_grid:
  assumes "dbl y" "y \<noteq> 0"
  obtains n where "y = of_int n * 2 powi (uexp y)"
proof -
  obtain m k where y: "y = of_int m * 2 powi k" and m: "\<bar>m\<bar> \<le> 2 ^ 53" and k: "- 1074 \<le> k"
    using assms(1) unfolding dbl_def by blast
  show thesis
  proof (cases "\<bar>m\<bar> < 2 ^ 53")
    case True
    then have "rat_of_int \<bar>m\<bar> < 2 ^ 53" by (metis of_int_less_iff of_int_numeral of_int_power)
    then have "\<bar>y\<bar> < 2 ^ 53 * 2 powi k" by (simp add: y abs_mult)
    also have "\<dots> = 2 powi (k + 53)" by (simp add: power_int_add)
    finally have "ilog2 \<bar>y\<bar> < k + 53" using assms(2) by (intro ilog2_less) auto
    then have "uexp y \<le> k" using k by (simp add: uexp_def)
    then obtain n where "of_int m * (2::rat) powi k = of_int n * 2 powi (uexp y)"
      by (rule mult_of_powi)
    then show thesis using that y by simp
  next
    case False
    with m have m: "\<bar>m\<bar> = 2 ^ 53" by simp
    then have ab: "\<bar>y\<bar> = 2 powi (k + 53)"
      by (simp add: y abs_mult power_int_add flip: of_int_abs)
    then have "ilog2 \<bar>y\<bar> < k + 54" by (intro ilog2_less) (auto simp: powi_less_iff)
    then have u: "uexp y \<le> k + 1" using k by (simp add: uexp_def)
    have "even \<bar>m\<bar>" by (simp add: m)
    then have "m = 2 * (m div 2)" by simp
    then have "(of_int m :: rat) = 2 * of_int (m div 2)" by (metis of_int_mult of_int_numeral)
    then have "y = of_int (m div 2) * 2 powi (k + 1)" by (simp add: y powi_Suc)
    moreover obtain n where "of_int (m div 2) * (2::rat) powi (k + 1) = of_int n * 2 powi (uexp y)"
      using mult_of_powi[OF u] .
    ultimately show thesis using that by simp
  qed
qed

theorem rnd_dbl: "dbl y \<Longrightarrow> rnd y = y"
proof (cases "y = 0")
  case False
  assume "dbl y"
  then obtain n where "y = of_int n * 2 powi (uexp y)" using False dbl_on_grid by blast
  then have "y / 2 powi (uexp y) = of_int n" by (metis nonzero_mult_div_cancel_right order_less_irrefl powi_pos)
  then show ?thesis using False \<open>y = of_int n * 2 powi (uexp y)\<close> by (simp add: rnd_def)
qed (simp add: rnd_def)

lemma rnd_0 [simp]: "rnd 0 = 0"
  by (simp add: rnd_def)

lemma rnd_minus [simp]: "rnd (- x) = - rnd x"
  by (simp add: rnd_def rne_minus)

lemma rnd_of_int: "\<bar>n\<bar> \<le> 2 ^ 53 \<Longrightarrow> rnd (of_int n) = of_int n"
  by (rule rnd_dbl) (rule dbl_of_int)

lemma rnd_le_dbl_pos:
  assumes "0 < x" "x \<le> y" "dbl y"
  shows "rnd x \<le> y"
proof -
  have y: "0 < y" using assms by simp
  obtain m where m: "y = of_int m * 2 powi (uexp y)" using assms y dbl_on_grid by blast
  have "uexp x \<le> uexp y" using assms uexp_mono by blast
  then obtain n where n: "of_int m * (2::rat) powi (uexp y) = of_int n * 2 powi (uexp x)"
    by (rule mult_of_powi)
  have "x / 2 powi (uexp x) \<le> of_int n" using assms(2) m n by (simp add: pos_divide_le_eq)
  then have "rne (x / 2 powi (uexp x)) \<le> n" by (rule rne_le_of_int)
  then have "of_int (rne (x / 2 powi (uexp x))) * 2 powi (uexp x) \<le> of_int n * (2::rat) powi (uexp x)"
    by (intro mult_right_mono) auto
  then show ?thesis using assms(1) m n by (simp add: rnd_def)
qed

lemma rnd_ge_powi:
  assumes "0 < x" "uexp x = ilog2 x - 52"
  shows "2 powi (ilog2 x) \<le> rnd x"
proof -
  have p: "(2::rat) powi (ilog2 x) = of_int (2 ^ 52) * 2 powi (uexp x)"
    by (simp add: assms(2) power_int_diff)
  have "of_int (2 ^ 52) \<le> x / 2 powi (uexp x)"
    using ilog2_bounds(1)[OF assms(1)] p by (simp add: pos_le_divide_eq)
  then have "2 ^ 52 \<le> rne (x / 2 powi (uexp x))" by (rule rne_ge_of_int)
  then have "of_int (2 ^ 52) * (2::rat) powi (uexp x) \<le> of_int (rne (x / 2 powi (uexp x))) * 2 powi (uexp x)"
    by (intro mult_right_mono) (metis of_int_le_iff, simp)
  then show ?thesis using assms(1) p by (simp add: rnd_def)
qed

lemma rnd_mono_pos:
  assumes "0 < x" "x \<le> y"
  shows "rnd x \<le> rnd y"
proof (cases "uexp x = uexp y")
  case True
  have "rne (x / 2 powi (uexp x)) \<le> rne (y / 2 powi (uexp x))"
    using assms by (intro rne_mono divide_right_mono) auto
  then show ?thesis using assms True by (simp add: rnd_def)
next
  case False
  then have l: "uexp x < uexp y" using assms uexp_mono[of x y] by simp
  note s = uexp_less_separated[OF assms l]
  have "- 1074 \<le> ilog2 y" using s(2) by (simp add: uexp_def)
  then have "rnd x \<le> 2 powi (ilog2 y)"
    using s(1) assms by (intro rnd_le_dbl_pos dbl_powi) auto
  also have "\<dots> \<le> rnd y" using assms s(2) by (intro rnd_ge_powi) auto
  finally show ?thesis .
qed

lemma rnd_nonneg: "0 \<le> x \<Longrightarrow> 0 \<le> rnd x"
proof (cases "x = 0")
  case False
  assume "0 \<le> x"
  then have "0 \<le> rne (x / 2 powi (uexp x))" by (intro rne_ge_of_int) simp
  then show ?thesis by (simp add: rnd_def)
qed simp

theorem rnd_mono: "x \<le> y \<Longrightarrow> rnd x \<le> rnd y"
proof -
  assume le: "x \<le> y"
  consider "0 < x" | "x \<le> 0" "0 \<le> y" | "y < 0" by linarith
  then show ?thesis
  proof cases
    case 1
    then show ?thesis using le by (rule rnd_mono_pos)
  next
    case 2
    then show ?thesis using rnd_nonneg[of y] rnd_nonneg[of "- x"] by simp
  next
    case 3
    then show ?thesis using rnd_mono_pos[of "- y" "- x"] le by simp
  qed
qed

lemma rnd_le_dbl: "x \<le> y \<Longrightarrow> dbl y \<Longrightarrow> rnd x \<le> y"
  using rnd_mono[of x y] rnd_dbl[of y] by simp

lemma rnd_ge_dbl: "y \<le> x \<Longrightarrow> dbl y \<Longrightarrow> y \<le> rnd x"
  using rnd_mono[of y x] rnd_dbl[of y] by simp

lemma rne_abs_le: "\<bar>x\<bar> \<le> of_int n \<Longrightarrow> \<bar>rne x\<bar> \<le> n"
proof -
  assume x: "\<bar>x\<bar> \<le> of_int n"
  then have "x \<le> of_int n" "- x \<le> of_int n" by auto
  then have "rne x \<le> n" "rne (- x) \<le> n" by (auto intro: rne_le_of_int)
  then show ?thesis by (simp add: rne_minus)
qed

theorem dbl_rnd [simp]: "dbl (rnd x)"
proof (cases "x = 0")
  case False
  define e where "e = uexp x"
  have "\<bar>x\<bar> < 2 powi (ilog2 \<bar>x\<bar> + 1)" using False by (intro ilog2_bounds) simp
  also have "\<dots> \<le> 2 powi (e + 53)" by (rule powi_le) (simp add: e_def uexp_def)
  also have "\<dots> = of_int (2 ^ 53) * 2 powi e" by (simp add: power_int_add)
  finally have "\<bar>x / 2 powi e\<bar> \<le> of_int (2 ^ 53)"
    by (simp add: pos_divide_le_eq order_less_imp_le)
  then have "\<bar>rne (x / 2 powi e)\<bar> \<le> 2 ^ 53" by (rule rne_abs_le)
  moreover have "- 1074 \<le> e" by (simp add: e_def uexp_def)
  ultimately show ?thesis using False unfolding dbl_def rnd_def e_def[symmetric] by auto
qed simp

text \<open>Half a unit in the last place bounds the rounding error.\<close>

lemma rnd_error: "\<bar>rnd x - x\<bar> \<le> 2 powi (uexp x) / 2"
proof (cases "x = 0")
  case False
  define u where "u = (2::rat) powi (uexp x)"
  have u: "0 < u" by (simp add: u_def)
  have "rnd x - x = (of_int (rne (x / u)) - x / u) * u"
    using False u by (simp add: rnd_def u_def[symmetric] left_diff_distrib)
  then have "\<bar>rnd x - x\<bar> = \<bar>of_int (rne (x / u)) - x / u\<bar> * u"
    using u by (simp add: abs_mult)
  also have "\<dots> \<le> 1/2 * u" using u by (intro mult_right_mono rne_close) auto
  finally show ?thesis by (simp add: u_def)
qed simp

text \<open>The difference of two doubles is rounded to zero only when they are equal.\<close>

lemma dbl_multiple_min: "dbl y \<Longrightarrow> \<exists>n. y = of_int n * 2 powi (- 1074)"
  unfolding dbl_def by (metis mult_of_powi)

lemma rnd_diff_pos:
  assumes "dbl a" "dbl b" "b < a"
  shows "0 < rnd (a - b)"
proof -
  obtain m n where "a = of_int m * 2 powi (- 1074)" "b = of_int n * 2 powi (- 1074)"
    using assms dbl_multiple_min by metis
  then have d: "a - b = of_int (m - n) * 2 powi (- 1074)" by (simp add: left_diff_distrib)
  have "0 < (of_int (m - n) :: rat) * 2 powi (- 1074)" using assms(3) d by simp
  then have "0 < (of_int (m - n) :: rat)" by (simp only: zero_less_mult_iff) auto
  then have "1 \<le> m - n" by simp
  then have "1 * 2 powi (- 1074) \<le> (of_int (m - n) :: rat) * 2 powi (- 1074)"
    by (intro mult_right_mono) (metis of_int_1_le_iff, simp)
  then have "2 powi (- 1074) \<le> a - b" by (simp add: d)
  then have "2 powi (- 1074) \<le> rnd (a - b)" by (rule rnd_ge_dbl) (rule dbl_powi, simp)
  then show ?thesis using powi_pos[of "- 1074"] by linarith
qed

subsection \<open>Evaluation by integer arithmetic\<close>

text \<open>
  Code equations that evaluate rounding with integers only, so that closed instances reduce
  quickly in the kernel.
\<close>

function pow2 :: "int \<Rightarrow> int" where
  "pow2 k = (if k \<le> 0 then 1 else 2 * pow2 (k - 1))"
  by pat_completeness auto
termination
  by (relation "measure nat") auto

declare pow2.simps [simp del]

lemma pow2_eq: "0 \<le> k \<Longrightarrow> pow2 k = 2 ^ nat k"
proof (induction k rule: pow2.induct)
  case (1 k)
  show ?case
  proof (cases "k = 0")
    case False
    then have "nat k = Suc (nat (k - 1))" using 1(2) by simp
    then show ?thesis using 1 False by (simp add: pow2.simps[of k])
  qed (simp add: pow2.simps)
qed

lemma powi_pow2: "(2::rat) powi k = (if 0 \<le> k then of_int (pow2 k) else 1 / of_int (pow2 (- k)))"
proof (cases "0 \<le> k")
  case True
  then have "(2::rat) powi k = 2 ^ nat k" by (simp only: power_int_def if_True)
  then show ?thesis using True by (simp add: pow2_eq)
next
  case False
  then have "(2::rat) powi k = inverse 2 ^ nat (- k)" by (simp only: power_int_def if_False)
  also have "\<dots> = 1 / 2 ^ nat (- k)" by (simp only: inverse_eq_divide power_divide power_one)
  finally show ?thesis using False by (simp add: pow2_eq)
qed

definition rne_div :: "int \<Rightarrow> int \<Rightarrow> int" where
  "rne_div p q = (let f = p div q; d = 2 * (p - f * q)
                  in if d < q then f else if q < d then f + 1 else if even f then f else f + 1)"

lemma rne_div: "0 < q \<Longrightarrow> rne (of_int p / of_int q) = rne_div p q"
proof -
  assume q: "0 < q"
  have f: "\<lfloor>(of_int p :: rat) / of_int q\<rfloor> = p div q" by (simp add: floor_divide_of_int_eq)
  define d where "d = p - p div q * q"
  have "(of_int p / of_int q :: rat) - of_int (p div q) = of_int d / of_int q"
    using q by (simp add: d_def field_simps)
  moreover have "((of_int d :: rat) / of_int q < 1/2) = (2 * d < q)"
  proof -
    have "((of_int d :: rat) / of_int q < 1/2) = (of_int (2 * d) < (of_int q :: rat))"
      using q by (simp add: pos_divide_less_eq mult.commute)
    then show ?thesis by (simp only: of_int_less_iff)
  qed
  moreover have "(1/2 < (of_int d :: rat) / of_int q) = (q < 2 * d)"
  proof -
    have "(1/2 < (of_int d :: rat) / of_int q) = (of_int q < (of_int (2 * d) :: rat))"
      using q by (simp add: pos_less_divide_eq mult.commute)
    then show ?thesis by (simp only: of_int_less_iff)
  qed
  ultimately show ?thesis unfolding rne_def rne_div_def Let_def f d_def[symmetric] by (simp only:)
qed

lemma ilog2_code [code]:
  "ilog2 r = (let (a, b) = quotient_of r; k = blen a - blen b
     in if (if 0 \<le> k then pow2 k * b \<le> a else b \<le> a * pow2 (- k)) then k else k - 1)"
proof -
  obtain a b where ab: "quotient_of r = (a, b)" by fastforce
  then have b: "0 < b" and r: "r = of_int a / of_int b"
    by (auto simp: quotient_of_denom_pos quotient_of_div)
  define k where "k = blen a - blen b"
  have p: "0 < pow2 (- k)" if "\<not> 0 \<le> k" using that by (simp add: pow2_eq)
  have "(2 powi k \<le> r) = (if 0 \<le> k then pow2 k * b \<le> a else b \<le> a * pow2 (- k))"
    using b p by (auto simp: r powi_pow2 pos_le_divide_eq divide_le_eq mult.commute simp flip: of_int_mult)
  then show ?thesis by (simp add: ilog2_def ab k_def)
qed

lemma rnd_code [code]:
  "rnd x = (let (a, b) = quotient_of x in if a = 0 then 0 else let e = uexp x
     in if 0 \<le> e then of_int (rne_div a (b * pow2 e) * pow2 e)
        else of_int (rne_div (a * pow2 (- e)) b) / of_int (pow2 (- e)))"
proof -
  obtain a b where ab: "quotient_of x = (a, b)" by fastforce
  then have b: "0 < b" and r: "x = of_int a / of_int b"
    by (auto simp: quotient_of_denom_pos quotient_of_div)
  define e where "e = uexp x"
  have z: "x = 0 \<longleftrightarrow> a = 0" using b by (simp add: r)
  show ?thesis
  proof (cases "0 \<le> e")
    case True
    then have p: "0 < pow2 e" by (simp add: pow2_eq)
    have "x / 2 powi e = of_int a / of_int (b * pow2 e)" using True by (simp add: powi_pow2 r)
    then have "rne (x / 2 powi e) = rne_div a (b * pow2 e)" using rne_div[of "b * pow2 e" a] b p by simp
    then show ?thesis using True by (simp add: rnd_def ab z e_def[symmetric] powi_pow2)
  next
    case False
    then have p: "0 < pow2 (- e)" by (simp add: pow2_eq)
    have "x / 2 powi e = of_int (a * pow2 (- e)) / of_int b" using False by (simp add: powi_pow2 r)
    then have "rne (x / 2 powi e) = rne_div (a * pow2 (- e)) b" using rne_div[of b "a * pow2 (- e)"] b by simp
    then show ?thesis using False by (simp add: rnd_def ab z e_def[symmetric] powi_pow2)
  qed
qed

section \<open>The number type and its operations\<close>

datatype jsnum = Fin rat | PInf | NInf | NaN

text \<open>The magnitude at which a result overflows.\<close>

definition huge :: rat where
  "huge = 2 ^ 1024"

definition fl :: "rat \<Rightarrow> jsnum" where
  "fl x = (let r = rnd x in if huge \<le> r then PInf else if r \<le> - huge then NInf else Fin r)"

fun js_neg :: "jsnum \<Rightarrow> jsnum" where
  "js_neg (Fin a) = Fin (- a)"
| "js_neg PInf = NInf"
| "js_neg NInf = PInf"
| "js_neg NaN = NaN"

fun js_add :: "jsnum \<Rightarrow> jsnum \<Rightarrow> jsnum" where
  "js_add (Fin a) (Fin b) = fl (a + b)"
| "js_add NaN _ = NaN"
| "js_add _ NaN = NaN"
| "js_add PInf NInf = NaN"
| "js_add NInf PInf = NaN"
| "js_add PInf _ = PInf"
| "js_add _ PInf = PInf"
| "js_add NInf _ = NInf"
| "js_add _ NInf = NInf"

definition js_sub :: "jsnum \<Rightarrow> jsnum \<Rightarrow> jsnum" where
  "js_sub x y = js_add x (js_neg y)"

text \<open>The infinity with the sign of a rational, \<open>NaN\<close> for zero.\<close>

definition inf_sgn :: "rat \<Rightarrow> jsnum" where
  "inf_sgn a = (if 0 < a then PInf else if a < 0 then NInf else NaN)"

fun js_mul :: "jsnum \<Rightarrow> jsnum \<Rightarrow> jsnum" where
  "js_mul (Fin a) (Fin b) = fl (a * b)"
| "js_mul NaN _ = NaN"
| "js_mul _ NaN = NaN"
| "js_mul PInf (Fin b) = inf_sgn b"
| "js_mul (Fin a) PInf = inf_sgn a"
| "js_mul NInf (Fin b) = inf_sgn (- b)"
| "js_mul (Fin a) NInf = inf_sgn (- a)"
| "js_mul PInf PInf = PInf"
| "js_mul NInf NInf = PInf"
| "js_mul _ _ = NInf"

fun js_div :: "jsnum \<Rightarrow> jsnum \<Rightarrow> jsnum" where
  "js_div (Fin a) (Fin b) = (if b = 0 then inf_sgn a else fl (a / b))"
| "js_div NaN _ = NaN"
| "js_div _ NaN = NaN"
| "js_div PInf (Fin b) = (if b < 0 then NInf else PInf)"
| "js_div NInf (Fin b) = (if b < 0 then PInf else NInf)"
| "js_div (Fin a) _ = Fin 0"
| "js_div _ _ = NaN"

fun js_lt :: "jsnum \<Rightarrow> jsnum \<Rightarrow> bool" where
  "js_lt (Fin a) (Fin b) = (a < b)"
| "js_lt NaN _ = False"
| "js_lt _ NaN = False"
| "js_lt NInf y = (y \<noteq> NInf)"
| "js_lt x NInf = False"
| "js_lt x PInf = (x \<noteq> PInf)"
| "js_lt PInf y = False"

definition js_le :: "jsnum \<Rightarrow> jsnum \<Rightarrow> bool" where
  "js_le x y \<longleftrightarrow> js_lt x y \<or> (x = y \<and> x \<noteq> NaN)"

text \<open>The strict equality \<open>===\<close> of two numbers.\<close>

definition js_eq :: "jsnum \<Rightarrow> jsnum \<Rightarrow> bool" where
  "js_eq x y \<longleftrightarrow> x = y \<and> x \<noteq> NaN"

text \<open>\<open>Math.round\<close>: the nearest integer, ties towards plus infinity.\<close>

fun math_round :: "jsnum \<Rightarrow> jsnum" where
  "math_round (Fin a) = Fin (of_int \<lfloor>a + 1/2\<rfloor>)"
| "math_round x = x"

fun math_floor :: "jsnum \<Rightarrow> jsnum" where
  "math_floor (Fin a) = Fin (of_int \<lfloor>a\<rfloor>)"
| "math_floor x = x"

definition math_max :: "jsnum \<Rightarrow> jsnum \<Rightarrow> jsnum" where
  "math_max x y = (if x = NaN \<or> y = NaN then NaN else if js_lt x y then y else x)"

definition math_min :: "jsnum \<Rightarrow> jsnum \<Rightarrow> jsnum" where
  "math_min x y = (if x = NaN \<or> y = NaN then NaN else if js_lt y x then y else x)"

text \<open>A number in a Boolean context: zero and \<open>NaN\<close> are false.\<close>

definition truthy_num :: "jsnum \<Rightarrow> bool" where
  "truthy_num x \<longleftrightarrow> x \<noteq> Fin 0 \<and> x \<noteq> NaN"

text \<open>Numbers that really are doubles.\<close>

fun is_double :: "jsnum \<Rightarrow> bool" where
  "is_double (Fin a) = (dbl a \<and> \<bar>a\<bar> < huge)"
| "is_double x = True"

abbreviation num_int :: "int \<Rightarrow> jsnum" where
  "num_int n \<equiv> Fin (of_int n)"

text \<open>Values that reach a numeric position of the program: a number, \<open>null\<close> or \<open>undefined\<close>.\<close>

datatype jv = JUndefined | JNull | JNum jsnum

text \<open>The abstract operation \<open>ToNumber\<close>.\<close>

fun to_num :: "jv \<Rightarrow> jsnum" where
  "to_num JUndefined = NaN"
| "to_num JNull = Fin 0"
| "to_num (JNum x) = x"

text \<open>\<open>===\<close> between such a value and a number.\<close>

fun jv_eq_num :: "jv \<Rightarrow> jsnum \<Rightarrow> bool" where
  "jv_eq_num (JNum x) y = js_eq x y"
| "jv_eq_num _ _ = False"

subsection \<open>Laws\<close>

lemma huge_powi: "huge = 2 powi 1024"
  unfolding huge_def by (metis power_int_of_nat of_nat_numeral)

lemma huge_pos [simp]: "0 < huge"
  unfolding huge_powi by (rule powi_pos)

lemma huge_not_le_0 [simp]: "\<not> huge \<le> 0"
  using huge_pos by linarith

lemma power_less_huge: "n < 1024 \<Longrightarrow> 2 ^ n < huge"
  unfolding huge_def by (rule power_strict_increasing) auto

lemma fl_code [code]:
  "fl x = (let r = rnd x in if r = 0 then Fin 0 else if 1024 \<le> ilog2 \<bar>r\<bar>
             then (if 0 < r then PInf else NInf) else Fin r)"
proof -
  define r where "r = rnd x"
  have *: "(huge \<le> \<bar>r\<bar>) = (1024 \<le> ilog2 \<bar>r\<bar>)" if "r \<noteq> 0"
    using that ilog2_ge[of "\<bar>r\<bar>" 1024] ilog2_less[of "\<bar>r\<bar>" 1024] unfolding huge_powi by force
  show ?thesis
  proof (cases r "0 :: rat" rule: linorder_cases)
    case less
    then have "\<not> huge \<le> r" using huge_pos by linarith
    moreover have "(r \<le> - huge) = (huge \<le> \<bar>r\<bar>)" using less by auto
    ultimately show ?thesis unfolding fl_def r_def[symmetric] Let_def using less * by simp
  next
    case equal
    then show ?thesis unfolding fl_def r_def[symmetric] Let_def using huge_pos by simp
  next
    case greater
    then have "\<not> r \<le> - huge" using huge_pos by linarith
    moreover have "(huge \<le> r) = (huge \<le> \<bar>r\<bar>)" using greater by auto
    ultimately show ?thesis unfolding fl_def r_def[symmetric] Let_def using greater * by simp
  qed
qed

lemma dbl_code [code]: "dbl y \<longleftrightarrow> rnd y = y"
  by (metis rnd_dbl dbl_rnd)

lemma is_double_fl [simp]: "is_double (fl x)"
  by (auto simp: fl_def Let_def abs_less_iff)

lemma is_double_code [code]: "is_double x \<longleftrightarrow> (case x of Fin a \<Rightarrow> fl a = Fin a | _ \<Rightarrow> True)"
proof (cases x)
  case (Fin a)
  have "dbl a \<and> \<bar>a\<bar> < huge" if "fl a = Fin a"
    using that is_double_fl[of a] by simp
  moreover have "fl a = Fin a" if "dbl a" "\<bar>a\<bar> < huge"
    using that rnd_dbl[of a] by (auto simp: fl_def Let_def)
  ultimately show ?thesis by (auto simp: Fin)
qed simp_all

lemma fl_dbl: "dbl x \<Longrightarrow> \<bar>x\<bar> < huge \<Longrightarrow> fl x = Fin x"
  by (simp add: fl_def rnd_dbl abs_less_iff)

lemma fl_of_int [js_arith]: "\<bar>n\<bar> \<le> 2 ^ 53 \<Longrightarrow> fl (of_int n) = num_int n"
proof -
  assume n: "\<bar>n\<bar> \<le> 2 ^ 53"
  then have "(of_int \<bar>n\<bar> :: rat) \<le> of_int (2 ^ 53)" by (simp only: of_int_le_iff)
  also have "\<dots> < huge" using power_less_huge[of 53] by simp
  finally have "\<bar>of_int n :: rat\<bar> < huge" by simp
  then show ?thesis using n by (intro fl_dbl dbl_of_int)
qed

text \<open>Arithmetic on integers of magnitude at most \<open>2 ^ 53\<close> is exact.\<close>

lemma js_add_int [js_arith]: "\<bar>a + b\<bar> \<le> 2 ^ 53 \<Longrightarrow> js_add (num_int a) (num_int b) = num_int (a + b)"
  using fl_of_int[of "a + b"] by simp

lemma js_sub_int [js_arith]: "\<bar>a - b\<bar> \<le> 2 ^ 53 \<Longrightarrow> js_sub (num_int a) (num_int b) = num_int (a - b)"
  using fl_of_int[of "a - b"] by (simp add: js_sub_def)

lemma js_mul_int [js_arith]: "\<bar>a * b\<bar> \<le> 2 ^ 53 \<Longrightarrow> js_mul (num_int a) (num_int b) = num_int (a * b)"
  using fl_of_int[of "a * b"] by simp

lemma js_sub_sign:
  assumes "is_double (Fin a)" "is_double (Fin b)"
  shows "js_lt (js_sub (Fin a) (Fin b)) (Fin 0) \<longleftrightarrow> a < b"
    and "js_lt (Fin 0) (js_sub (Fin a) (Fin b)) \<longleftrightarrow> b < a"
proof -
  have e: "js_sub (Fin a) (Fin b) = fl (a - b)" by (simp add: js_sub_def)
  consider "a < b" | "b < a" | "a = b" by linarith
  then have "(js_lt (fl (a - b)) (Fin 0) \<longleftrightarrow> a < b) \<and> (js_lt (Fin 0) (fl (a - b)) \<longleftrightarrow> b < a)"
  proof cases
    case 1
    then have "0 < rnd (b - a)" using assms rnd_diff_pos[of b a] by simp
    then have "rnd (a - b) < 0" using rnd_minus[of "b - a"] by simp
    moreover from this have "\<not> huge \<le> rnd (a - b)" using huge_pos by linarith
    ultimately show ?thesis using 1 by (auto simp: fl_def Let_def)
  next
    case 2
    then have "0 < rnd (a - b)" using assms rnd_diff_pos[of a b] by simp
    moreover from this have "\<not> rnd (a - b) \<le> - huge" using huge_pos by linarith
    ultimately show ?thesis using 2 by (auto simp: fl_def Let_def)
  next
    case 3
    then show ?thesis by (simp add: fl_def)
  qed
  then show "js_lt (js_sub (Fin a) (Fin b)) (Fin 0) \<longleftrightarrow> a < b"
    and "js_lt (Fin 0) (js_sub (Fin a) (Fin b)) \<longleftrightarrow> b < a" by (auto simp: e)
qed

text \<open>Rounding a normal number errs by at most half a unit in its last place.\<close>

lemma rnd_relative:
  assumes "2 powi (- 1022) \<le> x"
  shows "\<bar>rnd x - x\<bar> \<le> x / 2 ^ 53"
proof -
  have pos: "0 < x" using assms powi_pos[of "- 1022"] by linarith
  have b: "2 powi (ilog2 x) \<le> x" using ilog2_bounds(1)[OF pos] .
  have "- 1022 \<le> ilog2 x" using ilog2_ge[OF pos assms] .
  then have u: "uexp x = ilog2 x - 52" using pos by (simp add: uexp_def)
  have "(2::rat) powi (ilog2 x - 52) = 2 powi (ilog2 x) / 2 ^ 52" by (simp add: power_int_diff)
  then have "2 powi (uexp x) / 2 \<le> x / 2 ^ 53" using b u by simp
  then show ?thesis using rnd_error[of x] by linarith
qed

lemma fl_shrink:
  assumes "is_double (Fin x)" "\<bar>y\<bar> \<le> \<bar>x\<bar>"
  shows "fl y = Fin (rnd y)"
proof -
  have d: "dbl \<bar>x\<bar>" using assms(1) by (simp add: abs_if)
  have "rnd y \<le> \<bar>x\<bar>" using assms(2) d by (intro rnd_le_dbl) auto
  moreover have "- \<bar>x\<bar> \<le> rnd y" using assms(2) d by (intro rnd_ge_dbl) auto
  ultimately have "\<bar>rnd y\<bar> \<le> \<bar>x\<bar>" by linarith
  then have "\<bar>rnd y\<bar> < huge" using assms(1) by simp
  then show ?thesis by (simp add: fl_def Let_def abs_less_iff)
qed

lemma js_lt_irrefl [simp]: "\<not> js_lt x x"
  by (cases x) auto

lemma js_lt_trans: "js_lt x y \<Longrightarrow> js_lt y z \<Longrightarrow> js_lt x z"
  by (cases x; cases y; cases z) auto

lemma js_lt_linear: "x \<noteq> NaN \<Longrightarrow> y \<noteq> NaN \<Longrightarrow> js_lt x y \<or> x = y \<or> js_lt y x"
  by (cases x; cases y) auto

end
