(* ===== verification/JsString.thy ===== *)
theory JsString
  imports JsNumber "HOL-Library.Sublist"
begin

text \<open>
  JavaScript strings as lists of characters (code units up to 255), with the methods of
  \<open>String.prototype\<close>, the number-to-string conversions \<open>Number::toString\<close> and
  \<open>toFixed\<close>, and the number parsers \<open>parseInt\<close> and \<open>parseFloat\<close>, as far as the program
  uses them.  Integers index the characters, as in the source, so that the out-of-range rules
  of each method are explicit.
\<close>

section \<open>Characters\<close>

abbreviation code :: "char \<Rightarrow> int" where
  "code c \<equiv> of_char c"

text \<open>White space and line terminators: the class \<open>\s\<close> and the characters \<open>trim\<close> removes.\<close>

definition is_ws :: "char \<Rightarrow> bool" where
  "is_ws c \<longleftrightarrow> (9 \<le> code c \<and> code c \<le> 13) \<or> code c = 32 \<or> code c = 160"

definition is_digit :: "char \<Rightarrow> bool" where
  "is_digit c \<longleftrightarrow> 48 \<le> code c \<and> code c \<le> 57"

definition is_upper :: "char \<Rightarrow> bool" where
  "is_upper c \<longleftrightarrow> 65 \<le> code c \<and> code c \<le> 90"

definition is_alpha :: "char \<Rightarrow> bool" where
  "is_alpha c \<longleftrightarrow> is_upper c \<or> (97 \<le> code c \<and> code c \<le> 122)"

text \<open>Lower case of \<open>A\<close> to \<open>Z\<close> and of the Latin-1 capitals.\<close>

definition lower_char :: "char \<Rightarrow> char" where
  "lower_char c = (if is_upper c \<or> (192 \<le> code c \<and> code c \<le> 222 \<and> code c \<noteq> 215)
                   then char_of (code c + 32) else c)"

definition toLowerCase :: "string \<Rightarrow> string" where
  "toLowerCase = map lower_char"

lemma ws_not_digit: "is_ws c \<Longrightarrow> \<not> is_digit c"
  by (auto simp: is_ws_def is_digit_def)

lemma ws_not_alpha: "is_ws c \<Longrightarrow> \<not> is_alpha c"
  by (auto simp: is_ws_def is_alpha_def is_upper_def)

lemma digit_not_alpha: "is_digit c \<Longrightarrow> \<not> is_alpha c"
  by (auto simp: is_digit_def is_alpha_def is_upper_def)

lemma length_toLowerCase [simp]: "length (toLowerCase s) = length s"
  by (simp add: toLowerCase_def)

section \<open>Methods\<close>

definition trim_start :: "string \<Rightarrow> string" where
  "trim_start = dropWhile is_ws"

text \<open>\<open>s.replace(/\s+$/g, '')\<close>.\<close>

definition trim_end :: "string \<Rightarrow> string" where
  "trim_end s = rev (dropWhile is_ws (rev s))"

definition trim :: "string \<Rightarrow> string" where
  "trim s = trim_end (trim_start s)"

text \<open>\<open>s.indexOf(pat)\<close>.\<close>

fun index_of :: "string \<Rightarrow> string \<Rightarrow> int" where
  "index_of pat [] = (if pat = [] then 0 else -1)"
| "index_of pat (c # s) =
     (if prefix pat (c # s) then 0 else let r = index_of pat s in if r = -1 then -1 else r + 1)"

definition str_includes :: "string \<Rightarrow> string \<Rightarrow> bool" where
  "str_includes s pat \<longleftrightarrow> index_of pat s \<noteq> -1"

text \<open>\<open>s.search(/\S/)\<close>.\<close>

fun search_nonws :: "string \<Rightarrow> int" where
  "search_nonws [] = -1"
| "search_nonws (c # s) =
     (if is_ws c then let r = search_nonws s in if r = -1 then -1 else r + 1 else 0)"

text \<open>\<open>s.substring(a, b)\<close>: both ends are clamped to the string and swapped when out of order.\<close>

definition clamp_index :: "string \<Rightarrow> int \<Rightarrow> int" where
  "clamp_index s i = max 0 (min i (int (length s)))"

definition substring :: "string \<Rightarrow> int \<Rightarrow> int \<Rightarrow> string" where
  "substring s a b =
     (let i = clamp_index s a; j = clamp_index s b; lo = min i j; hi = max i j
      in take (nat (hi - lo)) (drop (nat lo) s))"

definition substring_from :: "string \<Rightarrow> int \<Rightarrow> string" where
  "substring_from s a = substring s a (int (length s))"

text \<open>\<open>s.slice(a, b)\<close>: negative ends count from the end of the string.\<close>

definition rel_index :: "string \<Rightarrow> int \<Rightarrow> int" where
  "rel_index s i = (if i < 0 then max 0 (int (length s) + i) else min i (int (length s)))"

definition str_slice :: "string \<Rightarrow> int \<Rightarrow> int \<Rightarrow> string" where
  "str_slice s a b = (let i = rel_index s a; j = rel_index s b in take (nat (j - i)) (drop (nat i) s))"

text \<open>\<open>s.split(c)\<close> for a separator of one character, and \<open>xs.join(sep)\<close>.\<close>

fun split_char :: "char \<Rightarrow> string \<Rightarrow> string list" where
  "split_char c [] = [[]]"
| "split_char c (x # s) =
     (if x = c then [] # split_char c s
      else case split_char c s of [] \<Rightarrow> [[x]] | y # ys \<Rightarrow> (x # y) # ys)"

fun join :: "string \<Rightarrow> string list \<Rightarrow> string" where
  "join sep [] = []"
| "join sep [x] = x"
| "join sep (x # y # ys) = x @ sep @ join sep (y # ys)"

subsection \<open>Laws\<close>

lemma index_of_ge: "- 1 \<le> index_of pat s"
  by (induction pat s rule: index_of.induct) (auto simp: Let_def)

lemma index_of_found:
  "index_of pat s \<noteq> -1 \<Longrightarrow> nat (index_of pat s) \<le> length s \<and> prefix pat (drop (nat (index_of pat s)) s)"
proof (induction pat s rule: index_of.induct)
  case (1 pat)
  then show ?case by (auto split: if_splits)
next
  case (2 pat c s)
  show ?case
  proof (cases "prefix pat (c # s)")
    case True
    then show ?thesis by simp
  next
    case False
    with 2 have r: "index_of pat s \<noteq> -1" by (auto simp: Let_def)
    with index_of_ge[of pat s] have "nat (index_of pat s + 1) = Suc (nat (index_of pat s))" by simp
    with 2 False r show ?thesis by (simp add: Let_def)
  qed
qed

theorem index_of_sublist: "index_of pat s \<noteq> -1 \<longleftrightarrow> sublist pat s"
proof (induction pat s rule: index_of.induct)
  case (1 pat)
  then show ?case by auto
next
  case (2 pat c s)
  show ?case
  proof (cases "prefix pat (c # s)")
    case True
    then show ?thesis by (auto intro: prefix_imp_sublist)
  next
    case False
    then show ?thesis using 2 index_of_ge[of pat s] by (auto simp: Let_def sublist_Cons_right)
  qed
qed

lemma index_of_char: "index_of [c] s \<noteq> -1 \<longleftrightarrow> c \<in> set s"
proof (induction s)
  case (Cons x s)
  then show ?case using index_of_ge[of "[c]" s] by (auto simp: Let_def)
qed simp

lemma index_of_char_split:
  "index_of [c] s \<noteq> -1 \<Longrightarrow> s = takeWhile (\<lambda>x. x \<noteq> c) s @ c # drop (nat (index_of [c] s) + 1) s"
proof (induction s)
  case (Cons x s)
  show ?case
  proof (cases "x = c")
    case False
    with Cons.prems have r: "index_of [c] s \<noteq> -1" by (auto simp: Let_def)
    with index_of_ge[of "[c]" s] have "nat (index_of [c] s + 1) = Suc (nat (index_of [c] s))" by simp
    with Cons.IH[OF r] False r show ?thesis by (simp add: Let_def)
  qed simp
qed simp

lemma split_char_nonempty [simp]: "split_char c s \<noteq> []"
  by (induction s) (auto split: list.splits)

theorem join_split_char: "join [c] (split_char c s) = s"
proof (induction s)
  case (Cons x s)
  show ?case
  proof (cases "split_char c s")
    case (Cons y ys)
    with Cons.IH show ?thesis by (cases ys) auto
  qed simp
qed simp

lemma split_char_parts: "part \<in> set (split_char c s) \<Longrightarrow> c \<notin> set part"
  by (induction s arbitrary: part) (auto split: if_splits list.splits)

lemma split_char_append: "c \<notin> set x \<Longrightarrow> split_char c (x @ c # s) = x # split_char c s"
  by (induction x) auto

lemma split_char_no_sep: "c \<notin> set x \<Longrightarrow> split_char c x = [x]"
  by (induction x) auto

theorem split_char_join:
  "xs \<noteq> [] \<Longrightarrow> \<forall>x \<in> set xs. c \<notin> set x \<Longrightarrow> split_char c (join [c] xs) = xs"
  by (induction "[c]" xs rule: join.induct) (auto simp: split_char_append split_char_no_sep)

lemma length_substring_le: "length (substring s a b) \<le> length s"
  by (simp add: substring_def Let_def)

lemma substring_0: "0 \<le> n \<Longrightarrow> substring s 0 n = take (nat n) s"
  by (auto simp: substring_def clamp_index_def Let_def min_def max_def)

lemma substring_from_nonneg: "0 \<le> n \<Longrightarrow> substring_from s n = drop (nat n) s"
  by (auto simp: substring_from_def substring_def clamp_index_def Let_def min_def max_def)

lemma substring_from_neg: "n \<le> 0 \<Longrightarrow> substring_from s n = s"
  by (simp add: substring_from_def substring_def clamp_index_def Let_def)

lemma str_slice_to_end: "0 \<le> a \<Longrightarrow> str_slice s a (int (length s)) = drop (nat a) s"
  by (auto simp: str_slice_def rel_index_def Let_def min_def)

lemma search_nonws_ge: "- 1 \<le> search_nonws s"
  by (induction s) (auto simp: Let_def)

lemma search_nonws_eq:
  "search_nonws s = (if list_all is_ws s then -1 else int (length (takeWhile is_ws s)))"
  by (induction s) (auto simp: Let_def)

lemma trim_end_suffix: "\<exists>t. s = trim_end s @ t \<and> list_all is_ws t"
proof -
  have "s = trim_end s @ rev (takeWhile is_ws (rev s))"
    unfolding trim_end_def by (metis rev_append rev_rev_ident takeWhile_dropWhile_id)
  moreover have "list_all is_ws (rev (takeWhile is_ws (rev s)))"
    by (auto simp: list_all_iff dest: set_takeWhileD)
  ultimately show ?thesis by blast
qed

lemma trim_end_last: "trim_end s \<noteq> [] \<Longrightarrow> \<not> is_ws (last (trim_end s))"
  unfolding trim_end_def by (metis hd_dropWhile last_rev rev_is_Nil_conv)

lemma trim_end_empty: "trim_end s = [] \<longleftrightarrow> list_all is_ws s"
  by (auto simp: trim_end_def dropWhile_eq_Nil_conv list_all_iff)

lemma trim_empty: "trim s = [] \<longleftrightarrow> list_all is_ws s"
proof -
  have "trim s = [] \<longleftrightarrow> list_all is_ws (dropWhile is_ws s)"
    by (simp add: trim_def trim_start_def trim_end_empty)
  also have "\<dots> \<longleftrightarrow> list_all is_ws s"
    by (induction s) auto
  finally show ?thesis .
qed

section \<open>Decimal digits\<close>

definition digit_char :: "int \<Rightarrow> char" where
  "digit_char d = ''0123456789'' ! nat d"

definition digit_val :: "char \<Rightarrow> int" where
  "digit_val c = code c - 48"

function show_nat :: "int \<Rightarrow> string" where
  "show_nat n = (if n < 10 then [digit_char n] else show_nat (n div 10) @ [digit_char (n mod 10)])"
  by pat_completeness auto
termination
  by (relation "measure nat") auto

declare show_nat.simps [simp del]

definition show_int :: "int \<Rightarrow> string" where
  "show_int n = (if n < 0 then ''-'' @ show_nat (- n) else show_nat n)"

text \<open>The integer denoted by a string of digits.\<close>

definition digits_val :: "string \<Rightarrow> int" where
  "digits_val ds = foldl (\<lambda>n c. 10 * n + digit_val c) 0 ds"

lemma digits_0_9: "0 \<le> d \<Longrightarrow> d < 10 \<Longrightarrow> d \<in> {0, 1, 2, 3, 4, 5, 6, 7, 8, (9::int)}"
  by (simp, presburger)

lemma digit_char:
  assumes "0 \<le> d" "d < 10"
  shows "is_digit (digit_char d)" "digit_val (digit_char d) = d"
  using digits_0_9[OF assms] by (auto simp: digit_char_def digit_val_def is_digit_def)

lemma digit_val_range: "is_digit c \<Longrightarrow> 0 \<le> digit_val c \<and> digit_val c < 10"
  by (simp add: is_digit_def digit_val_def)

lemma digits_val_snoc: "digits_val (ds @ [c]) = 10 * digits_val ds + digit_val c"
  by (simp add: digits_val_def)

lemma digits_val_nonneg: "list_all is_digit ds \<Longrightarrow> 0 \<le> digits_val ds"
  by (induction ds rule: rev_induct) (auto simp: digits_val_snoc digits_val_def[of "[]"] dest: digit_val_range)

lemma show_nat_digits: "0 \<le> n \<Longrightarrow> list_all is_digit (show_nat n)"
proof (induction n rule: show_nat.induct)
  case (1 n)
  then show ?case by (cases "n < 10") (auto simp: show_nat.simps[of n] digit_char)
qed

lemma show_nat_nonempty [simp]: "show_nat n \<noteq> []"
  by (simp add: show_nat.simps[of n])

theorem digits_val_show_nat: "0 \<le> n \<Longrightarrow> digits_val (show_nat n) = n"
proof (induction n rule: show_nat.induct)
  case (1 n)
  show ?case
  proof (cases "n < 10")
    case True
    with 1 show ?thesis by (simp add: show_nat.simps[of n] digits_val_def digit_char)
  next
    case False
    with 1 show ?thesis by (simp add: show_nat.simps[of n] digits_val_snoc digit_char)
  qed
qed

lemma show_nat_inj: "0 \<le> m \<Longrightarrow> 0 \<le> n \<Longrightarrow> show_nat m = show_nat n \<Longrightarrow> m = n"
  by (metis digits_val_show_nat)

lemma length_show_nat_le: "0 \<le> n \<Longrightarrow> n < 10 ^ Suc k \<Longrightarrow> length (show_nat n) \<le> Suc k"
proof (induction k arbitrary: n)
  case 0
  then show ?case by (simp add: show_nat.simps[of n])
next
  case (Suc k)
  show ?case
  proof (cases "n < 10")
    case False
    have "n div 10 < 10 ^ Suc k" using Suc.prems by (simp add: div_less_iff_less_mult mult.commute)
    with Suc False show ?thesis by (simp add: show_nat.simps[of n])
  qed (simp add: show_nat.simps[of n])
qed

section \<open>Numbers to strings\<close>

text \<open>
  \<open>x.toFixed(f)\<close>: the integer \<open>n\<close> with \<open>n / 10 ^ f\<close> closest to the magnitude of \<open>x\<close> (the larger
  one on a tie), with the point inserted before the last \<open>f\<close> digits.
\<close>

definition fixed_digits :: "nat \<Rightarrow> rat \<Rightarrow> int" where
  "fixed_digits f y = \<lfloor>y * 10 ^ f + 1/2\<rfloor>"

definition insert_point :: "nat \<Rightarrow> string \<Rightarrow> string" where
  "insert_point f m =
     (if f = 0 then m
      else let p = replicate (Suc f - length m) (CHR ''0'') @ m
           in take (length p - f) p @ ''.'' @ drop (length p - f) p)"

definition to_fixed_fin :: "nat \<Rightarrow> rat \<Rightarrow> string" where
  "to_fixed_fin f x = (if x < 0 then ''-'' else []) @ insert_point f (show_nat (fixed_digits f \<bar>x\<bar>))"

text \<open>The number of decimal digits before the point, zero or negative below \<open>0.1\<close>.\<close>

function dec_len :: "int \<Rightarrow> int" where
  "dec_len n = (if n \<le> 0 then 0 else 1 + dec_len (n div 10))"
  by pat_completeness auto
termination
  by (relation "measure nat") auto

declare dec_len.simps [simp del]

definition dec_exp :: "rat \<Rightarrow> int" where
  "dec_exp x = (if 1 \<le> x then dec_len \<lfloor>x\<rfloor> else 1 - dec_len (\<lceil>1 / x\<rceil> - 1))"

text \<open>
  The shortest decimal that rounds to the double \<open>x\<close>: for \<open>k\<close> digits the only candidates are
  the two neighbours of \<open>x\<close> on the grid of \<open>k\<close>-digit decimals; the closer one is taken when both
  round to \<open>x\<close>.  Seventeen digits always suffice for binary64.
\<close>

definition digit_candidate :: "rat \<Rightarrow> int \<Rightarrow> int \<Rightarrow> int option" where
  "digit_candidate x n k =
     (let u = 10 powi (n - k); lo = \<lfloor>x / u\<rfloor>; hi = lo + 1;
          okl = (lo \<noteq> 0 \<and> rnd (of_int lo * u) = x); okh = (rnd (of_int hi * u) = x);
          dl = x - of_int lo * u; dh = of_int hi * u - x
      in if okl \<and> okh then Some (if dl < dh \<or> (dl = dh \<and> even lo) then lo else hi)
         else if okl then Some lo else if okh then Some hi else None)"

fun shortest_digits :: "rat \<Rightarrow> int \<Rightarrow> int list \<Rightarrow> int \<times> int" where
  "shortest_digits x n [] = (\<lfloor>x / 10 powi (n - 17)\<rfloor>, 17)"
| "shortest_digits x n (k # ks) =
     (case digit_candidate x n k of Some s \<Rightarrow> (s, k) | None \<Rightarrow> shortest_digits x n ks)"

definition show_exp :: "int \<Rightarrow> string" where
  "show_exp e = ''e'' @ (if e < 0 then ''-'' else ''+'') @ show_nat \<bar>e\<bar>"

text \<open>\<open>Number::toString\<close> for a positive number that is not a small integer.\<close>

definition show_positive :: "rat \<Rightarrow> string" where
  "show_positive x =
     (let n0 = dec_exp x; (s0, k0) = shortest_digits x n0 [1..17];
          (s, k, n) = (if s0 = 10 ^ nat k0 then (1, 1, n0 + 1) else (s0, k0, n0));
          ds = show_nat s
      in if k \<le> n \<and> n \<le> 21 then ds @ replicate (nat (n - k)) (CHR ''0'')
         else if 0 < n \<and> n \<le> 21 then take (nat n) ds @ ''.'' @ drop (nat n) ds
         else if - 6 < n \<and> n \<le> 0 then ''0.'' @ replicate (nat (- n)) (CHR ''0'') @ ds
         else if k = 1 then ds @ show_exp (n - 1)
         else take 1 ds @ ''.'' @ drop 1 ds @ show_exp (n - 1))"

text \<open>
  \<open>Number::toString\<close>.  An integer of magnitude at most \<open>2 ^ 53\<close> is its own shortest decimal.
\<close>

definition show_fin :: "rat \<Rightarrow> string" where
  "show_fin x =
     (if x = of_int \<lfloor>x\<rfloor> \<and> \<bar>x\<bar> \<le> 2 ^ 53 then show_int \<lfloor>x\<rfloor>
      else if x < 0 then ''-'' @ show_positive (- x) else show_positive x)"

fun num_to_string :: "jsnum \<Rightarrow> string" where
  "num_to_string (Fin x) = show_fin x"
| "num_to_string PInf = ''Infinity''"
| "num_to_string NInf = ''-Infinity''"
| "num_to_string NaN = ''NaN''"

fun to_fixed :: "nat \<Rightarrow> jsnum \<Rightarrow> string" where
  "to_fixed f (Fin x) = (if 10 ^ 21 \<le> \<bar>x\<bar> then show_fin x else to_fixed_fin f x)"
| "to_fixed f x = num_to_string x"

text \<open>A number, \<open>null\<close> or \<open>undefined\<close> as an operand of string concatenation.\<close>

fun jv_to_string :: "jv \<Rightarrow> string" where
  "jv_to_string JUndefined = ''undefined''"
| "jv_to_string JNull = ''null''"
| "jv_to_string (JNum x) = num_to_string x"

lemma num_to_string_int: "\<bar>n\<bar> \<le> 2 ^ 53 \<Longrightarrow> num_to_string (num_int n) = show_int n"
proof -
  assume "\<bar>n\<bar> \<le> 2 ^ 53"
  then have "(of_int \<bar>n\<bar> :: rat) \<le> of_int (2 ^ 53)" by (simp only: of_int_le_iff)
  then show ?thesis by (simp add: show_fin_def)
qed

section \<open>Strings to numbers\<close>

definition hex_val :: "char \<Rightarrow> int option" where
  "hex_val c = (if is_digit c then Some (digit_val c)
                else if 97 \<le> code c \<and> code c \<le> 102 then Some (code c - 87)
                else if 65 \<le> code c \<and> code c \<le> 70 then Some (code c - 55) else None)"

text \<open>\<open>parseInt(s)\<close>: optional sign, optional \<open>0x\<close>, the longest run of digits.\<close>

definition parse_int :: "string \<Rightarrow> jsnum" where
  "parse_int s =
     (let t = trim_start s;
          neg = (t \<noteq> [] \<and> hd t = CHR ''-'');
          u = (if t \<noteq> [] \<and> (hd t = CHR ''-'' \<or> hd t = CHR ''+'') then tl t else t)
      in if prefix ''0x'' u \<or> prefix ''0X'' u
         then let ds = takeWhile (\<lambda>c. hex_val c \<noteq> None) (drop 2 u);
                  v = foldl (\<lambda>n c. 16 * n + the (hex_val c)) 0 ds
              in if ds = [] then NaN else fl (of_int (if neg then - v else v))
         else let ds = takeWhile is_digit u; v = digits_val ds
              in if ds = [] then NaN else fl (of_int (if neg then - v else v)))"

text \<open>
  \<open>parseFloat\<close> of a string of the form \<open>\d+(\.\d+)?\<close>, given as its integer and fraction digits.
\<close>

definition decimal_val :: "string \<Rightarrow> string \<Rightarrow> rat" where
  "decimal_val ip fp = of_int (digits_val (ip @ fp)) / 10 ^ length fp"

definition parse_decimal :: "string \<Rightarrow> string \<Rightarrow> jsnum" where
  "parse_decimal ip fp = fl (decimal_val ip fp)"

lemma is_double_parse_int: "is_double (parse_int s)"
  by (simp add: parse_int_def Let_def)

lemma digit_not_sign: "is_digit c \<Longrightarrow> c \<noteq> CHR ''-'' \<and> c \<noteq> CHR ''+''"
  by (auto simp: is_digit_def)

lemma digit_not_x: "is_digit c \<Longrightarrow> c \<noteq> CHR ''x'' \<and> c \<noteq> CHR ''X''"
  by (auto simp: is_digit_def)

text \<open>\<open>parseInt\<close> reads back a decimal prefix that is not followed by another digit or an \<open>x\<close>.\<close>

lemma parse_int_prefix:
  assumes ds: "list_all is_digit ds" "ds \<noteq> []"
    and rest: "rest = [] \<or> \<not> is_digit (hd rest) \<and> hd rest \<noteq> CHR ''x'' \<and> hd rest \<noteq> CHR ''X''"
  shows "parse_int (ds @ rest) = fl (of_int (digits_val ds))"
proof -
  obtain d ds' where d: "ds = d # ds'" "is_digit d" using ds by (cases ds) auto
  have t: "trim_start (ds @ rest) = ds @ rest"
    using d ws_not_digit[of d] by (auto simp: trim_start_def)
  have tw: "takeWhile is_digit (ds @ rest) = ds"
    using ds(1) rest by (cases rest) (auto simp: list_all_iff takeWhile_append)
  have nx: "\<not> prefix ''0x'' (ds @ rest) \<and> \<not> prefix ''0X'' (ds @ rest)"
  proof (cases ds')
    case Nil
    then show ?thesis using d rest by (cases rest) auto
  next
    case (Cons e es)
    then have "is_digit e" using ds d by simp
    then show ?thesis using d Cons digit_not_x[of e] by auto
  qed
  have sgn: "hd (ds @ rest) \<noteq> CHR ''-''" "hd (ds @ rest) \<noteq> CHR ''+''"
    using d digit_not_sign[of d] by auto
  show ?thesis
    unfolding parse_int_def Let_def t using nx sgn tw ds by simp
qed

theorem parse_int_show_nat:
  "0 \<le> n \<Longrightarrow> n \<le> 2 ^ 53 \<Longrightarrow> parse_int (show_nat n) = num_int n"
  using parse_int_prefix[of "show_nat n" "[]"]
  by (simp add: show_nat_digits digits_val_show_nat fl_of_int)

end
