(* ===== verification/JsArray.thy ===== *)
theory JsArray
  imports JsString "HOL-Library.AList"
begin

text \<open>
  JavaScript arrays, objects and maps as far as the program uses them.

  An array is a list.  \<open>Array.prototype.sort\<close> is the stable sort the language definition
  prescribes: a comparator result above zero puts the second element first, anything else
  (a negative number, zero, \<open>NaN\<close>) keeps the order.  An object used as a dictionary and a
  \<open>Map\<close> are association lists in insertion order.
\<close>

section \<open>Arrays\<close>

fun insert_cmp :: "('a \<Rightarrow> 'a \<Rightarrow> jsnum) \<Rightarrow> 'a \<Rightarrow> 'a list \<Rightarrow> 'a list" where
  "insert_cmp cmp x [] = [x]"
| "insert_cmp cmp x (y # ys) = (if js_lt (Fin 0) (cmp x y) then y # insert_cmp cmp x ys else x # y # ys)"

definition array_sort :: "('a \<Rightarrow> 'a \<Rightarrow> jsnum) \<Rightarrow> 'a list \<Rightarrow> 'a list" where
  "array_sort cmp xs = foldr (insert_cmp cmp) xs []"

text \<open>\<open>xs.splice(start, n)\<close>: what remains of \<open>xs\<close>.\<close>

definition array_splice :: "'a list \<Rightarrow> nat \<Rightarrow> nat \<Rightarrow> 'a list" where
  "array_splice xs start n = take start xs @ drop (start + n) xs"

text \<open>\<open>xs[i]\<close>: an index outside the array reads \<open>undefined\<close>.\<close>

definition nth_opt :: "'a list \<Rightarrow> int \<Rightarrow> 'a option" where
  "nth_opt xs i = (if 0 \<le> i \<and> i < int (length xs) then Some (xs ! nat i) else None)"

text \<open>\<open>xs[xs.length - 1]\<close> for an array of numbers.\<close>

definition last_num :: "jv list \<Rightarrow> jv" where
  "last_num xs = (case nth_opt xs (int (length xs) - 1) of None \<Rightarrow> JUndefined | Some v \<Rightarrow> v)"

text \<open>\<open>xs.indexOf(x)\<close>.\<close>

fun array_index_of :: "'a list \<Rightarrow> 'a \<Rightarrow> int" where
  "array_index_of [] y = -1"
| "array_index_of (x # xs) y =
     (if x = y then 0 else let r = array_index_of xs y in if r = -1 then -1 else r + 1)"

subsection \<open>Laws\<close>

lemma mset_insert_cmp [simp]: "mset (insert_cmp cmp x xs) = add_mset x (mset xs)"
  by (induction xs) auto

theorem mset_array_sort [simp]: "mset (array_sort cmp xs) = mset xs"
  by (induction xs) (auto simp: array_sort_def)

lemma set_array_sort [simp]: "set (array_sort cmp xs) = set xs"
  by (metis mset_array_sort set_mset_mset)

lemma length_array_sort [simp]: "length (array_sort cmp xs) = length xs"
  by (metis mset_array_sort size_mset)

lemma distinct_map_array_sort [simp]: "distinct (map f (array_sort cmp xs)) = distinct (map f xs)"
  by (rule distinct_map_mset) simp

lemma splice_tail: "n \<le> length xs \<Longrightarrow> array_splice xs n (length xs - n) = take n xs"
  by (simp add: array_splice_def)

lemma last_num_snoc [simp]: "last_num (xs @ [x]) = x"
  by (simp add: last_num_def nth_opt_def)

lemma last_num_Nil [simp]: "last_num [] = JUndefined"
  by (simp add: last_num_def nth_opt_def)

lemma array_index_of_ge: "- 1 \<le> array_index_of xs y"
  by (induction xs) (auto simp: Let_def)

lemma array_index_of_mem: "- 1 < array_index_of xs y \<longleftrightarrow> y \<in> set xs"
proof (induction xs)
  case (Cons x xs)
  then show ?case using array_index_of_ge[of xs y] by (auto simp: Let_def)
qed simp

lemma splice_index_of:
  "y \<in> set xs \<Longrightarrow> array_splice xs (nat (array_index_of xs y)) 1 = remove1 y xs"
proof (induction xs)
  case (Cons x xs)
  show ?case
  proof (cases "x = y")
    case False
    then have m: "y \<in> set xs" using Cons.prems by simp
    then have r: "0 \<le> array_index_of xs y" using array_index_of_mem[of xs y] by simp
    then have "nat (array_index_of xs y + 1) = Suc (nat (array_index_of xs y))" by simp
    then show ?thesis using Cons.IH[OF m] False r by (simp add: array_splice_def Let_def)
  qed (simp add: array_splice_def)
qed simp

subsection \<open>Sorting with a consistent comparator\<close>

text \<open>
  The contract of a comparator on the elements \<open>A\<close>: a positive result says exactly that the
  arguments are out of the order \<open>R\<close>, and \<open>R\<close> is a total preorder there.
\<close>

locale comparator =
  fixes cmp :: "'a \<Rightarrow> 'a \<Rightarrow> jsnum"
    and R :: "'a \<Rightarrow> 'a \<Rightarrow> bool"
    and A :: "'a set"
  assumes cmp_gt: "x \<in> A \<Longrightarrow> y \<in> A \<Longrightarrow> js_lt (Fin 0) (cmp x y) \<longleftrightarrow> \<not> R x y"
    and R_total: "x \<in> A \<Longrightarrow> y \<in> A \<Longrightarrow> R x y \<or> R y x"
    and R_trans: "x \<in> A \<Longrightarrow> y \<in> A \<Longrightarrow> z \<in> A \<Longrightarrow> R x y \<Longrightarrow> R y z \<Longrightarrow> R x z"
begin

lemma sorted_insert:
  assumes "set xs \<subseteq> A" "x \<in> A" "sorted_wrt R xs"
  shows "sorted_wrt R (insert_cmp cmp x xs)"
  using assms
proof (induction xs)
  case (Cons y ys)
  then have y: "y \<in> A" and ys: "set ys \<subseteq> A" by auto
  show ?case
  proof (cases "js_lt (Fin 0) (cmp x y)")
    case True
    then have "R y x" using cmp_gt R_total y Cons.prems(2) by blast
    moreover have "set (insert_cmp cmp x ys) = insert x (set ys)"
      by (metis mset_insert_cmp set_mset_add_mset_insert set_mset_mset)
    ultimately show ?thesis using True Cons ys by auto
  next
    case False
    then have xy: "R x y" using cmp_gt y Cons.prems(2) by blast
    have "R x z" if "z \<in> set ys" for z
      using R_trans[OF Cons.prems(2) y _ xy, of z] that Cons.prems(3) ys by auto
    then show ?thesis using False xy Cons.prems by simp
  qed
qed simp

theorem sorted_array_sort: "set xs \<subseteq> A \<Longrightarrow> sorted_wrt R (array_sort cmp xs)"
proof (induction xs)
  case (Cons x xs)
  have "set (array_sort cmp xs) \<subseteq> A" using Cons.prems by simp
  then show ?case using Cons sorted_insert[of "array_sort cmp xs" x] by (simp add: array_sort_def)
qed (simp add: array_sort_def)

text \<open>Elements that compare equal keep their order.\<close>

lemma filter_insert:
  assumes "set xs \<subseteq> A" "x \<in> A" "z \<in> A" "sorted_wrt R xs"
  shows "filter (\<lambda>y. R y z \<and> R z y) (insert_cmp cmp x xs) =
         (if R x z \<and> R z x then x # filter (\<lambda>y. R y z \<and> R z y) xs else filter (\<lambda>y. R y z \<and> R z y) xs)"
  using assms
proof (induction xs)
  case (Cons y ys)
  then have y: "y \<in> A" and ys: "set ys \<subseteq> A" by auto
  show ?case
  proof (cases "js_lt (Fin 0) (cmp x y)")
    case True
    then have n: "\<not> R x y" using cmp_gt y Cons.prems(2) by blast
    then have "\<not> (R x z \<and> R z x) \<or> \<not> (R y z \<and> R z y)"
      using R_trans[OF Cons.prems(2,3) y] by auto
    then show ?thesis using True Cons ys by auto
  qed simp
qed simp

theorem array_sort_stable:
  "set xs \<subseteq> A \<Longrightarrow> z \<in> A \<Longrightarrow>
   filter (\<lambda>y. R y z \<and> R z y) (array_sort cmp xs) = filter (\<lambda>y. R y z \<and> R z y) xs"
proof (induction xs)
  case (Cons x xs)
  then have "set (array_sort cmp xs) \<subseteq> A" "sorted_wrt R (array_sort cmp xs)"
    using sorted_array_sort by auto
  then show ?case using Cons filter_insert[of "array_sort cmp xs" x z] by (simp add: array_sort_def)
qed (simp add: array_sort_def)

end

section \<open>Objects as dictionaries\<close>

type_synonym ('k, 'v) jsmap = "('k \<times> 'v) list"

abbreviation map_get :: "('k, 'v) jsmap \<Rightarrow> 'k \<Rightarrow> 'v option" where
  "map_get \<equiv> map_of"

abbreviation map_set :: "'k \<Rightarrow> 'v \<Rightarrow> ('k, 'v) jsmap \<Rightarrow> ('k, 'v) jsmap" where
  "map_set \<equiv> AList.update"

abbreviation map_has :: "('k, 'v) jsmap \<Rightarrow> 'k \<Rightarrow> bool" where
  "map_has m k \<equiv> map_of m k \<noteq> None"

text \<open>The properties every object inherits; reading one of them never gives \<open>undefined\<close>.\<close>

definition object_prototype :: "string list" where
  "object_prototype =
    [''constructor'', ''__defineGetter__'', ''__defineSetter__'', ''hasOwnProperty'', ''__lookupGetter__'',
     ''__lookupSetter__'', ''isPrototypeOf'', ''propertyIsEnumerable'', ''toString'', ''valueOf'', ''__proto__'',
     ''toLocaleString'']"

text \<open>
  The keys of an object in the order of \<open>for ... in\<close> and \<open>Object.keys\<close>: array indices in
  ascending order, then the other keys in insertion order.
\<close>

definition is_array_index :: "string \<Rightarrow> bool" where
  "is_array_index k \<longleftrightarrow> list_all is_digit k \<and> k \<noteq> [] \<and> (k = ''0'' \<or> hd k \<noteq> CHR ''0'')
     \<and> digits_val k < 2 ^ 32 - 1"

definition own_keys :: "(string, 'v) jsmap \<Rightarrow> string list" where
  "own_keys m = sort_key digits_val (filter is_array_index (map fst m))
                @ filter (\<lambda>k. \<not> is_array_index k) (map fst m)"

lemma mset_own_keys: "mset (own_keys m) = mset (map fst m)"
  by (simp add: own_keys_def)

lemma set_own_keys [simp]: "set (own_keys m) = fst ` set m"
  by (metis list.set_map mset_own_keys set_mset_mset)

lemma distinct_own_keys: "distinct (map fst m) \<Longrightarrow> distinct (own_keys m)"
  using mset_eq_imp_distinct_iff[OF mset_own_keys[of m]] by simp

lemma own_keys_no_index: "\<forall>k \<in> fst ` set m. \<not> is_array_index k \<Longrightarrow> own_keys m = map fst m"
  by (auto simp: own_keys_def filter_id_conv filter_empty_conv)

end
