(* ===== verification/Vdom.thy ===== *)
theory Vdom
  imports JsArray
begin

text \<open>
  React elements as data.  A \<open>render\<close> method returns a tree of elements; an event handler bound
  in an attribute (\<open>onClick={this.handleX.bind(this, a)}\<close>) is kept as a value of the
  component's own type \<open>'h\<close> of events, and a child component with its props as a value of the
  component's type \<open>'c\<close> of children, so that what a click does and what a child receives can be
  read off the tree.
\<close>

datatype 'h attr =
    AStr string
  | ANum jsnum
  | AStyle "(string \<times> string) list"
  | AHandler 'h
  | ANone

datatype ('h, 'c) vnode =
    Elem string "(string \<times> 'h attr) list" "('h, 'c) vnode list"
  | Text string
  | Number jv
  | Fragment "('h, 'c) vnode list"
  | Comp 'c
  | Nothing

text \<open>The attributes the program writes over and over.\<close>

abbreviation className :: "string \<Rightarrow> string \<times> 'h attr" where
  "className s \<equiv> (''className'', AStr s)"

abbreviation attr :: "string \<Rightarrow> string \<Rightarrow> string \<times> 'h attr" where
  "attr n s \<equiv> (n, AStr s)"

abbreviation style_attr :: "(string \<times> string) list \<Rightarrow> string \<times> 'h attr" where
  "style_attr s \<equiv> (''style'', AStyle s)"

abbreviation onClick :: "'h \<Rightarrow> string \<times> 'h attr" where
  "onClick h \<equiv> (''onClick'', AHandler h)"

abbreviation divc :: "string \<Rightarrow> ('h, 'c) vnode list \<Rightarrow> ('h, 'c) vnode" where
  "divc s cs \<equiv> Elem ''div'' [className s] cs"

abbreviation el :: "string \<Rightarrow> ('h, 'c) vnode list \<Rightarrow> ('h, 'c) vnode" where
  "el t cs \<equiv> Elem t [] cs"

abbreviation elc :: "string \<Rightarrow> string \<Rightarrow> ('h, 'c) vnode list \<Rightarrow> ('h, 'c) vnode" where
  "elc t s cs \<equiv> Elem t [className s] cs"

text \<open>The character reference \<open>&nbsp;\<close>.\<close>

abbreviation nbsp :: string where
  "nbsp \<equiv> [CHR 0xA0]"

text \<open>An optional string as a child: \<open>null\<close> and \<open>undefined\<close> render nothing.\<close>

definition text_opt :: "string option \<Rightarrow> ('h, 'c) vnode" where
  "text_opt x = (case x of None \<Rightarrow> Nothing | Some s \<Rightarrow> Text s)"

section \<open>Reading a tree\<close>

definition attr_handlers :: "(string \<times> 'h attr) list \<Rightarrow> 'h list" where
  "attr_handlers as = concat (map (\<lambda>(n, a). case a of AHandler h \<Rightarrow> [h] | _ \<Rightarrow> []) as)"

text \<open>The event handlers of a tree, in document order.\<close>

primrec handlers :: "('h, 'c) vnode \<Rightarrow> 'h list" where
  "handlers (Elem t as cs) = attr_handlers as @ concat (map handlers cs)"
| "handlers (Text s) = []"
| "handlers (Number x) = []"
| "handlers (Fragment cs) = concat (map handlers cs)"
| "handlers (Comp c) = []"
| "handlers Nothing = []"

text \<open>The child components of a tree, in document order.\<close>

primrec children :: "('h, 'c) vnode \<Rightarrow> 'c list" where
  "children (Elem t as cs) = concat (map children cs)"
| "children (Text s) = []"
| "children (Number x) = []"
| "children (Fragment cs) = concat (map children cs)"
| "children (Comp c) = [c]"
| "children Nothing = []"

text \<open>The text the tree shows: React writes numbers with \<open>Number::toString\<close>, skips nothing-nodes.\<close>

primrec inner_text :: "('h, 'c) vnode \<Rightarrow> string" where
  "inner_text (Elem t as cs) = concat (map inner_text cs)"
| "inner_text (Text s) = s"
| "inner_text (Number x) = (case x of JNum n \<Rightarrow> num_to_string n | _ \<Rightarrow> [])"
| "inner_text (Fragment cs) = concat (map inner_text cs)"
| "inner_text (Comp c) = []"
| "inner_text Nothing = []"

text \<open>All elements of a tree with their attributes.\<close>

primrec elements :: "('h, 'c) vnode \<Rightarrow> (string \<times> (string \<times> 'h attr) list) list" where
  "elements (Elem t as cs) = (t, as) # concat (map elements cs)"
| "elements (Text s) = []"
| "elements (Number x) = []"
| "elements (Fragment cs) = concat (map elements cs)"
| "elements (Comp c) = []"
| "elements Nothing = []"

text \<open>The ids of the elements, and whether the selector \<open>#id\<close> selects an element.\<close>

definition attr_ids :: "(string \<times> 'h attr) list \<Rightarrow> string list" where
  "attr_ids as = concat (map (\<lambda>(n, a). if n = ''id'' then (case a of AStr i \<Rightarrow> [i] | _ \<Rightarrow> []) else []) as)"

primrec element_ids :: "('h, 'c) vnode \<Rightarrow> string list" where
  "element_ids (Elem t as cs) = attr_ids as @ concat (map element_ids cs)"
| "element_ids (Text s) = []"
| "element_ids (Number x) = []"
| "element_ids (Fragment cs) = concat (map element_ids cs)"
| "element_ids (Comp c) = []"
| "element_ids Nothing = []"

definition selects :: "string \<Rightarrow> ('h, 'c) vnode \<Rightarrow> bool" where
  "selects selector v \<longleftrightarrow> (case selector of [] \<Rightarrow> False | c # i \<Rightarrow> c = CHR ''#'' \<and> i \<in> set (element_ids v))"

lemma handlers_Elem_append:
  "handlers (Elem t as (cs @ ds)) = handlers (Elem t as cs) @ concat (map handlers ds)"
  by simp

lemma attr_handlers_simps [simp]:
  "attr_handlers [] = []"
  "attr_handlers ((n, AHandler h) # as) = h # attr_handlers as"
  "attr_handlers ((n, AStr s) # as) = attr_handlers as"
  "attr_handlers ((n, ANum x) # as) = attr_handlers as"
  "attr_handlers ((n, AStyle st) # as) = attr_handlers as"
  "attr_handlers ((n, ANone) # as) = attr_handlers as"
  by (simp_all add: attr_handlers_def)

lemma handlers_text_opt [simp]: "handlers (text_opt x) = []"
  by (simp add: text_opt_def split: option.split)

lemma children_text_opt [simp]: "children (text_opt x) = []"
  by (simp add: text_opt_def split: option.split)

end
