(* ===== verification/JsDate.thy ===== *)
theory JsDate
  imports JsArray
begin

text \<open>
  Dates.  \<open>Date.parse\<close> is modelled on the timestamps the server sends, the format
  \<open>YYYY-MM-DDTHH:mm:ss.sssZ\<close>; what it returns on any other string depends on the browser, and
  the local-time components of a time value depend on its time zone: both are fields of \<open>env\<close>,
  the environment a page runs in.
\<close>

text \<open>A \<open>Date\<close> by its local-time components; the getters of an invalid date return \<open>NaN\<close>.\<close>

datatype js_date = InvalidDate | Date (d_year: int) (d_month: int) (d_date: int) (d_hours: int) (d_minutes: int)

definition date_get :: "(js_date \<Rightarrow> int) \<Rightarrow> js_date \<Rightarrow> jsnum" where
  "date_get f d = (case d of InvalidDate \<Rightarrow> NaN | _ \<Rightarrow> num_int (f d))"

record env =
  env_local :: "jsnum \<Rightarrow> js_date"
  env_parse_date :: "string \<Rightarrow> jsnum"
  env_url :: "string \<Rightarrow> (string \<times> string) option"

section \<open>Timestamps\<close>

definition leap_year :: "int \<Rightarrow> bool" where
  "leap_year y \<longleftrightarrow> y mod 4 = 0 \<and> (y mod 100 \<noteq> 0 \<or> y mod 400 = 0)"

definition days_in_month :: "int \<Rightarrow> int \<Rightarrow> int" where
  "days_in_month y m = (if m = 2 then (if leap_year y then 29 else 28)
                        else if m \<in> {4, 6, 9, 11} then 30 else 31)"

text \<open>The days from 1970-01-01 to a date, counting years from March.\<close>

definition days_from_civil :: "int \<Rightarrow> int \<Rightarrow> int \<Rightarrow> int" where
  "days_from_civil y m d =
    (let y' = (if m \<le> 2 then y - 1 else y); era = y' div 400; yoe = y' mod 400;
         doy = (153 * (if m \<le> 2 then m + 9 else m - 3) + 2) div 5 + d - 1;
         doe = yoe * 365 + yoe div 4 - yoe div 100 + doy
     in era * 146097 + doe - 719468)"

definition time_value :: "int \<Rightarrow> int \<Rightarrow> int \<Rightarrow> int \<Rightarrow> int \<Rightarrow> int \<Rightarrow> int \<Rightarrow> int" where
  "time_value y mo d h mi s ms =
    days_from_civil y mo d * 86400000 + h * 3600000 + mi * 60000 + s * 1000 + ms"

definition iso_fields :: "string \<Rightarrow> int list option" where
  "iso_fields t =
    (let digits = (\<lambda>a n. take n (drop a t)) in
     if length t = 24 \<and> t ! 4 = CHR ''-'' \<and> t ! 7 = CHR ''-'' \<and> t ! 10 = CHR ''T'' \<and> t ! 13 = CHR '':''
        \<and> t ! 16 = CHR '':'' \<and> t ! 19 = CHR ''.'' \<and> t ! 23 = CHR ''Z''
        \<and> list_all (\<lambda>(a, n). list_all is_digit (digits a n)) [(0, 4), (5, 2), (8, 2), (11, 2), (14, 2), (17, 2), (20, 3)]
     then Some (map (\<lambda>(a, n). digits_val (digits a n)) [(0, 4), (5, 2), (8, 2), (11, 2), (14, 2), (17, 2), (20, 3)])
     else None)"

definition date_parse :: "env \<Rightarrow> string \<Rightarrow> jsnum" where
  "date_parse env t =
    (case iso_fields t of
       Some [y, mo, d, h, mi, s, ms] \<Rightarrow>
         if 1 \<le> mo \<and> mo \<le> 12 \<and> 1 \<le> d \<and> d \<le> days_in_month y mo \<and> h \<le> 23 \<and> mi \<le> 59 \<and> s \<le> 59
         then num_int (time_value y mo d h mi s ms) else NaN
     | _ \<Rightarrow> env_parse_date env t)"

text \<open>An environment for concrete runs.\<close>

definition example_env :: env where
  "example_env = \<lparr> env_local = (\<lambda>t. case t of Fin r \<Rightarrow> Date 2019 0 31 (\<lfloor>r / 3600000\<rfloor> mod 24) (\<lfloor>r / 60000\<rfloor> mod 60) | _ \<Rightarrow> InvalidDate),
     env_parse_date = (\<lambda>_. NaN), env_url = (\<lambda>_. None) \<rparr>"

end
