(* ===== verification/Utils.thy ===== *)
theory Utils
  imports Vdom JsDate
begin

text \<open>
  \<^verbatim>\<open>src/utils.js\<close>: the query and stage display functions, the sparkline histories, the plan
  node children, and the formatting and parsing functions all pages share.

  The query records follow the JSON the server sends (\<open>BasicQueryInfo\<close>, \<open>QueryInfo\<close>): a field the
  server may leave out is an option, a field it always sends is not.
\<close>

section \<open>Query data\<close>

record error_code =
  ec_name :: string
  ec_code :: jsnum

record session_info =
  s_user :: string
  s_principal :: "string option"
  s_source :: "string option"

record query_stats =
  createTime :: string
  elapsedTime :: string
  executionTime :: string
  totalCpuTime :: string
  totalDrivers :: jsnum
  queuedDrivers :: jsnum
  runningDrivers :: jsnum
  completedDrivers :: jsnum
  cumulativeUserMemory :: jsnum
  userMemoryReservation :: string
  peakUserMemoryReservation :: string
  fullyBlocked :: bool
  blockedReasons :: "string list"
  progressPercentage :: "jsnum option"

record query =
  queryId :: string
  session :: session_info
  resourceGroupId :: "string list option"
  q_state :: string
  memoryPool :: string
  scheduled :: bool
  q_query :: string
  queryStats :: query_stats
  errorType :: "string option"
  errorCode :: "error_code option"

section \<open>Query display\<close>

definition GLYPHICON_DEFAULT :: "(string \<times> string) list" where
  "GLYPHICON_DEFAULT = [(''color'', ''#1edcff'')]"

definition GLYPHICON_HIGHLIGHT :: "(string \<times> string) list" where
  "GLYPHICON_HIGHLIGHT = [(''color'', ''#999999'')]"

definition STATE_COLOR_MAP :: "(string \<times> string) list" where
  "STATE_COLOR_MAP =
    [(''QUEUED'', ''#1b8f72''),
     (''RUNNING'', ''#19874e''),
     (''PLANNING'', ''#674f98''),
     (''FINISHED'', ''#1a4629''),
     (''BLOCKED'', ''#61003b''),
     (''USER_ERROR'', ''#9a7d66''),
     (''CANCELED'', ''#858959''),
     (''INSUFFICIENT_RESOURCES'', ''#7f5b72''),
     (''EXTERNAL_ERROR'', ''#ca7640''),
     (''UNKNOWN_ERROR'', ''#943524'')]"

definition state_color :: "string \<Rightarrow> string" where
  "state_color k = the (map_of STATE_COLOR_MAP k)"

text \<open>\<open>query.errorCode.name\<close>: reading a field of a missing object throws.\<close>

definition errorCode_name :: "'a query_scheme \<Rightarrow> string throws" where
  "errorCode_name q = map_option ec_name (errorCode q)"

definition getQueryStateColor :: "'a query_scheme \<Rightarrow> string throws" where
  "getQueryStateColor q =
    (if q_state q = ''QUEUED'' then Some (state_color ''QUEUED'')
     else if q_state q = ''PLANNING'' then Some (state_color ''PLANNING'')
     else if q_state q \<in> {''STARTING'', ''FINISHING'', ''RUNNING''} then
       (if fullyBlocked (queryStats q) then Some (state_color ''BLOCKED'')
        else Some (state_color ''RUNNING''))
     else if q_state q = ''FAILED'' then
       (if errorType q = Some ''USER_ERROR'' then
          do { n \<leftarrow> errorCode_name q;
               Some (if n = ''USER_CANCELED'' then state_color ''CANCELED'' else state_color ''USER_ERROR'') }
        else if errorType q = Some ''EXTERNAL'' then Some (state_color ''EXTERNAL_ERROR'')
        else if errorType q = Some ''INSUFFICIENT_RESOURCES'' then Some (state_color ''INSUFFICIENT_RESOURCES'')
        else Some (state_color ''UNKNOWN_ERROR''))
     else if q_state q = ''FINISHED'' then Some (state_color ''FINISHED'')
     else Some (state_color ''QUEUED''))"

text \<open>The stage state and, when the stage has statistics, whether it is fully blocked.\<close>

definition getStageStateColor :: "string \<Rightarrow> bool option \<Rightarrow> string" where
  "getStageStateColor st blocked =
    (if st = ''PLANNED'' then state_color ''QUEUED''
     else if st \<in> {''SCHEDULING'', ''SCHEDULING_SPLITS'', ''SCHEDULED''} then state_color ''PLANNING''
     else if st = ''RUNNING'' then
       (if blocked = Some True then state_color ''BLOCKED'' else state_color ''RUNNING'')
     else if st = ''FINISHED'' then state_color ''FINISHED''
     else if st \<in> {''CANCELED'', ''ABORTED''} then state_color ''CANCELED''
     else if st = ''FAILED'' then state_color ''UNKNOWN_ERROR''
     else ''#b5b5b5'')"

definition runningTitle :: "'a query_scheme \<Rightarrow> string" where
  "runningTitle q =
    (let title = (if fullyBlocked (queryStats q)
                  then ''BLOCKED'' @ (if blockedReasons (queryStats q) \<noteq> []
                                      then '' ('' @ join '', '' (blockedReasons (queryStats q)) @ '')'' else [])
                  else ''RUNNING'')
     in if memoryPool q = ''reserved'' then title @ '' (RESERVED)'' else title)"

definition getHumanReadableState :: "'a query_scheme \<Rightarrow> string throws" where
  "getHumanReadableState q =
    (if q_state q = ''RUNNING'' \<and> scheduled q \<and> js_lt (Fin 0) (totalDrivers (queryStats q))
        \<and> js_le (Fin 0) (runningDrivers (queryStats q))
     then Some (runningTitle q)
     else if q_state q = ''FAILED'' \<and> errorType q = Some ''USER_ERROR'' then
       do { n \<leftarrow> errorCode_name q;
            Some (if n = ''USER_CANCELED'' then ''USER CANCELED'' else ''USER ERROR'') }
     else if q_state q = ''FAILED'' \<and> errorType q = Some ''INTERNAL_ERROR'' then Some ''INTERNAL ERROR''
     else if q_state q = ''FAILED'' \<and> errorType q = Some ''INSUFFICIENT_RESOURCES'' then Some ''INSUFFICIENT RESOURCES''
     else if q_state q = ''FAILED'' \<and> errorType q = Some ''EXTERNAL'' then Some ''EXTERNAL ERROR''
     else Some (q_state q))"

definition getProgressBarPercentage :: "'a query_scheme \<Rightarrow> jsnum" where
  "getProgressBarPercentage q =
    (case progressPercentage (queryStats q) of
       None \<Rightarrow> Fin 100
     | Some progress \<Rightarrow>
         if \<not> truthy_num progress \<or> q_state q \<noteq> ''RUNNING'' then Fin 100 else math_round progress)"

definition progress_known :: "'a query_scheme \<Rightarrow> bool" where
  "progress_known q \<longleftrightarrow> (case progressPercentage (queryStats q) of None \<Rightarrow> False | Some p \<Rightarrow> truthy_num p)"

definition getProgressBarTitle :: "'a query_scheme \<Rightarrow> string throws" where
  "getProgressBarTitle q =
    (if progress_known q \<and> q_state q = ''RUNNING''
     then do { s \<leftarrow> getHumanReadableState q;
               Some (s @ '' ('' @ num_to_string (getProgressBarPercentage q) @ ''%)'') }
     else getHumanReadableState q)"

definition isQueryEnded :: "'a query_scheme \<Rightarrow> bool" where
  "isQueryEnded q \<longleftrightarrow> - 1 < array_index_of [''FINISHED'', ''FAILED'', ''CANCELED''] (q_state q)"

section \<open>Sparkline histories\<close>

definition MAX_HISTORY :: int where
  "MAX_HISTORY = 60 * 5"

definition MOVING_AVERAGE_ALPHA :: jsnum where
  "MOVING_AVERAGE_ALPHA = fl (1/5)"

definition addToHistory :: "jv \<Rightarrow> jv list \<Rightarrow> jv list" where
  "addToHistory value valuesArray =
    (if length valuesArray = 0 then valuesArray @ [value]
     else drop (nat (max (int (length valuesArray) - MAX_HISTORY) 0)) (valuesArray @ [value]))"

definition movingAverage :: "jv \<Rightarrow> jv \<Rightarrow> jsnum" where
  "movingAverage value previous =
    (let average = js_add (js_mul (to_num value) MOVING_AVERAGE_ALPHA)
                          (js_mul (to_num previous) (js_sub (Fin 1) MOVING_AVERAGE_ALPHA))
     in if js_lt (to_num value) (Fin 1) then Fin 0 else average)"

definition addExponentiallyWeightedToHistory :: "jv \<Rightarrow> jv list \<Rightarrow> jv list" where
  "addExponentiallyWeightedToHistory value valuesArray =
    (if length valuesArray = 0 then valuesArray @ [value]
     else drop (nat (max (int (length valuesArray) - MAX_HISTORY) 0))
            (valuesArray @ [JNum (movingAverage value (last_num valuesArray))]))"

section \<open>Plan nodes\<close>

text \<open>
  A plan node as JSON: its \<open>@type\<close>, its id and the child fields the different node types use; a
  field that is not there is \<open>None\<close>.
\<close>

datatype plan_node = PlanNode
  (pn_type: string) (pn_id: string)
  (pn_source: "plan_node option") (pn_left: "plan_node option") (pn_right: "plan_node option")
  (pn_filteringSource: "plan_node option") (pn_probeSource: "plan_node option")
  (pn_indexSource: "plan_node option") (pn_sources: "plan_node list option")

text \<open>
  The children; an element \<open>None\<close> is the value \<open>undefined\<close> of a missing field, a result \<open>None\<close> the
  value \<open>undefined\<close> of a missing \<open>sources\<close>.
\<close>

definition getChildren :: "plan_node \<Rightarrow> plan_node option list option" where
  "getChildren n =
    (if pn_type n \<in> {''output'', ''explainAnalyze'', ''project'', ''filter'', ''aggregation'', ''sort'',
          ''markDistinct'', ''window'', ''rowNumber'', ''topnRowNumber'', ''limit'', ''distinctlimit'',
          ''topn'', ''sample'', ''tablewriter'', ''delete'', ''metadatadelete'', ''tablecommit'',
          ''groupid'', ''unnest'', ''scalar''} then Some [pn_source n]
     else if pn_type n = ''join'' then Some [pn_left n, pn_right n]
     else if pn_type n = ''semijoin'' then Some [pn_source n, pn_filteringSource n]
     else if pn_type n = ''spatialjoin'' then Some [pn_left n, pn_right n]
     else if pn_type n = ''indexjoin'' then Some [pn_probeSource n, pn_indexSource n]
     else if pn_type n \<in> {''union'', ''exchange''} then map_option (map Some) (pn_sources n)
     else Some [])"

section \<open>Utility functions\<close>

definition truncateString :: "string \<Rightarrow> int \<Rightarrow> string" where
  "truncateString inputString len =
    (if inputString \<noteq> [] \<and> len < int (length inputString)
     then substring inputString 0 len @ ''...'' else inputString)"

definition getTaskIdSuffix :: "string \<Rightarrow> string" where
  "getTaskIdSuffix taskId = str_slice taskId (index_of ''.'' taskId + 1) (int (length taskId))"

definition getStageNumber :: "string \<Rightarrow> jsnum" where
  "getStageNumber stageId = parse_int (str_slice stageId (index_of ''.'' stageId + 1) (int (length stageId)))"

definition getTaskNumber :: "string \<Rightarrow> jsnum" where
  "getTaskNumber taskId = parse_int (getTaskIdSuffix (getTaskIdSuffix taskId))"

definition getFirstParameter :: "string \<Rightarrow> string" where
  "getFirstParameter searchString =
    (let searchText = substring_from searchString 1
     in if index_of ''&'' searchText \<noteq> -1 then substring searchText 0 (index_of ''&'' searchText)
        else searchText)"

text \<open>
  The URL parser of the browser is a parameter: \<open>Some (hostname, port)\<close>, or \<open>None\<close> when
  \<open>new URL(url)\<close> throws.
\<close>

type_synonym url_parser = "string \<Rightarrow> (string \<times> string) option"

definition strip_brackets :: "string \<Rightarrow> string" where
  "strip_brackets hostname =
    (if hostname \<noteq> [] \<and> hd hostname = CHR ''['' \<and> last hostname = CHR '']''
     then take (length hostname - 2) (drop 1 hostname) else hostname)"

definition getHostname :: "url_parser \<Rightarrow> string \<Rightarrow> string throws" where
  "getHostname URL url = do { (hostname, port) \<leftarrow> URL url; Some (strip_brackets hostname) }"

definition getPort :: "url_parser \<Rightarrow> string \<Rightarrow> string throws" where
  "getPort URL url = do { (hostname, port) \<leftarrow> URL url; Some port }"

definition getHostAndPort :: "url_parser \<Rightarrow> string \<Rightarrow> string throws" where
  "getHostAndPort URL url = do { (hostname, port) \<leftarrow> URL url; Some (hostname @ '':'' @ port) }"

definition computeRate :: "jv \<Rightarrow> jv \<Rightarrow> jsnum" where
  "computeRate cnt ms =
    (if jv_eq_num ms (Fin 0) then Fin 0
     else js_mul (js_div (to_num cnt) (to_num ms)) (Fin 1000))"

text \<open>\<open>n.toFixed(f)\<close> throws when \<open>n\<close> is \<open>null\<close> or \<open>undefined\<close>.\<close>

fun jv_to_fixed :: "nat \<Rightarrow> jv \<Rightarrow> string throws" where
  "jv_to_fixed f (JNum x) = Some (to_fixed f x)"
| "jv_to_fixed f _ = None"

definition precisionRound :: "jv \<Rightarrow> string throws" where
  "precisionRound n =
    (if js_lt (to_num n) (Fin 10) then jv_to_fixed 2 n
     else if js_lt (to_num n) (Fin 100) then jv_to_fixed 1 n
     else Some (num_to_string (math_round (to_num n))))"

text \<open>One step \<open>if (unit === u && x > limit) { x /= by; unit = u'; }\<close> of the formatters.\<close>

definition step_gt :: "string option \<Rightarrow> rat \<Rightarrow> string \<Rightarrow> jv \<times> string \<Rightarrow> jv \<times> string" where
  "step_gt guard k u' = (\<lambda>(x, u).
    if (guard = None \<or> guard = Some u) \<and> js_lt (Fin k) (to_num x)
    then (JNum (js_div (to_num x) (Fin k)), u') else (x, u))"

definition step_ge :: "rat \<Rightarrow> string \<Rightarrow> jv \<times> string \<Rightarrow> jv \<times> string" where
  "step_ge k u' = (\<lambda>(x, u).
    if js_le (Fin k) (to_num x) then (JNum (js_div (to_num x) (Fin k)), u') else (x, u))"

definition scaleDuration :: "jv \<Rightarrow> jv \<times> string" where
  "scaleDuration duration =
    step_gt (Some ''d'') 7 ''w'' (step_gt (Some ''h'') 24 ''d'' (step_gt (Some ''m'') 60 ''h''
      (step_gt (Some ''s'') 60 ''m'' (step_gt None 1000 ''s'' (duration, ''ms'')))))"

definition formatDuration :: "jv \<Rightarrow> string throws" where
  "formatDuration duration =
    (let (d, u) = scaleDuration duration in do { s \<leftarrow> precisionRound d; Some (s @ u) })"

definition scaleCount :: "jv \<Rightarrow> jv \<times> string" where
  "scaleCount cnt =
    step_gt None 1000 ''Q'' (step_gt None 1000 ''T'' (step_gt None 1000 ''B''
      (step_gt None 1000 ''M'' (step_gt None 1000 ''K'' (cnt, [])))))"

definition formatCount :: "jv \<Rightarrow> string throws" where
  "formatCount cnt = (let (c, u) = scaleCount cnt in do { s \<leftarrow> precisionRound c; Some (s @ u) })"

definition formatRows :: "jv \<Rightarrow> string throws" where
  "formatRows cnt =
    (if jv_eq_num cnt (Fin 1) then Some ''1 row''
     else do { s \<leftarrow> formatCount cnt; Some (s @ '' rows'') })"

definition scaleDataSize :: "string \<Rightarrow> jv \<Rightarrow> jv \<times> string" where
  "scaleDataSize minUnit sz =
    step_ge 1024 (''P'' @ minUnit) (step_ge 1024 (''T'' @ minUnit) (step_ge 1024 (''G'' @ minUnit)
      (step_ge 1024 (''M'' @ minUnit) (step_ge 1024 (''K'' @ minUnit) (sz, minUnit)))))"

definition formatDataSizeMinUnit :: "jv \<Rightarrow> string \<Rightarrow> string throws" where
  "formatDataSizeMinUnit sz minUnit =
    (if jv_eq_num sz (Fin 0) then Some (''0'' @ minUnit)
     else let (s, u) = scaleDataSize minUnit sz in do { t \<leftarrow> precisionRound s; Some (t @ u) })"

definition formatDataSizeBytes :: "jv \<Rightarrow> string throws" where
  "formatDataSizeBytes sz = formatDataSizeMinUnit sz []"

definition formatDataSize :: "jv \<Rightarrow> string throws" where
  "formatDataSize sz = formatDataSizeMinUnit sz ''B''"

text \<open>
  The match of \<open>/^\s*(\d+(?:\.\d+)?)\s*([a-zA-Z]+)\s*$/\<close>: the integer digits and the fraction digits
  of the first group (no fraction digits when the fraction is absent) and the second group.
\<close>

definition match_fraction :: "string \<Rightarrow> string \<times> string" where
  "match_fraction s =
    (case s of [] \<Rightarrow> ([], s)
     | c # t \<Rightarrow> if c = CHR ''.'' \<and> takeWhile is_digit t \<noteq> []
                then (takeWhile is_digit t, dropWhile is_digit t) else ([], s))"

definition match_quantity :: "string \<Rightarrow> (string \<times> string \<times> string) option" where
  "match_quantity s =
    (let s1 = dropWhile is_ws s; ip = takeWhile is_digit s1; s2 = dropWhile is_digit s1;
         (fp, s3) = match_fraction s2; s4 = dropWhile is_ws s3;
         u = takeWhile is_alpha s4; s5 = dropWhile is_alpha s4
     in if ip \<noteq> [] \<and> u \<noteq> [] \<and> list_all is_ws s5 then Some (ip, fp, u) else None)"

definition parseDataSize :: "string \<Rightarrow> jv" where
  "parseDataSize value =
    (case match_quantity value of
       None \<Rightarrow> JNull
     | Some (ip, fp, u) \<Rightarrow>
         let number = parse_decimal ip fp
         in if u = ''B'' then JNum number
            else if u = ''kB'' then JNum (js_mul number (Fin (2 ^ 10)))
            else if u = ''MB'' then JNum (js_mul number (Fin (2 ^ 20)))
            else if u = ''GB'' then JNum (js_mul number (Fin (2 ^ 30)))
            else if u = ''TB'' then JNum (js_mul number (Fin (2 ^ 40)))
            else if u = ''PB'' then JNum (js_mul number (Fin (2 ^ 50)))
            else JNull)"

definition parseDuration :: "string \<Rightarrow> jv" where
  "parseDuration value =
    (case match_quantity value of
       None \<Rightarrow> JNull
     | Some (ip, fp, u) \<Rightarrow>
         let number = parse_decimal ip fp
         in if u = ''ns'' then JNum (js_div number (Fin 1000000))
            else if u = ''us'' then JNum (js_div number (Fin 1000))
            else if u = ''ms'' then JNum number
            else if u = ''s'' then JNum (js_mul number (Fin 1000))
            else if u = ''m'' then JNum (js_mul (js_mul number (Fin 1000)) (Fin 60))
            else if u = ''h'' then JNum (js_mul (js_mul (js_mul number (Fin 1000)) (Fin 60)) (Fin 60))
            else if u = ''d'' then JNum (js_mul (js_mul (js_mul (js_mul number (Fin 1000)) (Fin 60)) (Fin 60)) (Fin 24))
            else JNull)"

text \<open>The remainder \<open>%\<close> with the sign of the dividend.\<close>

fun js_rem :: "jsnum \<Rightarrow> jsnum \<Rightarrow> jsnum" where
  "js_rem (Fin a) (Fin b) =
     (if b = 0 then NaN else Fin (a - b * of_int (if 0 \<le> a / b then \<lfloor>a / b\<rfloor> else \<lceil>a / b\<rceil>)))"
| "js_rem (Fin a) PInf = Fin a"
| "js_rem (Fin a) NInf = Fin a"
| "js_rem _ _ = NaN"

definition formatShortTime :: "js_date \<Rightarrow> string" where
  "formatShortTime d =
    (let h = js_rem (date_get d_hours d) (Fin 12); hours = (if truthy_num h then h else Fin 12);
         minutes = (if js_lt (date_get d_minutes d) (Fin 10) then ''0'' else [])
                   @ num_to_string (date_get d_minutes d)
     in num_to_string hours @ '':'' @ minutes
        @ (if js_le (Fin 12) (date_get d_hours d) then ''pm'' else ''am''))"

text \<open>\<open>s[1] ? s : "0" + s[0]\<close>.\<close>

definition pad2 :: "string \<Rightarrow> string" where
  "pad2 s = (if 1 < length s then s else ''0'' @ take 1 s)"

definition formatShortDateTime :: "js_date \<Rightarrow> string" where
  "formatShortDateTime d =
    (let month = num_to_string (js_add (date_get d_month d) (Fin 1));
         dayOfMonth = num_to_string (date_get d_date d)
     in num_to_string (date_get d_year d) @ ''-'' @ pad2 month @ ''-'' @ pad2 dayOfMonth @ '' ''
        @ formatShortTime d)"

section \<open>Formatting returns: laws\<close>

text \<open>A number, or the \<open>undefined\<close> read beyond the end of an array, is always formatted.\<close>

lemma precisionRound_num [simp]: "\<exists>t. precisionRound (JNum x) = Some t"
  by (simp add: precisionRound_def)

lemma formatDataSizeMinUnit_num: "formatDataSizeMinUnit (JNum x) u \<noteq> None"
proof -
  have g: "\<exists>y v. step_ge k u' (JNum x, u) = (JNum y, v)" for k u' x u by (simp add: step_ge_def)
  have "\<exists>y v. scaleDataSize u (JNum x) = (JNum y, v)"
    unfolding scaleDataSize_def by (metis g)
  then show ?thesis by (auto simp: formatDataSizeMinUnit_def)
qed

lemma formatDataSize_num: "\<exists>t. formatDataSize (JNum x) = Some t" "\<exists>t. formatDataSizeBytes (JNum x) = Some t"
  using formatDataSizeMinUnit_num by (auto simp: formatDataSize_def formatDataSizeBytes_def)

lemma formatCount_num: "\<exists>t. formatCount (JNum x) = Some t"
proof -
  have g: "\<exists>y v. step_gt b k u' (JNum x, u) = (JNum y, v)" for b k u' x u by (simp add: step_gt_def)
  have "\<exists>y v. scaleCount (JNum x) = (JNum y, v)" unfolding scaleCount_def by (metis g)
  then show ?thesis by (auto simp: formatCount_def)
qed

lemma formatDuration_num: "\<exists>t. formatDuration (JNum x) = Some t"
proof -
  have g: "\<exists>y v. step_gt b k u' (JNum x, u) = (JNum y, v)" for b k u' x u by (simp add: step_gt_def)
  have "\<exists>y v. scaleDuration (JNum x) = (JNum y, v)" unfolding scaleDuration_def by (metis g)
  then show ?thesis by (auto simp: formatDuration_def)
qed

lemma format_undefined:
  "formatCount JUndefined = Some ''NaN''" "formatDataSize JUndefined = Some ''NaNB''" "formatDataSizeBytes JUndefined = Some ''NaN''"
  by code_simp+

section \<open>Query display: laws\<close>

text \<open>
  The server sends an error code with every error type; the display functions rely on it.
\<close>

definition error_consistent :: "'a query_scheme \<Rightarrow> bool" where
  "error_consistent q \<longleftrightarrow> (errorType q \<noteq> None \<longrightarrow> errorCode q \<noteq> None)"

lemma getHumanReadableState_throws:
  "getHumanReadableState q = None \<longleftrightarrow>
    q_state q = ''FAILED'' \<and> errorType q = Some ''USER_ERROR'' \<and> errorCode q = None"
  by (cases "errorCode q") (simp_all add: getHumanReadableState_def errorCode_name_def)

lemma getQueryStateColor_throws:
  "getQueryStateColor q = None \<longleftrightarrow>
    q_state q = ''FAILED'' \<and> errorType q = Some ''USER_ERROR'' \<and> errorCode q = None"
  by (cases "errorCode q") (simp_all add: getQueryStateColor_def errorCode_name_def)

lemma getProgressBarTitle_throws: "getProgressBarTitle q = None \<longleftrightarrow> getHumanReadableState q = None"
  by (auto simp: getProgressBarTitle_def)

lemma display_defined:
  assumes "error_consistent q"
  shows "getHumanReadableState q \<noteq> None" "getQueryStateColor q \<noteq> None" "getProgressBarTitle q \<noteq> None"
  using assms unfolding error_consistent_def getProgressBarTitle_throws getHumanReadableState_throws
    getQueryStateColor_throws by auto

lemma getProgressBarPercentage_range:
  assumes "\<And>p. progressPercentage (queryStats q) = Some p \<Longrightarrow> \<exists>r. p = Fin r \<and> 0 \<le> r \<and> r \<le> 100"
  shows "\<exists>n. getProgressBarPercentage q = num_int n \<and> 0 \<le> n \<and> n \<le> 100"
proof (cases "progressPercentage (queryStats q)")
  case None
  then show ?thesis by (intro exI[of _ 100]) (simp add: getProgressBarPercentage_def)
next
  case (Some p)
  then obtain r where r: "p = Fin r" "0 \<le> r" "r \<le> 100" using assms by blast
  then have "0 \<le> \<lfloor>r + 1/2\<rfloor>" "\<lfloor>r + 1/2\<rfloor> \<le> 100" by (auto simp: floor_le_iff)
  then show ?thesis using r Some
    by (cases "truthy_num p \<and> q_state q = ''RUNNING''")
      (auto simp: getProgressBarPercentage_def intro: exI[of _ "\<lfloor>r + 1/2\<rfloor>"] exI[of _ 100])
qed

lemma isQueryEnded_iff: "isQueryEnded q \<longleftrightarrow> q_state q \<in> {''FINISHED'', ''FAILED'', ''CANCELED''}"
  by (simp add: isQueryEnded_def)

section \<open>Sparkline histories: laws\<close>

lemma addToHistory_drop: "addToHistory v xs = drop (length xs - 300) (xs @ [v])"
proof -
  have "nat (max (int (length xs) - MAX_HISTORY) 0) = length xs - 300"
    by (simp add: MAX_HISTORY_def nat_diff_distrib' flip: nat_minus_as_int)
  then show ?thesis by (simp add: addToHistory_def)
qed

lemma addExponentiallyWeightedToHistory_drop:
  "xs \<noteq> [] \<Longrightarrow> addExponentiallyWeightedToHistory v xs =
     drop (length xs - 300) (xs @ [JNum (movingAverage v (last_num xs))])"
proof -
  assume "xs \<noteq> []"
  moreover have "nat (max (int (length xs) - MAX_HISTORY) 0) = length xs - 300"
    by (simp add: MAX_HISTORY_def)
  ultimately show ?thesis by (simp add: addExponentiallyWeightedToHistory_def)
qed

lemma addExponentiallyWeightedToHistory_Nil [simp]: "addExponentiallyWeightedToHistory v [] = [v]"
  by (simp add: addExponentiallyWeightedToHistory_def)

lemma length_addToHistory: "length (addToHistory v xs) = min (Suc (length xs)) 301"
  by (simp add: addToHistory_drop)

lemma last_addToHistory: "last_num (addToHistory v xs) = v"
  by (simp add: addToHistory_drop)

lemma length_addExponentiallyWeightedToHistory:
  "length (addExponentiallyWeightedToHistory v xs) = min (Suc (length xs)) 301"
  by (cases "xs = []") (simp_all add: addExponentiallyWeightedToHistory_drop)

text \<open>The last 301 elements.\<close>

definition window :: "'a list \<Rightarrow> 'a list" where
  "window xs = drop (length xs - 301) xs"

lemma window_Nil [simp]: "window [] = []"
  by (simp add: window_def)

lemma length_window: "length (window xs) = min (length xs) 301"
  by (simp add: window_def)

lemma addToHistory_Nil: "addToHistory v [] = window [v]"
  by (simp add: addToHistory_def window_def)

lemma addToHistory_window_snoc: "addToHistory v (window xs) = window (xs @ [v])"
proof -
  have "length xs - (length xs - 301 + 300) + (length xs - 301) = length xs - 300" by arith
  then show ?thesis by (simp add: addToHistory_drop window_def)
qed

text \<open>
  C34. The samples of a run of polls: the sparkline history holds exactly the last 301 samples, in the
  order they arrived, whatever the number of polls.
\<close>

theorem addToHistory_window: "foldl (\<lambda>h v. addToHistory v h) [] vs = window vs"
  by (induction vs rule: rev_induct) (simp_all add: addToHistory_window_snoc)

text \<open>Non-negative samples give a non-negative history.\<close>

fun nonneg_jv :: "jv \<Rightarrow> bool" where
  "nonneg_jv (JNum x) = js_le (Fin 0) x"
| "nonneg_jv _ = False"

lemma fl_nonneg: "0 \<le> x \<Longrightarrow> js_le (Fin 0) (fl x)"
  using rnd_nonneg[of x] by (auto simp: fl_def Let_def js_le_def)

lemma js_le_0_add: "js_le (Fin 0) x \<Longrightarrow> js_le (Fin 0) y \<Longrightarrow> js_le (Fin 0) (js_add x y)"
proof (cases x; cases y)
  fix a b
  assume "js_le (Fin 0) x" "js_le (Fin 0) y" "x = Fin a" "y = Fin b"
  then show ?thesis using fl_nonneg[of "a + b"] by (auto simp: js_le_def)
qed (auto simp: js_le_def)

lemma js_le_0_mul: "js_le (Fin 0) x \<Longrightarrow> 0 < c \<Longrightarrow> js_le (Fin 0) (js_mul x (Fin c))"
proof (cases x)
  fix a
  assume "js_le (Fin 0) x" "0 < c" "x = Fin a"
  then show ?thesis using fl_nonneg[of "a * c"] by (auto simp: js_le_def)
qed (auto simp: js_le_def inf_sgn_def)

lemma alpha_weights:
  "MOVING_AVERAGE_ALPHA = Fin (3602879701896397 / 18014398509481984)"
  "js_sub (Fin 1) (Fin (3602879701896397 / 18014398509481984)) = Fin (3602879701896397 / 4503599627370496)"
  by code_simp+

lemma movingAverage_nonneg:
  "nonneg_jv v \<Longrightarrow> nonneg_jv p \<Longrightarrow> js_le (Fin 0) (movingAverage v p)"
proof (cases v; cases p)
  fix x y
  assume "nonneg_jv v" "nonneg_jv p" "v = JNum x" "p = JNum y"
  then show ?thesis
    by (auto simp: movingAverage_def Let_def alpha_weights js_le_def[of "Fin 0" "Fin 0"]
        intro!: js_le_0_add js_le_0_mul simp del: js_add.simps js_mul.simps)
qed auto

lemma last_num_nonempty: "xs \<noteq> [] \<Longrightarrow> last_num xs = last xs"
  by (cases xs rule: rev_cases) simp_all

lemma addExponentiallyWeightedToHistory_nonneg:
  assumes "nonneg_jv v" "list_all nonneg_jv xs"
  shows "list_all nonneg_jv (addExponentiallyWeightedToHistory v xs)"
proof (cases "xs = []")
  case False
  then have "nonneg_jv (last_num xs)" using assms(2) by (simp add: last_num_nonempty list_all_iff)
  then have "js_le (Fin 0) (movingAverage v (last_num xs))" using assms(1) by (intro movingAverage_nonneg)
  then show ?thesis using False assms
    by (auto simp: addExponentiallyWeightedToHistory_drop list_all_iff dest: in_set_dropD)
qed (use assms in simp)

lemma ewma_fold:
  "list_all nonneg_jv vs \<Longrightarrow> list_all nonneg_jv h \<Longrightarrow>
    list_all nonneg_jv (foldl (\<lambda>h v. addExponentiallyWeightedToHistory v h) h vs)"
  by (induction vs arbitrary: h) (simp_all add: addExponentiallyWeightedToHistory_nonneg)

lemma length_ewma_fold:
  "length (foldl (\<lambda>h v. addExponentiallyWeightedToHistory v h) [] vs) = min (length vs) 301"
  by (induction vs rule: rev_induct) (simp_all add: length_addExponentiallyWeightedToHistory)

text \<open>
  The smoothed history: fed with non-negative samples it never shows a negative value nor
  \<open>NaN\<close>, and it keeps at most 301 points.
\<close>

theorem addExponentiallyWeightedToHistory_run:
  assumes "list_all nonneg_jv vs"
  shows "list_all nonneg_jv (foldl (\<lambda>h v. addExponentiallyWeightedToHistory v h) [] vs)
    \<and> length (foldl (\<lambda>h v. addExponentiallyWeightedToHistory v h) [] vs) = min (length vs) 301"
  using ewma_fold[OF assms, of "[]"] length_ewma_fold by simp

theorem addExponentiallyWeightedToHistory_run_witness:
  "list_all nonneg_jv [JNum (Fin 5), JNum (Fin 0), JNum (Fin (1/2))] \<and>
   length (foldl (\<lambda>h v. addExponentiallyWeightedToHistory v h) [] [JNum (Fin 5), JNum (Fin 0), JNum (Fin (1/2))]) = 3"
proof
  show "list_all nonneg_jv [JNum (Fin 5), JNum (Fin 0), JNum (Fin (1/2))]" by code_simp
  then show "length (foldl (\<lambda>h v. addExponentiallyWeightedToHistory v h) [] [JNum (Fin 5), JNum (Fin 0), JNum (Fin (1/2))]) = 3"
    using addExponentiallyWeightedToHistory_run[of "[JNum (Fin 5), JNum (Fin 0), JNum (Fin (1/2))]"] by simp
qed

text \<open>
  The three display functions of a query return for every query except one kind: a failed
  query with a user error and no error code, on which each of them throws.
\<close>

theorem display_throws_iff:
  "(getHumanReadableState q = None \<longleftrightarrow> q_state q = ''FAILED'' \<and> errorType q = Some ''USER_ERROR'' \<and> errorCode q = None)
   \<and> (getQueryStateColor q = None \<longleftrightarrow> q_state q = ''FAILED'' \<and> errorType q = Some ''USER_ERROR'' \<and> errorCode q = None)
   \<and> (getProgressBarTitle q = None \<longleftrightarrow> q_state q = ''FAILED'' \<and> errorType q = Some ''USER_ERROR'' \<and> errorCode q = None)"
  by (simp only: getProgressBarTitle_throws getHumanReadableState_throws getQueryStateColor_throws simp_thms)

end
