(* ===== verification/QueryListItem.thy ===== *)
theory QueryListItem
  imports Utils
begin

text \<open>
  \<^verbatim>\<open>src/components/QueryList.jsx\<close>, the classes \<open>QueryListItem\<close> and \<open>DisplayedQueriesList\<close>: the
  box of one query in the list, with the query text stripped of its common indentation.
\<close>

text \<open>The first loop: the least indentation of the lines that are not blank, \<open>-1\<close> when there is none.\<close>

fun min_leading_ws :: "string list \<Rightarrow> int \<Rightarrow> int" where
  "min_leading_ws [] m = m"
| "min_leading_ws (line # ls) m =
    (if m = 0 then m
     else if length (trim line) = 0 then min_leading_ws ls m
     else let w = search_nonws line
          in min_leading_ws ls (if - 1 < w \<and> (w < m \<or> m = - 1) then w else m))"

text \<open>The second loop: the lines without the indentation and the trailing white space.\<close>

fun append_lines :: "int \<Rightarrow> nat \<Rightarrow> nat \<Rightarrow> string list \<Rightarrow> string \<Rightarrow> string" where
  "append_lines m n i [] acc = acc"
| "append_lines m n i (line # ls) acc =
    (let trimmedLine = trim_end (substring_from line m)
     in append_lines m n (Suc i) ls
          (if 0 < length trimmedLine
           then acc @ trimmedLine @ (if i < n - 1 then [CHR 10] else []) else acc))"

definition stripQueryTextWhitespace :: "string \<Rightarrow> string" where
  "stripQueryTextWhitespace queryText =
    (let ls = split_char (CHR 10) queryText
     in truncateString (append_lines (min_leading_ws ls (- 1)) (length ls) 0 ls []) 300)"

text \<open>A statistic with its icon and tooltip.\<close>

definition tinystat :: "string \<Rightarrow> string \<Rightarrow> ('h, 'c) vnode \<Rightarrow> ('h, 'c) vnode" where
  "tinystat title icon v =
    Elem ''span'' [className ''tinystat'', attr ''data-toggle'' ''tooltip'', attr ''data-placement'' ''top'', attr ''title'' title]
      [Elem ''span'' [className (''glyphicon '' @ icon), style_attr GLYPHICON_HIGHLIGHT] [], Text (nbsp @ nbsp), v]"

definition splitDetails :: "'a query_scheme \<Rightarrow> ('h, 'c) vnode" where
  "splitDetails q =
    (let stats = queryStats q; over = (q_state q = ''FINISHED'' \<or> q_state q = ''FAILED'')
     in divc ''col-xs-12 tinystat-row''
       [tinystat ''Completed splits'' ''glyphicon-ok'' (Number (JNum (completedDrivers stats))),
        tinystat ''Running splits'' ''glyphicon-play'' (Number (JNum (if over then Fin 0 else runningDrivers stats))),
        tinystat ''Queued splits'' ''glyphicon-pause'' (Number (JNum (if over then Fin 0 else queuedDrivers stats)))])"

definition timingDetails :: "'a query_scheme \<Rightarrow> ('h, 'c) vnode" where
  "timingDetails q =
    (let stats = queryStats q
     in divc ''col-xs-12 tinystat-row''
       [tinystat ''Wall time spent executing the query (not including queued time)'' ''glyphicon-hourglass''
          (Text (executionTime stats)),
        tinystat ''Total query wall time'' ''glyphicon-time'' (Text (elapsedTime stats)),
        tinystat ''CPU time spent by this query'' ''glyphicon-dashboard'' (Text (totalCpuTime stats))])"

definition memoryDetails :: "'a query_scheme \<Rightarrow> ('h, 'c) vnode throws" where
  "memoryDetails q =
    (let stats = queryStats q
     in do {
       cumulative \<leftarrow> formatDataSizeBytes (JNum (js_div (cumulativeUserMemory stats) (Fin 1000)));
       Some (divc ''col-xs-12 tinystat-row''
         [tinystat ''Current reserved memory'' ''glyphicon-scale'' (Text (userMemoryReservation stats)),
          tinystat ''Peak memory'' ''glyphicon-fire'' (Text (peakUserMemoryReservation stats)),
          tinystat ''Cumulative user memory'' ''glyphicon-equalizer'' (Text cumulative)]) })"

definition has_text :: "string option \<Rightarrow> bool" where
  "has_text x \<longleftrightarrow> (case x of None \<Rightarrow> False | Some s \<Rightarrow> s \<noteq> [])"

definition user_node :: "'a query_scheme \<Rightarrow> ('h, 'c) vnode" where
  "user_node q =
    (if has_text (s_principal (session q))
     then el ''span'' [Text (s_user (session q)),
            Elem ''span'' [className ''glyphicon glyphicon-lock-inverse'', style_attr GLYPHICON_DEFAULT] []]
     else el ''span'' [Text (s_user (session q))])"

text \<open>A labelled row of the left column.\<close>

definition stat_row :: "string \<Rightarrow> string \<Rightarrow> ('h, 'c) vnode \<Rightarrow> ('h, 'c) vnode" where
  "stat_row title icon v =
    divc ''row stat-row''
      [divc ''col-xs-12''
        [Elem ''span'' [attr ''data-toggle'' ''tooltip'', attr ''data-placement'' ''right'', attr ''title'' title]
          [Elem ''span'' [className (''glyphicon '' @ icon), style_attr GLYPHICON_DEFAULT] [],
           Text (nbsp @ nbsp), el ''span'' [v]]]]"

definition progress_style :: "'a query_scheme \<Rightarrow> (string \<times> string) list throws" where
  "progress_style q =
    do { color \<leftarrow> getQueryStateColor q;
         Some [(''width'', num_to_string (getProgressBarPercentage q) @ ''%''), (''backgroundColor'', color)] }"

definition progress_bar :: "'a query_scheme \<Rightarrow> ('h, 'c) vnode throws" where
  "progress_bar q =
    do { progressBarStyle \<leftarrow> progress_style q; title \<leftarrow> getProgressBarTitle q;
         Some (Elem ''div''
           [className ''progress-bar progress-bar-info'', attr ''role'' ''progressbar'',
            (''aria-valuenow'', ANum (getProgressBarPercentage q)), attr ''aria-valuemin'' ''0'',
            attr ''aria-valuemax'' ''100'', style_attr progressBarStyle] [Text title]) }"

text \<open>
  \<open>truncateString(user, 35)\<close> receives a React element, which has no \<open>length\<close>, and returns it.
\<close>

definition QueryListItem_render :: "env \<Rightarrow> 'a query_scheme \<Rightarrow> ('h, 'c) vnode throws" where
  "QueryListItem_render env q =
    do {
      memory \<leftarrow> memoryDetails q;
      bar \<leftarrow> progress_bar q;
      Some (divc ''query''
        [divc ''row''
          [divc ''col-xs-4''
            [divc ''row stat-row query-header query-header-queryid''
              [Elem ''div'' [className ''col-xs-9'', attr ''data-toggle'' ''tooltip'', attr ''data-placement'' ''bottom'', attr ''title'' ''Query ID'']
                [Elem ''a'' [attr ''href'' (''query.html?'' @ queryId q), attr ''target'' ''_blank''] [Text (queryId q)]],
               Elem ''div'' [className ''col-xs-3 query-header-timestamp'', attr ''data-toggle'' ''tooltip'', attr ''data-placement'' ''bottom'', attr ''title'' ''Submit time'']
                [el ''span'' [Text (formatShortTime (env_local env (date_parse env (createTime (queryStats q)))))]]],
             stat_row ''User'' ''glyphicon-user'' (user_node q),
             stat_row ''Source'' ''glyphicon-log-in''
               (text_opt (map_option (\<lambda>s. truncateString s 35) (s_source (session q)))),
             stat_row ''Resource Group'' ''glyphicon-road''
               (Text (truncateString (case resourceGroupId q of None \<Rightarrow> ''n/a'' | Some g \<Rightarrow> join ''.'' g) 35)),
             divc ''row stat-row'' [splitDetails q],
             divc ''row stat-row'' [timingDetails q],
             divc ''row stat-row'' [memory]],
           divc ''col-xs-8''
            [divc ''row query-header''
              [divc ''col-xs-12 query-progress-container'' [divc ''progress'' [bar]]],
             divc ''row query-row-bottom''
              [divc ''col-xs-12''
                [elc ''pre'' ''query-snippet''
                  [elc ''code'' ''sql'' [Text (stripQueryTextWhitespace (q_query q))]]]]]]]) }"

definition DisplayedQueriesList_render :: "env \<Rightarrow> 'a query_scheme list \<Rightarrow> ('h, 'c) vnode throws" where
  "DisplayedQueriesList_render env queries =
    do { queryNodes \<leftarrow> mapM (QueryListItem_render env) queries; Some (el ''div'' [Fragment queryNodes]) }"

text \<open>A query for concrete runs.\<close>

definition example_query :: "string \<Rightarrow> string \<Rightarrow> string \<Rightarrow> query" where
  "example_query qid st created =
    \<lparr> queryId = qid, session = \<lparr> s_user = ''alice'', s_principal = None, s_source = Some ''cli'' \<rparr>,
      resourceGroupId = Some [''global''], q_state = st, memoryPool = ''general'', scheduled = True, q_query = ''SELECT 1'',
      queryStats = \<lparr> createTime = created, elapsedTime = ''1.50m'', executionTime = ''1.20m'', totalCpuTime = ''3.00s'',
        totalDrivers = Fin 10, queuedDrivers = Fin 2, runningDrivers = Fin 3, completedDrivers = Fin 5,
        cumulativeUserMemory = Fin 1000000, userMemoryReservation = ''16MB'', peakUserMemoryReservation = ''20MB'',
        fullyBlocked = False, blockedReasons = [], progressPercentage = Some (Fin 50) \<rparr>,
      errorType = None, errorCode = None \<rparr>"

section \<open>Laws\<close>

text \<open>Every line that is not blank is indented at least by the minimum found.\<close>

lemma min_leading_ws_le:
  assumes "- 1 \<le> m"
  shows "- 1 \<le> min_leading_ws ls m \<and> (m \<noteq> - 1 \<longrightarrow> 0 \<le> min_leading_ws ls m \<and> min_leading_ws ls m \<le> m)
    \<and> (\<forall>line \<in> set ls. \<not> list_all is_ws line \<longrightarrow> 0 \<le> min_leading_ws ls m \<and> min_leading_ws ls m \<le> search_nonws line)"
  using assms
proof (induction ls arbitrary: m)
  case (Cons x ls)
  have ge: "0 \<le> search_nonws l" if "\<not> list_all is_ws l" for l using that by (simp add: search_nonws_eq)
  consider "m = 0" | "m \<noteq> 0" "list_all is_ws x" | "m \<noteq> 0" "\<not> list_all is_ws x" by blast
  then show ?case
  proof cases
    case 1
    then show ?thesis using ge by auto
  next
    case 2
    then show ?thesis using Cons by (auto simp: trim_empty)
  next
    case 3
    define m' where "m' = (if - 1 < search_nonws x \<and> (search_nonws x < m \<or> m = - 1) then search_nonws x else m)"
    have e: "min_leading_ws (x # ls) m = min_leading_ws ls m'" using 3 by (simp add: trim_empty Let_def m'_def)
    have m': "0 \<le> m'" "m' \<le> search_nonws x" "m \<noteq> - 1 \<longrightarrow> m' \<le> m"
      using ge[OF 3(2)] Cons.prems by (auto simp: m'_def)
    then show ?thesis using Cons.IH[of m'] unfolding e by auto
  qed
qed simp

text \<open>The characters that are not white space.\<close>

definition ink :: "string \<Rightarrow> string" where
  "ink s = filter (\<lambda>c. \<not> is_ws c) s"

lemma ink_Nil [simp]: "ink [] = []"
  by (simp add: ink_def)

lemma ink_append [simp]: "ink (s @ t) = ink s @ ink t"
  by (simp add: ink_def)

lemma ink_ws: "list_all is_ws s \<Longrightarrow> ink s = []"
  by (simp add: ink_def list_all_iff filter_empty_conv)

lemma ink_trim_end [simp]: "ink (trim_end s) = ink s"
  using trim_end_suffix[of s] ink_ws by (metis append_Nil2 ink_append)

lemma ink_dedent:
  assumes "- 1 \<le> m" "\<not> list_all is_ws line \<longrightarrow> m \<le> search_nonws line"
  shows "ink (substring_from line m) = ink line"
proof (cases "m \<le> 0")
  case False
  then have d: "substring_from line m = drop (nat m) line" by (simp add: substring_from_nonneg)
  have "list_all is_ws (take (nat m) line)"
  proof (cases "list_all is_ws line")
    case True
    then show ?thesis by (auto simp: list_all_iff dest: in_set_takeD)
  next
    case False
    then have "nat m \<le> length (takeWhile is_ws line)" using assms by (simp add: search_nonws_eq)
    then have "take (nat m) line = take (nat m) (takeWhile is_ws line)"
      by (metis append_take_drop_id le_add_diff_inverse take_add takeWhile_dropWhile_id take_append take_all_iff append_Nil2 diff_is_0_eq take_0)
    then show ?thesis by (auto simp: list_all_iff dest: in_set_takeD set_takeWhileD)
  qed
  then show ?thesis using ink_ws ink_append[of "take (nat m) line" "drop (nat m) line"] by (simp add: d)
qed (simp add: substring_from_neg)

lemma ink_append_lines:
  assumes "- 1 \<le> m" "\<forall>line \<in> set ls. \<not> list_all is_ws line \<longrightarrow> m \<le> search_nonws line"
  shows "ink (append_lines m n i ls acc) = ink acc @ concat (map ink ls)"
  using assms(2)
proof (induction ls arbitrary: i acc)
  case (Cons l ls)
  have l: "ink (substring_from l m) = ink l" using Cons.prems assms(1) by (intro ink_dedent) auto
  have nl: "ink [CHR 10] = []" by (simp add: ink_def is_ws_def)
  show ?case
  proof (cases "trim_end (substring_from l m) = []")
    case True
    then have "ink l = []" using l ink_trim_end[of "substring_from l m"] by (simp add: ink_def)
    then show ?thesis using Cons True by (simp add: Let_def)
  next
    case False
    then show ?thesis using Cons l nl by (simp add: Let_def)
  qed
qed simp

lemma ink_lines: "concat (map ink (split_char (CHR 10) s)) = ink s"
proof (induction s)
  case (Cons x s)
  then show ?case
    by (cases "split_char (CHR 10) s") (auto simp: ink_def is_ws_def)
qed (simp add: ink_def)

text \<open>
  Stripping a query text of its indentation loses no visible character: the stripped text has
  the same characters that are not white space, in the same order; when it is longer than 300
  characters it is cut there.
\<close>

theorem stripQueryTextWhitespace_ink:
  "\<exists>t. ink t = ink s \<and> stripQueryTextWhitespace s = (if length t \<le> 300 then t else take 300 t @ ''...'')"
proof -
  define ls where "ls = split_char (CHR 10) s"
  define t where "t = append_lines (min_leading_ws ls (- 1)) (length ls) 0 ls []"
  have "ink t = concat (map ink ls)"
    unfolding t_def using ink_append_lines[of "min_leading_ws ls (- 1)" ls] min_leading_ws_le[of "- 1" ls]
    by (simp add: ink_def[of "[]"])
  then have "ink t = ink s" by (simp add: ls_def ink_lines)
  moreover have "stripQueryTextWhitespace s = (if length t \<le> 300 then t else take 300 t @ ''...'')"
    unfolding stripQueryTextWhitespace_def Let_def ls_def[symmetric] t_def[symmetric]
    by (auto simp: truncateString_def substring_0)
  ultimately show ?thesis by blast
qed

text \<open>The item of a query with a consistent error renders.\<close>

lemma QueryListItem_render_defined:
  "error_consistent q \<Longrightarrow> QueryListItem_render env q \<noteq> None"
  using display_defined[of q] formatDataSizeMinUnit_num
  by (auto simp: QueryListItem_render_def memoryDetails_def progress_bar_def progress_style_def
      formatDataSizeBytes_def Let_def)

end
