(* ===== verification/Polling.thy ===== *)
theory Polling
  imports Prelude
begin

text \<open>
  Timers and the refresh loop the polling components share.

  A \<open>timer\<close> is an instance variable such as \<open>this.timeoutId\<close> together with the timeouts armed
  through it that have neither fired nor been cleared.  Every polling component follows one
  protocol: \<open>refreshLoop\<close> clears the timer and sends a request, the response handlers call
  \<open>resetTimer\<close>, which clears the timer and arms it again.  The locale \<open>polled\<close> states that
  protocol; what it gives is that one series of refreshes is going on, never two and never none.
\<close>

record timer =
  t_next :: nat
  t_armed :: "(nat \<times> int) list"
  t_id :: "nat option"

definition no_timer :: timer where
  "no_timer = \<lparr> t_next = 0, t_armed = [], t_id = None \<rparr>"

text \<open>\<open>clearTimeout(this.timeoutId)\<close>; clearing \<open>undefined\<close> or an old id does nothing.\<close>

definition clearTimeout :: "timer \<Rightarrow> timer" where
  "clearTimeout t = t\<lparr> t_armed := filter (\<lambda>(i, d). t_id t \<noteq> Some i) (t_armed t) \<rparr>"

text \<open>\<open>this.timeoutId = setTimeout(callback, delay)\<close>.\<close>

definition setTimeout :: "int \<Rightarrow> timer \<Rightarrow> timer" where
  "setTimeout delay t =
    t\<lparr> t_next := Suc (t_next t), t_armed := t_armed t @ [(t_next t, delay)], t_id := Some (t_next t) \<rparr>"

text \<open>The event loop takes an armed timeout to run its callback.\<close>

definition fireTimeout :: "nat \<Rightarrow> timer \<Rightarrow> timer option" where
  "fireTimeout i t =
    (if i \<in> fst ` set (t_armed t)
     then Some (t\<lparr> t_armed := filter (\<lambda>(j, d). j \<noteq> i) (t_armed t) \<rparr>) else None)"

text \<open>The runs of a component: a sequence of events, each of them enabled where it happens.\<close>

primrec exec_all :: "('e \<Rightarrow> 's \<Rightarrow> 's option) \<Rightarrow> 'e list \<Rightarrow> 's \<Rightarrow> 's option" where
  "exec_all exec [] s = Some s"
| "exec_all exec (e # es) s = do { s' \<leftarrow> exec e s; exec_all exec es s' }"

text \<open>What an event means for the refresh loop.\<close>

datatype poll_kind = Quiet | Fires nat | Answers

text \<open>
  The timeouts of a timer are at most the one its variable names; one series of refreshes is a
  request on its way or a timeout armed, not both, and nothing once polling is over.
\<close>

definition timer_ok :: "timer \<Rightarrow> bool" where
  "timer_ok t \<longleftrightarrow> t_armed t = [] \<or> (\<exists>i d. t_armed t = [(i, d)] \<and> t_id t = Some i)"

definition one_series :: "timer \<Rightarrow> nat \<Rightarrow> bool \<Rightarrow> bool" where
  "one_series t requests polling \<longleftrightarrow>
     timer_ok t \<and> requests + length (t_armed t) = (if polling then 1 else 0)"

text \<open>
  The refresh loop as an abstract machine.  A component is asking while a request is on its way, waiting
  while a timeout is armed, and has stopped otherwise; the machine moves with the events of the component.
\<close>

datatype phase = Asking | Waiting | Stopped

definition phase_of :: "timer \<Rightarrow> nat \<Rightarrow> phase" where
  "phase_of t requests = (if 0 < requests then Asking else if t_armed t \<noteq> [] then Waiting else Stopped)"

inductive poll_step :: "poll_kind \<Rightarrow> phase \<Rightarrow> phase \<Rightarrow> bool" where
  quiet: "poll_step Quiet p p"
| fire: "poll_step (Fires i) Waiting Asking"
| go_on: "poll_step Answers Asking Waiting"
| finish: "poll_step Answers Asking Stopped"

inductive_simps poll_step_Quiet [simp]: "poll_step Quiet p p'"
inductive_simps poll_step_Fires [simp]: "poll_step (Fires i) p p'"
inductive_simps poll_step_Answers [simp]: "poll_step Answers p p'"

inductive poll_run :: "poll_kind list \<Rightarrow> phase \<Rightarrow> phase \<Rightarrow> bool" where
  nothing: "poll_run [] p p"
| more: "poll_step k p p' \<Longrightarrow> poll_run ks p' p'' \<Longrightarrow> poll_run (k # ks) p p''"

inductive_cases poll_run_ConsE: "poll_run (k # ks) p p'"

text \<open>The states a component reaches.\<close>

inductive reaches :: "('e \<Rightarrow> 's \<Rightarrow> 's option) \<Rightarrow> 's \<Rightarrow> 's \<Rightarrow> bool" for exec s0 where
  start: "reaches exec s0 s0"
| step: "reaches exec s0 s \<Longrightarrow> exec e s = Some s' \<Longrightarrow> reaches exec s0 s'"

section \<open>Laws of timers\<close>

lemma timer_ok_no_timer [simp]: "timer_ok no_timer"
  by (simp add: timer_ok_def no_timer_def)

lemma armed_no_timer [simp]: "t_armed no_timer = []"
  by (simp add: no_timer_def)

lemma clearTimeout_armed [simp]: "timer_ok t \<Longrightarrow> t_armed (clearTimeout t) = []"
  by (auto simp: timer_ok_def clearTimeout_def)

lemma timer_ok_clearTimeout [simp]: "timer_ok t \<Longrightarrow> timer_ok (clearTimeout t)"
  by (simp add: timer_ok_def)

lemma setTimeout_armed [simp]: "t_armed (setTimeout d t) = t_armed t @ [(t_next t, d)]"
  by (simp add: setTimeout_def)

lemma timer_ok_reset [simp]: "timer_ok t \<Longrightarrow> timer_ok (setTimeout d (clearTimeout t))"
  using clearTimeout_armed[of t] by (simp add: timer_ok_def[of "setTimeout d (clearTimeout t)"])
    (simp add: setTimeout_def)

lemma fireTimeout_ok:
  assumes "timer_ok t" "fireTimeout i t = Some t'"
  shows "length (t_armed t) = 1" "t_armed t' = []" "timer_ok t'"
  using assms by (auto simp: timer_ok_def fireTimeout_def split: if_splits)

lemma fireTimeout_enabled: "t_armed t \<noteq> [] \<Longrightarrow> \<exists>i. fireTimeout i t \<noteq> None"
  by (cases "t_armed t") (auto simp: fireTimeout_def)

lemma exec_all_append: "exec_all exec (es @ fs) s = exec_all exec es s \<bind> exec_all exec fs"
  by (induction es arbitrary: s) (auto split: bind_splits)

lemma exec_all_invariant:
  assumes "exec_all exec es s = Some s'" "list_all ok es" "I s"
    and "\<And>e s s'. I s \<Longrightarrow> ok e \<Longrightarrow> exec e s = Some s' \<Longrightarrow> I s'"
  shows "I s'"
  using assms by (induction es arbitrary: s) auto

lemma exec_all_ok:
  assumes "exec_all exec es s = Some s'" "\<And>e s s'. exec e s = Some s' \<Longrightarrow> ok e"
  shows "list_all ok es"
  using assms(1) by (induction es arbitrary: s) (auto dest: assms(2))

lemma reaches_run: "reaches exec s s' \<longleftrightarrow> (\<exists>es. exec_all exec es s = Some s')"
proof
  show "reaches exec s s' \<Longrightarrow> \<exists>es. exec_all exec es s = Some s'"
  proof (induction rule: reaches.induct)
    case start
    show ?case by (rule exI[of _ "[]"]) simp
  next
    case (step s1 e s2)
    then obtain es where "exec_all exec es s = Some s1" by blast
    then have "exec_all exec (es @ [e]) s = Some s2" using step by (simp add: exec_all_append)
    then show ?case by blast
  qed
next
  have "reaches exec s0 s \<Longrightarrow> exec_all exec es s = Some s' \<Longrightarrow> reaches exec s0 s'" for es s0 s
    by (induction es arbitrary: s) (auto intro: reaches.step split: bind_splits)
  then show "\<exists>es. exec_all exec es s = Some s' \<Longrightarrow> reaches exec s s'" using reaches.start by metis
qed

section \<open>The abstract machine\<close>

text \<open>
  In a run of the machine the requests and their answers take turns: beginning with an answer when it is
  asking, with a timeout when it is waiting, and with nothing once it has stopped.
\<close>

fun takes_turns :: "phase \<Rightarrow> poll_kind list \<Rightarrow> bool" where
  "takes_turns p [] \<longleftrightarrow> True"
| "takes_turns p (Quiet # ks) \<longleftrightarrow> takes_turns p ks"
| "takes_turns p (Fires i # ks) \<longleftrightarrow> p = Waiting \<and> takes_turns Asking ks"
| "takes_turns p (Answers # ks) \<longleftrightarrow> p = Asking \<and> (takes_turns Waiting ks \<or> takes_turns Stopped ks)"

lemma poll_run_turns: "poll_run ks p p' \<Longrightarrow> takes_turns p ks"
proof (induction rule: poll_run.induct)
  case (more k p p' ks p'')
  then show ?case by (cases k) auto
qed simp

lemma poll_run_Stopped: "poll_run ks Stopped p \<Longrightarrow> p = Stopped \<and> (\<forall>k \<in> set ks. k = Quiet)"
proof (induction ks Stopped p rule: poll_run.induct)
  case (more k p' ks p'')
  then show ?case by (cases k) auto
qed simp

section \<open>The refresh protocol\<close>

text \<open>
  The contract of a polling component.  Its events are classified by \<open>kind\<close>: \<open>Fires i\<close> is the
  refresh timeout \<open>i\<close> going off, \<open>Answers\<close> the end of a refresh request, and \<open>Quiet\<close> everything
  else (clicks, other timers, other requests).  \<open>ok\<close> singles out the events whose handlers run to
  their end; \<open>polling\<close> is the condition under which \<open>resetTimer\<close> arms the timer again.
\<close>

locale polled =
  fixes exec :: "'e \<Rightarrow> 's \<Rightarrow> 's option"
    and kind :: "'e \<Rightarrow> poll_kind"
    and ok :: "'e \<Rightarrow> bool"
    and refresh_timer :: "'s \<Rightarrow> timer"
    and in_flight :: "'s \<Rightarrow> nat"
    and polling :: "'s \<Rightarrow> bool"
    and period :: "'s \<Rightarrow> int"
    and mounted :: "'s \<Rightarrow> bool"
    and wf :: "'s \<Rightarrow> bool"
  assumes wf_mounted: "mounted s \<Longrightarrow> wf s"
    and wf_step: "wf s \<Longrightarrow> ok e \<Longrightarrow> exec e s = Some s' \<Longrightarrow> wf s'"
    and mounted_init: "mounted s \<Longrightarrow> t_armed (refresh_timer s) = [] \<and> in_flight s = 1 \<and> polling s"
    and quiet: "one_series (refresh_timer s) (in_flight s) (polling s) \<Longrightarrow> wf s \<Longrightarrow> exec e s = Some s' \<Longrightarrow> ok e \<Longrightarrow> kind e = Quiet \<Longrightarrow>
      refresh_timer s' = refresh_timer s \<and> in_flight s' = in_flight s \<and> polling s' = polling s"
    and fires: "wf s \<Longrightarrow> exec e s = Some s' \<Longrightarrow> kind e = Fires i \<Longrightarrow>
      (\<exists>t. fireTimeout i (refresh_timer s) = Some t \<and> refresh_timer s' = clearTimeout t)
      \<and> in_flight s' = Suc (in_flight s) \<and> polling s' = polling s"
    and answers: "one_series (refresh_timer s) (in_flight s) (polling s) \<Longrightarrow> wf s \<Longrightarrow> exec e s = Some s' \<Longrightarrow> ok e \<Longrightarrow> kind e = Answers \<Longrightarrow>
      in_flight s = Suc (in_flight s')
      \<and> refresh_timer s' = (if polling s' then setTimeout (period s') (clearTimeout (refresh_timer s))
                            else clearTimeout (refresh_timer s))"
    and fires_enabled: "fireTimeout i (refresh_timer s) \<noteq> None \<Longrightarrow>
      \<exists>e. ok e \<and> kind e = Fires i \<and> exec e s \<noteq> None"
    and answers_enabled: "0 < in_flight s \<Longrightarrow> \<exists>e. ok e \<and> kind e = Answers \<and> exec e s \<noteq> None"
begin

lemma one_series_step:
  assumes "one_series (refresh_timer s) (in_flight s) (polling s)" "wf s" "ok e" "exec e s = Some s'"
  shows "one_series (refresh_timer s') (in_flight s') (polling s')"
proof (cases "kind e")
  case Quiet
  with assms quiet[OF assms(1,2,4,3)] show ?thesis by (simp add: one_series_def)
next
  case (Fires i)
  from fires[OF assms(2,4) this] obtain t where
    t: "fireTimeout i (refresh_timer s) = Some t" "refresh_timer s' = clearTimeout t"
    and r: "in_flight s' = Suc (in_flight s)" "polling s' = polling s" by blast
  have "timer_ok (refresh_timer s)" using assms(1) by (simp add: one_series_def)
  from fireTimeout_ok[OF this t(1)] t(2) r assms(1) show ?thesis by (auto simp: one_series_def split: if_splits)
next
  case Answers
  from answers[OF assms(1,2,4,3) this] assms(1) show ?thesis
    by (auto simp: one_series_def split: if_splits)
qed

theorem one_series_run:
  assumes "mounted s" "exec_all exec es s = Some s'" "list_all ok es"
  shows "one_series (refresh_timer s') (in_flight s') (polling s')"
proof -
  have "one_series (refresh_timer s) (in_flight s) (polling s)" using mounted_init[OF assms(1)] by (simp add: one_series_def timer_ok_def)
  from exec_all_invariant[where I = "\<lambda>s. wf s \<and> one_series (refresh_timer s) (in_flight s) (polling s)",
      OF assms(2,3)] this wf_mounted[OF assms(1)] one_series_step wf_step show ?thesis by blast
qed

text \<open>The component implements the abstract machine.\<close>

lemma phase_step:
  assumes "one_series (refresh_timer s) (in_flight s) (polling s)" "wf s" "ok e" "exec e s = Some s'"
  shows "poll_step (kind e) (phase_of (refresh_timer s) (in_flight s)) (phase_of (refresh_timer s') (in_flight s'))"
proof (cases "kind e")
  case Quiet
  with quiet[OF assms(1,2,4,3)] show ?thesis by simp
next
  case (Fires i)
  from fires[OF assms(2,4) this] obtain t where t: "fireTimeout i (refresh_timer s) = Some t" and r: "in_flight s' = Suc (in_flight s)" by blast
  have "timer_ok (refresh_timer s)" using assms(1) by (simp add: one_series_def)
  from fireTimeout_ok[OF this t] have "length (t_armed (refresh_timer s)) = 1" by simp
  then have "in_flight s = 0" "t_armed (refresh_timer s) \<noteq> []" using assms(1) by (auto simp: one_series_def split: if_splits)
  then show ?thesis using Fires r by (simp add: phase_of_def)
next
  case Answers
  from answers[OF assms(1,2,4,3) this] have "0 < in_flight s" "in_flight s' = 0"
    using assms(1) by (auto simp: one_series_def split: if_splits)
  then show ?thesis using Answers by (simp add: phase_of_def)
qed

theorem refines_machine:
  assumes "mounted s" "exec_all exec es s = Some s'" "list_all ok es"
  shows "poll_run (map kind es) Asking (phase_of (refresh_timer s') (in_flight s'))"
proof -
  have run: "poll_run (map kind es) (phase_of (refresh_timer s) (in_flight s)) (phase_of (refresh_timer s') (in_flight s'))"
    if "exec_all exec es s = Some s'" "list_all ok es" "wf s" "one_series (refresh_timer s) (in_flight s) (polling s)" for es s s'
    using that
  proof (induction es arbitrary: s)
    case (Cons e es)
    then obtain s1 where s1: "exec e s = Some s1" "exec_all exec es s1 = Some s'" by (auto split: bind_splits)
    have "poll_step (kind e) (phase_of (refresh_timer s) (in_flight s)) (phase_of (refresh_timer s1) (in_flight s1))"
      using phase_step[OF Cons.prems(4,3) _ s1(1)] Cons.prems(2) by simp
    moreover have "wf s1" "one_series (refresh_timer s1) (in_flight s1) (polling s1)"
      using wf_step[OF Cons.prems(3) _ s1(1)] one_series_step[OF Cons.prems(4,3) _ s1(1)] Cons.prems(2) by simp_all
    ultimately show ?case using Cons.IH[OF s1(2)] Cons.prems(2) by (auto intro: poll_run.more)
  qed (simp add: poll_run.nothing)
  have "one_series (refresh_timer s) (in_flight s) (polling s)" using mounted_init[OF assms(1)] by (simp add: one_series_def timer_ok_def)
  from run[OF assms(2,3) wf_mounted[OF assms(1)] this] show ?thesis using mounted_init[OF assms(1)] by (simp add: phase_of_def)
qed

text \<open>While the component polls, the next event of the loop can always happen.\<close>

theorem never_stuck:
  assumes "mounted s" "exec_all exec es s = Some s'" "list_all ok es" "polling s'"
  shows "\<exists>e. ok e \<and> kind e \<noteq> Quiet \<and> exec e s' \<noteq> None"
proof (cases "in_flight s'")
  case 0
  then have "t_armed (refresh_timer s') \<noteq> []"
    using one_series_run[OF assms(1-3)] assms(4) by (auto simp: one_series_def)
  then obtain i where "fireTimeout i (refresh_timer s') \<noteq> None" using fireTimeout_enabled by blast
  from fires_enabled[OF this] show ?thesis by (metis poll_kind.distinct(1))
next
  case (Suc n)
  then have "0 < in_flight s'" by simp
  from answers_enabled[OF this] show ?thesis by (metis poll_kind.distinct(3))
qed

end

end
