(* ===== verification/QueryList.thy ===== *)
theory QueryList
  imports QueryListItem Polling
begin

text \<open>
  \<^verbatim>\<open>src/components/QueryList.jsx\<close>, the class \<open>QueryList\<close>: the filters and sort orders, the merge
  of a refreshed query list into the displayed one, and the event handlers.

  The state of the React component and its two timers form one record; \<open>setState\<close> replaces the
  fields at once.  The events of the component are the datatype \<open>ql_event\<close>, and \<open>ql_exec\<close> runs the
  handler of an event: \<open>None\<close> when the event cannot happen, otherwise the state afterwards.  A
  handler that throws leaves the state as it was at the throw.
\<close>

section \<open>Filters and sort orders\<close>

datatype filter_type = F_RUNNING | F_QUEUED | F_FINISHED

fun FILTER_TYPE :: "filter_type \<Rightarrow> 'a query_scheme \<Rightarrow> bool" where
  "FILTER_TYPE F_RUNNING q = (\<not> (q_state q = ''QUEUED'' \<or> q_state q = ''FINISHED'' \<or> q_state q = ''FAILED''))"
| "FILTER_TYPE F_QUEUED q = (q_state q = ''QUEUED'')"
| "FILTER_TYPE F_FINISHED q = (q_state q = ''FINISHED'')"

datatype sort_type = CREATED | ELAPSED | EXECUTION | CPU | CUMULATIVE_MEMORY | CURRENT_MEMORY

fun SORT_TYPE :: "env \<Rightarrow> sort_type \<Rightarrow> 'a query_scheme \<Rightarrow> jv" where
  "SORT_TYPE env CREATED q = JNum (date_parse env (createTime (queryStats q)))"
| "SORT_TYPE env ELAPSED q = parseDuration (elapsedTime (queryStats q))"
| "SORT_TYPE env EXECUTION q = parseDuration (executionTime (queryStats q))"
| "SORT_TYPE env CPU q = parseDuration (totalCpuTime (queryStats q))"
| "SORT_TYPE env CUMULATIVE_MEMORY q = JNum (cumulativeUserMemory (queryStats q))"
| "SORT_TYPE env CURRENT_MEMORY q = parseDataSize (userMemoryReservation (queryStats q))"

datatype error_type = E_USER_ERROR | E_INTERNAL_ERROR | E_INSUFFICIENT_RESOURCES | E_EXTERNAL

fun ERROR_TYPE :: "error_type \<Rightarrow> 'a query_scheme \<Rightarrow> bool" where
  "ERROR_TYPE E_USER_ERROR q = (q_state q = ''FAILED'' \<and> errorType q = Some ''USER_ERROR'')"
| "ERROR_TYPE E_INTERNAL_ERROR q = (q_state q = ''FAILED'' \<and> errorType q = Some ''INTERNAL_ERROR'')"
| "ERROR_TYPE E_INSUFFICIENT_RESOURCES q = (q_state q = ''FAILED'' \<and> errorType q = Some ''INSUFFICIENT_RESOURCES'')"
| "ERROR_TYPE E_EXTERNAL q = (q_state q = ''FAILED'' \<and> errorType q = Some ''EXTERNAL'')"

datatype sort_order = ASCENDING | DESCENDING

fun SORT_ORDER :: "sort_order \<Rightarrow> jsnum \<Rightarrow> jsnum" where
  "SORT_ORDER ASCENDING v = v"
| "SORT_ORDER DESCENDING v = js_neg v"

section \<open>State\<close>

record query_list =
  allQueries :: "query list"
  displayedQueries :: "query list"
  reorderInterval :: int
  currentSortType :: sort_type
  currentSortOrder :: sort_order
  stateFilters :: "filter_type list"
  errorTypeFilters :: "error_type list"
  searchString :: string
  maxQueries :: nat
  ql_lastRefresh :: int
  ql_lastReorder :: int
  ql_initialized :: bool
  ql_timeout :: timer
  searchTimeout :: timer
  ql_requests :: nat

definition QueryList_init :: "int \<Rightarrow> int \<Rightarrow> query_list" where
  "QueryList_init now1 now2 =
    \<lparr> allQueries = [], displayedQueries = [], reorderInterval = 5000,
      currentSortType = CREATED, currentSortOrder = DESCENDING,
      stateFilters = [F_RUNNING, F_QUEUED],
      errorTypeFilters = [E_INTERNAL_ERROR, E_INSUFFICIENT_RESOURCES, E_EXTERNAL],
      searchString = [], maxQueries = 100, ql_lastRefresh = now1, ql_lastReorder = now2,
      ql_initialized = False, ql_timeout = no_timer, searchTimeout = no_timer, ql_requests = 0 \<rparr>"

section \<open>Sorting and filtering\<close>

text \<open>The comparator of \<open>queries.sort\<close>.\<close>

definition query_cmp :: "env \<Rightarrow> sort_type \<Rightarrow> sort_order \<Rightarrow> 'a query_scheme \<Rightarrow> 'a query_scheme \<Rightarrow> jsnum" where
  "query_cmp env sortType sortOrder a b =
    SORT_ORDER sortOrder (js_sub (to_num (SORT_TYPE env sortType a)) (to_num (SORT_TYPE env sortType b)))"

text \<open>\<open>None\<close> as the limit is \<open>undefined\<close>: it differs from 0 and no length exceeds it.\<close>

definition sortAndLimitQueries :: "env \<Rightarrow> 'a query_scheme list \<Rightarrow> sort_type \<Rightarrow> sort_order \<Rightarrow> nat option \<Rightarrow> 'a query_scheme list" where
  "sortAndLimitQueries env queries sortType sortOrder limit =
    (let sorted = array_sort (query_cmp env sortType sortOrder) queries
     in case limit of
          None \<Rightarrow> sorted
        | Some n \<Rightarrow> if n \<noteq> 0 \<and> n < length sorted
                    then array_splice sorted n (length sorted - n) else sorted)"

definition passes_type_filters :: "filter_type list \<Rightarrow> error_type list \<Rightarrow> 'a query_scheme \<Rightarrow> bool" where
  "passes_type_filters sfs efs q \<longleftrightarrow> list_ex (\<lambda>f. FILTER_TYPE f q) sfs \<or> list_ex (\<lambda>e. ERROR_TYPE e q) efs"

text \<open>The operands of \<open>||\<close> are evaluated from the left until one is true.\<close>

definition matches_search :: "string \<Rightarrow> 'a query_scheme \<Rightarrow> bool throws" where
  "matches_search searchText q =
    (let term = toLowerCase searchText; hit = (\<lambda>s. index_of term (toLowerCase s) \<noteq> - 1)
     in if hit (queryId q) then Some True
        else do {
          st \<leftarrow> getHumanReadableState q;
          Some (hit st \<or> hit (q_query q)
            \<or> (s_user (session q) \<noteq> [] \<and> hit (s_user (session q)))
            \<or> (case s_source (session q) of None \<Rightarrow> False | Some s \<Rightarrow> s \<noteq> [] \<and> hit s)
            \<or> (case resourceGroupId q of None \<Rightarrow> False | Some g \<Rightarrow> hit (join ''.'' g))) })"

definition filterQueries :: "'a query_scheme list \<Rightarrow> filter_type list \<Rightarrow> error_type list \<Rightarrow> string \<Rightarrow> 'a query_scheme list throws" where
  "filterQueries queries sfs efs searchText =
    (let stateFilteredQueries = filter (passes_type_filters sfs efs) queries
     in if searchText = [] then Some stateFilteredQueries
        else filterM (matches_search searchText) stateFilteredQueries)"

section \<open>Refreshing\<close>

text \<open>
  \<open>queryList.reduce(function (map, query) { map[query.queryId] = query; return map; }, {})\<close>.  A
  value \<open>None\<close> in the map is the \<open>false\<close> written for a query that is already displayed.
\<close>

definition query_map :: "'a query_scheme list \<Rightarrow> (string, 'a query_scheme option) jsmap" where
  "query_map queryList = foldl (\<lambda>m q. map_set (queryId q) (Some q) m) [] queryList"

text \<open>The displayed queries in their old order, with their new data.\<close>

fun update_displayed :: "'a query_scheme list \<Rightarrow> (string, 'a query_scheme option) jsmap
    \<Rightarrow> 'a query_scheme option list \<times> (string, 'a query_scheme option) jsmap" where
  "update_displayed [] m = ([], m)"
| "update_displayed (q # qs) m =
    (case map_get m (queryId q) of
       None \<Rightarrow> update_displayed qs m
     | Some v \<Rightarrow> let (us, m') = update_displayed qs (map_set (queryId q) None m) in (v # us, m'))"

text \<open>\<open>for (const queryId in queryMap) { if (queryMap[queryId]) { newQueries.push(queryMap[queryId]); } }\<close>.\<close>

definition new_queries :: "(string, 'a query_scheme option) jsmap \<Rightarrow> 'a query_scheme list" where
  "new_queries m = concat (map (\<lambda>k. case map_get m k of Some (Some q) \<Rightarrow> [q] | _ \<Rightarrow> []) (own_keys m))"

definition limit_queries :: "nat \<Rightarrow> 'a list \<Rightarrow> 'a list" where
  "limit_queries n qs = (if n \<noteq> 0 \<and> n < length qs then array_splice qs n (length qs - n) else qs)"

text \<open>
  The success callback up to \<open>setState\<close>; \<open>now1\<close> and \<open>now2\<close> are the two readings of the clock.  A
  displayed query whose value in the map is \<open>false\<close> makes the reads of its fields throw.
\<close>

definition refresh_success :: "env \<Rightarrow> query list \<Rightarrow> int \<Rightarrow> int \<Rightarrow> query_list \<Rightarrow> query_list throws" where
  "refresh_success env queryList now1 now2 s =
    (let (updated, rest) = update_displayed (displayedQueries s) (query_map queryList)
     in do {
       updatedQueries \<leftarrow> mapM id updated;
       newQueries \<leftarrow> filterQueries (new_queries rest) (stateFilters s) (errorTypeFilters s) (searchString s);
       let lastRefresh = now1;
       (updatedQueries, lastReorder) \<leftarrow>
         (if reorderInterval s \<noteq> 0 \<and> reorderInterval s \<le> lastRefresh - ql_lastReorder s
          then do {
            filtered \<leftarrow> filterQueries updatedQueries (stateFilters s) (errorTypeFilters s) (searchString s);
            Some (sortAndLimitQueries env (filtered @ newQueries) (currentSortType s) (currentSortOrder s) (Some 0), now2) }
          else Some (updatedQueries @ sortAndLimitQueries env newQueries (currentSortType s) (currentSortOrder s) (Some 0),
                     ql_lastReorder s));
       Some (s\<lparr> allQueries := queryList,
                displayedQueries := limit_queries (maxQueries s) updatedQueries,
                ql_lastRefresh := lastRefresh, ql_lastReorder := lastReorder, ql_initialized := True \<rparr>) })"

text \<open>
  The component has no state field \<open>query\<close> and no field \<open>ended\<close>: \<open>this.state.query === null ||
  !this.state.ended\<close> is always true and the timer is always armed again.
\<close>

definition ql_resetTimer :: "query_list \<Rightarrow> query_list" where
  "ql_resetTimer s = s\<lparr> ql_timeout := setTimeout 1000 (clearTimeout (ql_timeout s)) \<rparr>"

definition ql_refreshLoop :: "query_list \<Rightarrow> query_list" where
  "ql_refreshLoop s =
    s\<lparr> ql_timeout := clearTimeout (ql_timeout s), searchTimeout := clearTimeout (searchTimeout s),
       ql_requests := Suc (ql_requests s) \<rparr>"

definition QueryList_mount :: "int \<Rightarrow> int \<Rightarrow> query_list" where
  "QueryList_mount now1 now2 = ql_refreshLoop (QueryList_init now1 now2)"

definition ql_onSuccess :: "env \<Rightarrow> query list \<Rightarrow> int \<Rightarrow> int \<Rightarrow> query_list \<Rightarrow> query_list" where
  "ql_onSuccess env queryList now1 now2 s =
    (case refresh_success env queryList now1 now2 s of
       None \<Rightarrow> s
     | Some s' \<Rightarrow> ql_resetTimer s')"

definition ql_onError :: "query_list \<Rightarrow> query_list" where
  "ql_onError s = ql_resetTimer (s\<lparr> ql_initialized := True \<rparr>)"

section \<open>Handlers\<close>

definition handleSearchStringChange :: "string \<Rightarrow> query_list \<Rightarrow> query_list" where
  "handleSearchStringChange newSearchString s =
    s\<lparr> searchString := newSearchString, searchTimeout := setTimeout 200 (clearTimeout (searchTimeout s)) \<rparr>"

text \<open>Filter all queries, sort them, and show at most \<open>limit\<close> of them.\<close>

definition filter_and_sort :: "env \<Rightarrow> query_list \<Rightarrow> nat option \<Rightarrow> query list throws" where
  "filter_and_sort env s limit =
    do { qs \<leftarrow> filterQueries (allQueries s) (stateFilters s) (errorTypeFilters s) (searchString s);
         Some (sortAndLimitQueries env qs (currentSortType s) (currentSortOrder s) limit) }"

definition executeSearch :: "env \<Rightarrow> query_list \<Rightarrow> query_list" where
  "executeSearch env s0 =
    (let s = s0\<lparr> searchTimeout := clearTimeout (searchTimeout s0) \<rparr>
     in case filter_and_sort env s (Some (maxQueries s)) of
          None \<Rightarrow> s
        | Some newDisplayedQueries \<Rightarrow> s\<lparr> displayedQueries := newDisplayedQueries \<rparr>)"

definition handleMaxQueriesClick :: "env \<Rightarrow> nat \<Rightarrow> query_list \<Rightarrow> query_list" where
  "handleMaxQueriesClick env newMaxQueries s =
    (case filter_and_sort env s (Some newMaxQueries) of
       None \<Rightarrow> s
     | Some filteredQueries \<Rightarrow> s\<lparr> maxQueries := newMaxQueries, displayedQueries := filteredQueries \<rparr>)"

definition handleReorderClick :: "int \<Rightarrow> query_list \<Rightarrow> query_list" where
  "handleReorderClick interval s =
    (if reorderInterval s \<noteq> interval then s\<lparr> reorderInterval := interval \<rparr> else s)"

definition handleSortClick :: "env \<Rightarrow> sort_type \<Rightarrow> query_list \<Rightarrow> query_list" where
  "handleSortClick env newSortType s =
    (let newSortOrder = (if currentSortType s = newSortType \<and> currentSortOrder s = DESCENDING
                         then ASCENDING else DESCENDING);
         s' = s\<lparr> currentSortType := newSortType, currentSortOrder := newSortOrder \<rparr>
     in case filter_and_sort env s' (Some (maxQueries s)) of
          None \<Rightarrow> s
        | Some newDisplayedQueries \<Rightarrow> s'\<lparr> displayedQueries := newDisplayedQueries \<rparr>)"

text \<open>Remove a filter that is set, add one that is not.\<close>

definition toggle :: "'a \<Rightarrow> 'a list \<Rightarrow> 'a list" where
  "toggle x xs =
    (if - 1 < array_index_of xs x then array_splice xs (nat (array_index_of xs x)) 1 else xs @ [x])"

definition handleStateFilterClick :: "env \<Rightarrow> filter_type \<Rightarrow> query_list \<Rightarrow> query_list" where
  "handleStateFilterClick env f s =
    (let s' = s\<lparr> stateFilters := toggle f (stateFilters s) \<rparr>
     in case filter_and_sort env s' None of
          None \<Rightarrow> s
        | Some filteredQueries \<Rightarrow> s'\<lparr> displayedQueries := filteredQueries \<rparr>)"

definition handleErrorTypeFilterClick :: "env \<Rightarrow> error_type \<Rightarrow> query_list \<Rightarrow> query_list" where
  "handleErrorTypeFilterClick env e s =
    (let s' = s\<lparr> errorTypeFilters := toggle e (errorTypeFilters s) \<rparr>
     in case filter_and_sort env s' None of
          None \<Rightarrow> s
        | Some filteredQueries \<Rightarrow> s'\<lparr> displayedQueries := filteredQueries \<rparr>)"

section \<open>Events\<close>

datatype ql_event =
    SearchInput string
  | SortClick sort_type
  | StateFilterClick filter_type
  | ErrorTypeFilterClick error_type
  | ReorderClick int
  | MaxQueriesClick nat
  | SearchTimer nat
  | RefreshTimer nat
  | RefreshSuccess "query list" int int
  | RefreshError

fun ql_exec :: "env \<Rightarrow> ql_event \<Rightarrow> query_list \<Rightarrow> query_list option" where
  "ql_exec env (SearchInput t) s = Some (handleSearchStringChange t s)"
| "ql_exec env (SortClick t) s = Some (handleSortClick env t s)"
| "ql_exec env (StateFilterClick f) s = Some (handleStateFilterClick env f s)"
| "ql_exec env (ErrorTypeFilterClick e) s = Some (handleErrorTypeFilterClick env e s)"
| "ql_exec env (ReorderClick n) s = Some (handleReorderClick n s)"
| "ql_exec env (MaxQueriesClick n) s = Some (handleMaxQueriesClick env n s)"
| "ql_exec env (SearchTimer i) s =
    do { t \<leftarrow> fireTimeout i (searchTimeout s); Some (executeSearch env (s\<lparr> searchTimeout := t \<rparr>)) }"
| "ql_exec env (RefreshTimer i) s =
    do { t \<leftarrow> fireTimeout i (ql_timeout s); Some (ql_refreshLoop (s\<lparr> ql_timeout := t \<rparr>)) }"
| "ql_exec env (RefreshSuccess qs now1 now2) s =
    (if 0 < ql_requests s then Some (ql_onSuccess env qs now1 now2 (s\<lparr> ql_requests := ql_requests s - 1 \<rparr>)) else None)"
| "ql_exec env RefreshError s =
    (if 0 < ql_requests s then Some (ql_onError (s\<lparr> ql_requests := ql_requests s - 1 \<rparr>)) else None)"

end
