(* ===== verification/QueryListLaws.thy ===== *)
theory QueryListLaws
  imports QueryList
begin

text \<open>
  The laws of the query list: what filtering, sorting and limiting return, how a refresh merges the
  server's list into the displayed one, what every run of events keeps, and that the refresh loop
  goes on.
\<close>

section \<open>Specifications\<close>

text \<open>A query has a finite sort key.\<close>

definition finite_key :: "env \<Rightarrow> sort_type \<Rightarrow> 'a query_scheme set" where
  "finite_key env t = {q. \<exists>r. to_num (SORT_TYPE env t q) = Fin r \<and> is_double (Fin r)}"

definition key_val :: "env \<Rightarrow> sort_type \<Rightarrow> 'a query_scheme \<Rightarrow> rat" where
  "key_val env t q = (case to_num (SORT_TYPE env t q) of Fin r \<Rightarrow> r | _ \<Rightarrow> 0)"

text \<open>The order the user asked for.\<close>

definition in_order :: "env \<Rightarrow> sort_type \<Rightarrow> sort_order \<Rightarrow> 'a query_scheme \<Rightarrow> 'a query_scheme \<Rightarrow> bool" where
  "in_order env t ord a b \<longleftrightarrow>
    (if ord = ASCENDING then key_val env t a \<le> key_val env t b else key_val env t b \<le> key_val env t a)"

text \<open>A query is wanted under the filters and the search text.\<close>

definition wanted :: "filter_type list \<Rightarrow> error_type list \<Rightarrow> string \<Rightarrow> 'a query_scheme \<Rightarrow> bool" where
  "wanted sfs efs searchText q \<longleftrightarrow>
    passes_type_filters sfs efs q \<and> (searchText = [] \<or> matches_search searchText q = Some True)"

text \<open>
  What the list shows: no query twice, and only queries of the last response; the filters are sets
  and at most one search is pending.
\<close>

definition ql_wf :: "query_list \<Rightarrow> bool" where
  "ql_wf s \<longleftrightarrow> distinct (map queryId (displayedQueries s)) \<and> set (displayedQueries s) \<subseteq> set (allQueries s)
     \<and> distinct (map queryId (allQueries s)) \<and> list_all error_consistent (allQueries s)
     \<and> distinct (stateFilters s) \<and> distinct (errorTypeFilters s) \<and> timer_ok (searchTimeout s)"

text \<open>The responses of a consistent server: every query once, an error code with every error type.\<close>

definition server_list :: "query list \<Rightarrow> bool" where
  "server_list qs \<longleftrightarrow> distinct (map queryId qs) \<and> list_all error_consistent qs"

fun ql_ok :: "ql_event \<Rightarrow> bool" where
  "ql_ok (RefreshSuccess qs now1 now2) = server_list qs"
| "ql_ok _ = True"

fun ql_kind :: "ql_event \<Rightarrow> poll_kind" where
  "ql_kind (RefreshTimer i) = Fires i"
| "ql_kind (RefreshSuccess qs now1 now2) = Answers"
| "ql_kind RefreshError = Answers"
| "ql_kind _ = Quiet"

text \<open>The limit the user chose, and the clicks that ignore it.\<close>

definition within_limit :: "query_list \<Rightarrow> bool" where
  "within_limit s \<longleftrightarrow> (maxQueries s \<noteq> 0 \<longrightarrow> length (displayedQueries s) \<le> maxQueries s)"

fun filter_click :: "ql_event \<Rightarrow> bool" where
  "filter_click (StateFilterClick f) = True"
| "filter_click (ErrorTypeFilterClick e) = True"
| "filter_click _ = False"

definition example_queries :: "query list" where
  "example_queries =
    [example_query ''20190131_000001_00001_aaaaa'' ''RUNNING'' ''2019-01-31T00:00:01.000Z'',
     example_query ''20190131_000002_00002_aaaaa'' ''QUEUED'' ''2019-01-31T00:00:02.000Z'',
     example_query ''20190131_000003_00003_aaaaa'' ''FINISHED'' ''2019-01-31T00:00:03.000Z'']"

definition example_run :: "ql_event list" where
  "example_run =
    [RefreshSuccess example_queries 1000 1000, SortClick ELAPSED, SearchInput ''CLI'', SearchTimer 0, RefreshTimer 0,
     RefreshError, MaxQueriesClick 20, RefreshTimer 1, RefreshSuccess example_queries 9000 9001, SortClick CREATED]"

section \<open>Filtering\<close>

lemma matches_search_defined: "error_consistent q \<Longrightarrow> matches_search t q \<noteq> None"
  using display_defined(1)[of q] by (auto simp: matches_search_def Let_def)

lemma filterQueries_wanted:
  "filterQueries qs sfs efs t = Some rs \<Longrightarrow> rs = filter (wanted sfs efs t) qs"
  by (auto simp: filterQueries_def Let_def wanted_def filterM_eq_Some_iff conj_commute split: if_splits
      intro!: filter_cong)

lemma filterQueries_defined:
  assumes "list_all error_consistent qs"
  shows "filterQueries qs sfs efs t = Some (filter (wanted sfs efs t) qs)"
proof -
  have "\<forall>q \<in> set (filter (passes_type_filters sfs efs) qs). matches_search t q \<noteq> None"
    using assms matches_search_defined unfolding list_all_iff by auto
  then have "\<exists>rs. filterQueries qs sfs efs t = Some rs"
    unfolding filterQueries_def Let_def by (simp add: filterM_eq_Some_iff del: set_filter)
  then show ?thesis using filterQueries_wanted by blast
qed

section \<open>Sorting and limiting\<close>

lemma key_val_Fin: "to_num (SORT_TYPE env t q) = Fin r \<Longrightarrow> key_val env t q = r"
  by (simp add: key_val_def)

lemma js_lt_neg: "js_lt (Fin 0) (js_neg x) \<longleftrightarrow> js_lt x (Fin 0)"
  by (cases x) auto

interpretation by_key: comparator "query_cmp env t ord" "in_order env t ord" "finite_key env t" for env t ord
proof
  fix x y :: "'a query_scheme"
  assume "x \<in> finite_key env t" "y \<in> finite_key env t"
  then obtain a b where "to_num (SORT_TYPE env t x) = Fin a" "is_double (Fin a)"
    "to_num (SORT_TYPE env t y) = Fin b" "is_double (Fin b)" unfolding finite_key_def by blast
  then show "js_lt (Fin 0) (query_cmp env t ord x y) \<longleftrightarrow> \<not> in_order env t ord x y"
    using js_sub_sign[of a b]
    by (cases ord) (auto simp: query_cmp_def in_order_def key_val_Fin js_lt_neg simp del: is_double.simps)
qed (auto simp: in_order_def)

lemma sortAndLimit_take:
  "sortAndLimitQueries env qs t ord (Some n) =
    (let sorted = array_sort (query_cmp env t ord) qs in if n = 0 then sorted else take n sorted)"
  by (auto simp: sortAndLimitQueries_def Let_def array_splice_def)

lemma limit_queries_take: "limit_queries n qs = (if n = 0 then qs else take n qs)"
  by (auto simp: limit_queries_def splice_tail)

lemma sortAndLimit_sub:
  "set (sortAndLimitQueries env qs t ord m) \<subseteq> set qs"
  "distinct (map f qs) \<Longrightarrow> distinct (map f (sortAndLimitQueries env qs t ord m))"
  by (cases m; auto simp: sortAndLimit_take Let_def sortAndLimitQueries_def[of _ _ _ _ None] distinct_map_take
      dest: in_set_takeD)+

lemma list_all_finite_key:
  "list_all (\<lambda>q. case to_num (SORT_TYPE env t q) of Fin r \<Rightarrow> is_double (Fin r) | _ \<Rightarrow> False) qs \<Longrightarrow>
    set qs \<subseteq> finite_key env t"
proof
  fix q
  assume "list_all (\<lambda>q. case to_num (SORT_TYPE env t q) of Fin r \<Rightarrow> is_double (Fin r) | _ \<Rightarrow> False) qs" "q \<in> set qs"
  then show "q \<in> finite_key env t"
    by (cases "to_num (SORT_TYPE env t q)") (auto simp: list_all_iff finite_key_def simp del: is_double.simps)
qed

lemma example_length: "length example_queries = 3"
  by (simp add: example_queries_def)

lemma example_finite_keys: "set example_queries \<subseteq> finite_key example_env CREATED"
  by (rule list_all_finite_key) code_simp

lemma example_server_list: "server_list example_queries"
  by code_simp

text \<open>
  C2. Sorting and limiting: the result is the beginning of a permutation of the queries that is
  sorted by the chosen key in the chosen direction, with the queries of equal key in their old
  order, and it has as many queries as the limit allows, all of them when the limit is 0.
\<close>

theorem sortAndLimitQueries_correct:
  fixes qs :: "'a query_scheme list"
  assumes "set qs \<subseteq> finite_key env t"
  shows "\<exists>rest. mset (sortAndLimitQueries env qs t ord (Some n) @ rest) = mset qs
    \<and> sorted_wrt (in_order env t ord) (sortAndLimitQueries env qs t ord (Some n) @ rest)
    \<and> (\<forall>q \<in> set qs.
         filter (\<lambda>p. key_val env t p = key_val env t q) (sortAndLimitQueries env qs t ord (Some n) @ rest) =
         filter (\<lambda>p. key_val env t p = key_val env t q) qs)
    \<and> length (sortAndLimitQueries env qs t ord (Some n)) = (if n = 0 then length qs else min n (length qs))"
proof -
  let ?s = "array_sort (query_cmp env t ord) qs"
  let ?rest = "if n = 0 then [] else drop n ?s"
  have e: "sortAndLimitQueries env qs t ord (Some n) @ ?rest = ?s"
    by (simp add: sortAndLimit_take Let_def)
  have eq: "(in_order env t ord p q \<and> in_order env t ord q p) = (key_val env t p = key_val env t q)" for p q
    by (auto simp: in_order_def)
  have "filter (\<lambda>p. key_val env t p = key_val env t q) ?s = filter (\<lambda>p. key_val env t p = key_val env t q) qs"
    if "q \<in> set qs" for q
    using by_key.array_sort_stable[OF assms subsetD[OF assms that], of ord] by (simp only: eq)
  moreover have "length (sortAndLimitQueries env qs t ord (Some n)) = (if n = 0 then length qs else min n (length qs))"
    by (simp add: sortAndLimit_take Let_def min.commute)
  ultimately show ?thesis using by_key.sorted_array_sort[OF assms, of ord] e
    by (intro exI[of _ ?rest]) (simp only: mset_array_sort simp_thms, blast)
qed

theorem sortAndLimitQueries_correct_witness:
  "map queryId (sortAndLimitQueries example_env example_queries CREATED DESCENDING (Some 2)) =
     [''20190131_000003_00003_aaaaa'', ''20190131_000002_00002_aaaaa'']
   \<and> length (sortAndLimitQueries example_env example_queries CREATED DESCENDING (Some 2)) = 2"
proof
  show "map queryId (sortAndLimitQueries example_env example_queries CREATED DESCENDING (Some 2)) =
     [''20190131_000003_00003_aaaaa'', ''20190131_000002_00002_aaaaa'']" by code_simp
  show "length (sortAndLimitQueries example_env example_queries CREATED DESCENDING (Some 2)) = 2"
    using sortAndLimitQueries_correct[OF example_finite_keys, of DESCENDING 2]
    by (elim exE conjE) (simp only: example_length, simp)
qed

section \<open>Merging a response\<close>

lemma update_absent: "k \<notin> fst ` set m \<Longrightarrow> AList.update k v m = m @ [(k, v)]"
  by (induction m) auto

lemma query_map_distinct:
  "distinct (map queryId qs) \<Longrightarrow> query_map qs = map (\<lambda>q. (queryId q, Some q)) qs"
proof (induction qs rule: rev_induct)
  case (snoc q qs)
  then have "queryId q \<notin> fst ` set (map (\<lambda>q. (queryId q, Some q)) qs)" by auto
  then show ?case using snoc by (simp add: query_map_def update_absent del: set_map)
qed (simp add: query_map_def)

text \<open>The query of a response with a given id, and the displayed queries with their new data.\<close>

definition by_id :: "'a query_scheme list \<Rightarrow> string \<Rightarrow> 'a query_scheme option" where
  "by_id qs = map_of (map (\<lambda>q. (queryId q, q)) qs)"

definition refreshed :: "'a query_scheme list \<Rightarrow> 'a query_scheme list \<Rightarrow> 'a query_scheme list" where
  "refreshed qs ds = List.map_filter (\<lambda>d. by_id qs (queryId d)) ds"

lemma map_of_query_map: "map_of (map (\<lambda>q. (queryId q, Some q)) qs) k = map_option Some (by_id qs k)"
  by (induction qs) (auto simp: by_id_def)

lemma by_id_None: "by_id qs k = None \<longleftrightarrow> k \<notin> queryId ` set qs"
  by (auto simp: by_id_def map_of_eq_None_iff image_image)

lemma by_id_Some: "by_id qs k = Some q \<Longrightarrow> q \<in> set qs \<and> queryId q = k"
  by (auto simp: by_id_def dest!: map_of_SomeD)

lemma by_id_self: "distinct (map queryId qs) \<Longrightarrow> q \<in> set qs \<Longrightarrow> by_id qs (queryId q) = Some q"
  unfolding by_id_def by (intro map_of_is_SomeI) (auto simp: comp_def)

lemma update_displayed_spec:
  assumes "distinct (map queryId ds)"
  shows "fst (update_displayed ds m) = map (\<lambda>d. the (map_of m (queryId d))) (filter (\<lambda>d. map_of m (queryId d) \<noteq> None) ds)
    \<and> map fst (snd (update_displayed ds m)) = map fst m
    \<and> map_of (snd (update_displayed ds m)) =
      (\<lambda>k. if k \<in> queryId ` set ds \<and> map_of m k \<noteq> None then Some None else map_of m k)"
  using assms
proof (induction ds arbitrary: m)
  case (Cons d ds)
  have ne: "\<And>x. x \<in> set ds \<Longrightarrow> queryId x \<noteq> queryId d" and ds: "distinct (map queryId ds)"
    using Cons.prems by (auto, metis image_eqI)
  have eq: "map (\<lambda>x. the (map_of (AList.update (queryId d) v m) (queryId x)))
       (filter (\<lambda>x. map_of (AList.update (queryId d) v m) (queryId x) \<noteq> None) ds) =
     map (\<lambda>x. the (map_of m (queryId x))) (filter (\<lambda>x. map_of m (queryId x) \<noteq> None) ds)" for v
    using ne by (auto simp: update_conv' intro!: map_cong filter_cong)
  have keys: "map fst (AList.update (queryId d) v m) = map fst m" if "map_of m (queryId d) = Some w" for v w
    using map_of_SomeD[OF that] by (force simp: update_keys)
  note IH = Cons.IH[OF ds, of m] Cons.IH[OF ds, of "AList.update (queryId d) None m"]
  show ?case
  proof (cases "map_of m (queryId d)")
    case None
    then show ?thesis using IH(1) by (auto simp: fun_eq_iff)
  next
    case (Some w)
    then show ?thesis using IH(2) eq[of None] keys[OF Some, of None] ne
      by (auto simp: split_beta Let_def update_conv' fun_eq_iff)
  qed
qed auto

lemmas update_displayed_distinct = update_displayed_spec[THEN conjunct1]
  update_displayed_spec[THEN conjunct2, THEN conjunct1] update_displayed_spec[THEN conjunct2, THEN conjunct2]

lemma mapM_id_Some: "mapM id (map Some xs) = Some xs"
  by (induction xs) auto

lemma map_filter_the:
  "map (\<lambda>d. the (map_option Some (f d))) (filter (\<lambda>d. map_option Some (f d) \<noteq> None) ds) =
    map Some (List.map_filter f ds)"
  by (induction ds) (auto simp: List.map_filter_simps split: option.split)

lemma mset_concat_map: "mset (concat (map f xs)) = (\<Sum>x \<in># mset xs. mset (f x))"
  by (induction xs) auto

lemma concat_if_filter: "concat (map (\<lambda>q. if p q then [q] else []) qs) = filter p qs"
  by (induction qs) auto

text \<open>What a response adds: its queries that are not displayed yet.\<close>

lemma merge_response:
  assumes qs: "distinct (map queryId qs)" and ds: "distinct (map queryId ds)"
  obtains m where "update_displayed ds (query_map qs) = (map Some (refreshed qs ds), m)"
    and "mset (new_queries m) = mset (filter (\<lambda>q. queryId q \<notin> queryId ` set ds) qs)"
    and "\<forall>q \<in> set qs. \<not> is_array_index (queryId q) \<Longrightarrow>
      new_queries m = filter (\<lambda>q. queryId q \<notin> queryId ` set ds) qs"
proof -
  define m where "m = snd (update_displayed ds (query_map qs))"
  note ud = update_displayed_distinct[OF ds, of "query_map qs", unfolded query_map_distinct[OF qs] map_of_query_map]
  have f: "fst (update_displayed ds (query_map qs)) = map Some (refreshed qs ds)"
    unfolding query_map_distinct[OF qs] ud(1) map_filter_the refreshed_def ..
  define g where "g = (\<lambda>k. case map_of m k of Some (Some q) \<Rightarrow> [q] | _ \<Rightarrow> [])"
  have mo: "map_of m k = (if k \<in> queryId ` set ds \<and> by_id qs k \<noteq> None then Some None else map_option Some (by_id qs k))" for k
    unfolding m_def query_map_distinct[OF qs] using fun_cong[OF ud(3), of k] by simp
  have g: "g (queryId q) = (if queryId q \<notin> queryId ` set ds then [q] else [])" if "q \<in> set qs" for q
    using by_id_self[OF qs that] by (simp add: g_def mo)
  have keys: "map fst m = map queryId qs"
    unfolding m_def query_map_distinct[OF qs] using ud(2) by (simp add: comp_def)
  have flt: "concat (map g (map queryId qs)) = filter (\<lambda>q. queryId q \<notin> queryId ` set ds) qs"
    using g by (simp add: comp_def flip: concat_if_filter cong: map_cong)
  have nq: "new_queries m = concat (map g (own_keys m))" by (simp add: new_queries_def g_def)
  have "mset (new_queries m) = mset (concat (map g (map queryId qs)))"
    unfolding nq mset_concat_map mset_own_keys keys ..
  moreover have "own_keys m = map queryId qs" if "\<forall>q \<in> set qs. \<not> is_array_index (queryId q)"
  proof -
    have "fst ` set m = queryId ` set qs" using arg_cong[OF keys, of set] by simp
    then show ?thesis using own_keys_no_index[of m] that keys by simp
  qed
  moreover have "update_displayed ds (query_map qs) = (map Some (refreshed qs ds), m)"
    using f by (simp add: m_def prod_eq_iff)
  ultimately show ?thesis using that[of m] flt nq by simp
qed

lemma set_refreshed: "set (refreshed qs ds) \<subseteq> set qs"
  by (auto simp: refreshed_def List.map_filter_def dest: by_id_Some)

lemma ids_refreshed: "map queryId (refreshed qs ds) = filter (\<lambda>k. k \<in> queryId ` set qs) (map queryId ds)"
proof (induction ds)
  case (Cons d ds)
  then show ?case using by_id_None[of qs "queryId d"]
    by (cases "by_id qs (queryId d)") (auto simp: refreshed_def List.map_filter_simps dest: by_id_Some)
qed (simp add: refreshed_def List.map_filter_simps)

lemma mset_refreshed:
  assumes qs: "distinct (map queryId qs)" and ds: "distinct (map queryId ds)"
  shows "mset (refreshed qs ds) = mset (filter (\<lambda>q. queryId q \<in> queryId ` set ds) qs)"
proof -
  have "distinct (map queryId (refreshed qs ds))" unfolding ids_refreshed using ds by (rule distinct_filter)
  then have d: "distinct (refreshed qs ds)" by (simp add: distinct_map)
  have "q \<in> set (refreshed qs ds)" if "q \<in> set qs" "d \<in> set ds" "queryId q = queryId d" for q d
    using by_id_self[OF qs that(1)] that(2,3) by (force simp: refreshed_def List.map_filter_def)
  moreover have "q \<in> set qs \<and> queryId q \<in> queryId ` set ds" if "q \<in> set (refreshed qs ds)" for q
    using that by_id_Some[of qs] by (force simp: refreshed_def List.map_filter_def)
  ultimately have "set (refreshed qs ds) = set (filter (\<lambda>q. queryId q \<in> queryId ` set ds) qs)" by auto
  moreover have "distinct (filter (\<lambda>q. queryId q \<in> queryId ` set ds) qs)" using qs by (simp add: distinct_map)
  ultimately show ?thesis using d set_eq_iff_mset_eq_distinct by blast
qed

text \<open>
  The success callback in closed form: the queries to show before the limit, from the refreshed
  queries \<open>us\<close> and the new ones \<open>new\<close>.
\<close>

definition reorder_due :: "query_list \<Rightarrow> int \<Rightarrow> bool" where
  "reorder_due s now \<longleftrightarrow> reorderInterval s \<noteq> 0 \<and> reorderInterval s \<le> now - ql_lastReorder s"

abbreviation ql_wanted :: "query_list \<Rightarrow> query \<Rightarrow> bool" where
  "ql_wanted s \<equiv> wanted (stateFilters s) (errorTypeFilters s) (searchString s)"

abbreviation ql_sort :: "env \<Rightarrow> query_list \<Rightarrow> query list \<Rightarrow> query list" where
  "ql_sort env s \<equiv> array_sort (query_cmp env (currentSortType s) (currentSortOrder s))"

definition merged_queries :: "env \<Rightarrow> query list \<Rightarrow> int \<Rightarrow> query_list \<Rightarrow> query list \<Rightarrow> query list" where
  "merged_queries env qs now1 s new =
    (if reorder_due s now1 then ql_sort env s (filter (ql_wanted s) (refreshed qs (displayedQueries s)) @ new)
     else refreshed qs (displayedQueries s) @ ql_sort env s new)"

definition merged :: "env \<Rightarrow> query list \<Rightarrow> int \<Rightarrow> int \<Rightarrow> query_list \<Rightarrow> query list \<Rightarrow> query_list" where
  "merged env qs now1 now2 s new =
    s\<lparr> allQueries := qs, displayedQueries := limit_queries (maxQueries s) (merged_queries env qs now1 s new),
       ql_lastRefresh := now1, ql_lastReorder := (if reorder_due s now1 then now2 else ql_lastReorder s),
       ql_initialized := True \<rparr>"

lemma refresh_success_eq:
  assumes qs: "server_list qs" and ds: "distinct (map queryId (displayedQueries s))"
  obtains new where "mset new = mset (filter (\<lambda>q. ql_wanted s q \<and> queryId q \<notin> queryId ` set (displayedQueries s)) qs)"
    and "refresh_success env qs now1 now2 s = Some (merged env qs now1 now2 s new)"
proof -
  have d: "distinct (map queryId qs)" and c: "list_all error_consistent qs" using qs by (auto simp: server_list_def)
  obtain m where m: "update_displayed (displayedQueries s) (query_map qs) = (map Some (refreshed qs (displayedQueries s)), m)"
    "mset (new_queries m) = mset (filter (\<lambda>q. queryId q \<notin> queryId ` set (displayedQueries s)) qs)"
    using merge_response[OF d ds] by metis
  have "set (new_queries m) \<subseteq> set qs" using arg_cong[OF m(2), of set_mset] by auto
  then have cn: "list_all error_consistent (new_queries m)" using c by (auto simp: list_all_iff)
  have cr: "list_all error_consistent (refreshed qs (displayedQueries s))"
    using c set_refreshed[of qs "displayedQueries s"] by (auto simp: list_all_iff)
  note f = filterQueries_defined[OF cn] filterQueries_defined[OF cr]
  have "mset (filter (ql_wanted s) (new_queries m)) =
      mset (filter (\<lambda>q. ql_wanted s q \<and> queryId q \<notin> queryId ` set (displayedQueries s)) qs)"
    by (simp only: mset_filter m(2) filter_filter_mset conj_commute)
  then show ?thesis
  proof (rule that)
    show "refresh_success env qs now1 now2 s = Some (merged env qs now1 now2 s (filter (ql_wanted s) (new_queries m)))"
      by (simp add: refresh_success_def m(1) mapM_id_Some f sortAndLimit_take Let_def reorder_due_def
          merged_def merged_queries_def)
  qed
qed

text \<open>
  C16. A refresh that is not due to reorder: the queries on display that the response still has keep
  their places, with their new data, and the wanted queries of the response that were not on
  display follow them in the chosen order; the limit cuts the end.
\<close>

theorem refresh_keeps_order:
  assumes server: "server_list qs" and shown: "distinct (map queryId (displayedQueries s))" and due: "\<not> reorder_due s now1"
    and keys: "set qs \<subseteq> finite_key env (currentSortType s)"
  shows "\<exists>s' new. refresh_success env qs now1 now2 s = Some s' \<and> allQueries s' = qs
    \<and> displayedQueries s' = limit_queries (maxQueries s) (refreshed qs (displayedQueries s) @ new)
    \<and> map queryId (refreshed qs (displayedQueries s)) =
        filter (\<lambda>k. k \<in> queryId ` set qs) (map queryId (displayedQueries s))
    \<and> mset new = mset (filter (\<lambda>q. ql_wanted s q \<and> queryId q \<notin> queryId ` set (displayedQueries s)) qs)
    \<and> sorted_wrt (in_order env (currentSortType s) (currentSortOrder s)) new"
proof -
  obtain new where new: "mset new = mset (filter (\<lambda>q. ql_wanted s q \<and> queryId q \<notin> queryId ` set (displayedQueries s)) qs)"
    and e: "refresh_success env qs now1 now2 s = Some (merged env qs now1 now2 s new)"
    by (rule refresh_success_eq[OF server shown])
  have "set new \<subseteq> finite_key env (currentSortType s)" using arg_cong[OF new, of set_mset] keys by auto
  then have "sorted_wrt (in_order env (currentSortType s) (currentSortOrder s)) (ql_sort env s new)"
    by (rule by_key.sorted_array_sort)
  then show ?thesis using new e ids_refreshed due
    by (intro exI[of _ "merged env qs now1 now2 s new"] exI[of _ "ql_sort env s new"])
      (simp add: merged_def merged_queries_def)
qed

theorem refresh_keeps_order_witness:
  "\<exists>s'. refresh_success example_env example_queries 1000 1000
       (QueryList_init 0 0\<lparr> displayedQueries := drop 2 example_queries \<rparr>) = Some s'
     \<and> map queryId (displayedQueries s') =
       [''20190131_000003_00003_aaaaa'', ''20190131_000002_00002_aaaaa'', ''20190131_000001_00001_aaaaa'']"
proof -
  let ?s = "QueryList_init 0 0\<lparr> displayedQueries := drop 2 example_queries \<rparr>"
  have "\<exists>s' new. refresh_success example_env example_queries 1000 1000 ?s = Some s'"
    using refresh_keeps_order[OF example_server_list, of ?s 1000 example_env 1000] example_finite_keys
    by (auto simp: example_queries_def reorder_due_def QueryList_init_def)
  moreover have "map_option (\<lambda>s'. map queryId (displayedQueries s')) (refresh_success example_env example_queries 1000 1000 ?s) =
      Some [''20190131_000003_00003_aaaaa'', ''20190131_000002_00002_aaaaa'', ''20190131_000001_00001_aaaaa'']"
    by code_simp
  ultimately show ?thesis by auto
qed

text \<open>
  C17. A refresh that is due to reorder shows what a fresh computation would: a permutation of exactly
  the wanted queries of the response, in the chosen order, cut at the limit.
\<close>

theorem refresh_reorders:
  assumes server: "server_list qs" and shown: "distinct (map queryId (displayedQueries s))" and due: "reorder_due s now1"
    and keys: "set qs \<subseteq> finite_key env (currentSortType s)"
  shows "\<exists>s' all. refresh_success env qs now1 now2 s = Some s' \<and> allQueries s' = qs
    \<and> displayedQueries s' = limit_queries (maxQueries s) all
    \<and> mset all = mset (filter (ql_wanted s) qs)
    \<and> sorted_wrt (in_order env (currentSortType s) (currentSortOrder s)) all
    \<and> ql_lastReorder s' = now2"
proof -
  let ?ds = "displayedQueries s"
  obtain new where new: "mset new = mset (filter (\<lambda>q. ql_wanted s q \<and> queryId q \<notin> queryId ` set ?ds) qs)"
    and e: "refresh_success env qs now1 now2 s = Some (merged env qs now1 now2 s new)"
    by (rule refresh_success_eq[OF server shown])
  have d: "distinct (map queryId qs)" using server by (simp add: server_list_def)
  have "mset (filter (ql_wanted s) (refreshed qs ?ds) @ new) =
      filter_mset (\<lambda>q. ql_wanted s q \<and> queryId q \<in> queryId ` set ?ds) (mset qs)
      + filter_mset (\<lambda>q. ql_wanted s q \<and> queryId q \<notin> queryId ` set ?ds) (mset qs)"
    by (simp only: mset_append mset_filter mset_refreshed[OF d shown] new filter_filter_mset conj_commute)
  also have "\<dots> = mset (filter (ql_wanted s) qs)" by (induction qs) auto
  finally have all: "mset (filter (ql_wanted s) (refreshed qs ?ds) @ new) = mset (filter (ql_wanted s) qs)" .
  have "set (filter (ql_wanted s) (refreshed qs ?ds) @ new) \<subseteq> finite_key env (currentSortType s)"
    using arg_cong[OF all, of set_mset] keys by auto
  then have "sorted_wrt (in_order env (currentSortType s) (currentSortOrder s))
      (ql_sort env s (filter (ql_wanted s) (refreshed qs ?ds) @ new))"
    by (rule by_key.sorted_array_sort)
  then show ?thesis using all e due
    by (intro exI[of _ "merged env qs now1 now2 s new"]
        exI[of _ "ql_sort env s (filter (ql_wanted s) (refreshed qs ?ds) @ new)"])
      (simp add: merged_def merged_queries_def)
qed

theorem refresh_reorders_witness:
  "\<exists>s'. refresh_success example_env example_queries 5000 5001 (QueryList_init 0 0) = Some s' \<and> ql_lastReorder s' = 5001"
  using refresh_reorders[OF example_server_list, of "QueryList_init 0 0" 5000 example_env 5001] example_finite_keys
  by (auto simp: reorder_due_def QueryList_init_def)

section \<open>What every run keeps\<close>

lemma filter_and_sort_sub:
  assumes "filter_and_sort env s n = Some qs"
  shows "set qs \<subseteq> set (allQueries s)" "distinct (map queryId (allQueries s)) \<Longrightarrow> distinct (map queryId qs)"
proof -
  obtain rs where rs: "filterQueries (allQueries s) (stateFilters s) (errorTypeFilters s) (searchString s) = Some rs"
    "qs = sortAndLimitQueries env rs (currentSortType s) (currentSortOrder s) n"
    using assms by (auto simp: filter_and_sort_def)
  then have r: "rs = filter (ql_wanted s) (allQueries s)" by (blast dest: filterQueries_wanted)
  show "set qs \<subseteq> set (allQueries s)"
    using sortAndLimit_sub(1)[of env rs "currentSortType s" "currentSortOrder s" n] r rs(2) by auto
  assume "distinct (map queryId (allQueries s))"
  then have "distinct (map queryId rs)" unfolding r by (rule distinct_map_filter)
  then show "distinct (map queryId qs)" unfolding rs(2) by (rule sortAndLimit_sub(2))
qed

lemma refresh_success_wf:
  assumes server: "server_list qs" and wf: "ql_wf s"
  obtains s' where "refresh_success env qs now1 now2 s = Some s'" "ql_wf s'"
    "ql_timeout s' = ql_timeout s" "ql_requests s' = ql_requests s"
    "maxQueries s' \<noteq> 0 \<longrightarrow> length (displayedQueries s') \<le> maxQueries s'"
proof -
  let ?ds = "displayedQueries s"
  have shown: "distinct (map queryId ?ds)" using wf by (simp add: ql_wf_def)
  have qs: "distinct (map queryId qs)" "list_all error_consistent qs" using server by (auto simp: server_list_def)
  obtain new where new: "mset new = mset (filter (\<lambda>q. ql_wanted s q \<and> queryId q \<notin> queryId ` set ?ds) qs)"
    and e: "refresh_success env qs now1 now2 s = Some (merged env qs now1 now2 s new)"
    by (rule refresh_success_eq[OF server shown])
  have sn: "set new = set (filter (\<lambda>q. ql_wanted s q \<and> queryId q \<notin> queryId ` set ?ds) qs)"
    using arg_cong[OF new, of set_mset] by simp
  have dn: "distinct (map queryId new)"
    unfolding distinct_map_mset[OF new] using qs(1) by (rule distinct_map_filter)
  have ir: "queryId ` set (refreshed qs ?ds) \<subseteq> queryId ` set ?ds"
    using arg_cong[OF ids_refreshed[of qs ?ds], of set] by auto
  have dr: "distinct (map queryId (refreshed qs ?ds))" unfolding ids_refreshed using shown by (rule distinct_filter)
  have "queryId ` set (refreshed qs ?ds) \<inter> queryId ` set new = {}" using ir sn by (auto, metis image_eqI subsetD)
  then have da: "distinct (map queryId (refreshed qs ?ds @ new))" using dr dn by auto
  have sa: "set (refreshed qs ?ds @ new) \<subseteq> set qs" using set_refreshed[of qs ?ds] sn by auto
  define all where "all = merged_queries env qs now1 s new"
  have "distinct (map queryId (filter (ql_wanted s) (refreshed qs ?ds) @ new))"
    using da distinct_map_filter[OF dr, of "ql_wanted s"] by auto
  then have "distinct (map queryId all)" using da by (auto simp: all_def merged_queries_def)
  moreover have "set all \<subseteq> set qs" using sa by (auto simp: all_def merged_queries_def)
  ultimately have "ql_wf (merged env qs now1 now2 s new)" using qs wf
    by (auto simp: ql_wf_def merged_def limit_queries_take distinct_map_take simp flip: all_def dest: in_set_takeD)
  with e show ?thesis by (rule that) (simp_all add: merged_def limit_queries_take)
qed

lemma toggle_eq: "toggle x xs = (if x \<in> set xs then remove1 x xs else xs @ [x])"
  unfolding toggle_def array_index_of_mem using splice_index_of[of x xs] by simp

lemma set_toggle: "set (toggle x xs) = (if x \<in> set xs then set (remove1 x xs) else insert x (set xs))"
  by (simp add: toggle_eq)

lemma distinct_toggle: "distinct xs \<Longrightarrow> distinct (toggle x xs)"
  by (simp add: toggle_eq)

lemma toggle_mem: "distinct xs \<Longrightarrow> y \<in> set (toggle x xs) \<longleftrightarrow> (if y = x then x \<notin> set xs else y \<in> set xs)"
  by (auto simp: set_toggle)

lemma ql_wf_display:
  assumes "ql_wf s" "filter_and_sort env s n = Some qs"
  shows "ql_wf (s\<lparr> displayedQueries := qs \<rparr>)"
  using assms filter_and_sort_sub[OF assms(2)] by (simp add: ql_wf_def)

lemma ql_wf_update:
  "ql_wf (s\<lparr> maxQueries := n \<rparr>) = ql_wf s"
  "ql_wf (s\<lparr> currentSortType := t \<rparr>) = ql_wf s"
  "ql_wf (s\<lparr> currentSortOrder := d \<rparr>) = ql_wf s"
  "ql_wf (s\<lparr> searchString := u \<rparr>) = ql_wf s"
  "ql_wf (s\<lparr> reorderInterval := i \<rparr>) = ql_wf s"
  "ql_wf (s\<lparr> ql_requests := r \<rparr>) = ql_wf s"
  "ql_wf (s\<lparr> ql_timeout := a \<rparr>) = ql_wf s"
  "ql_wf (s\<lparr> ql_initialized := b \<rparr>) = ql_wf s"
  "ql_wf s \<Longrightarrow> ql_wf (s\<lparr> stateFilters := toggle f (stateFilters s) \<rparr>)"
  "ql_wf s \<Longrightarrow> ql_wf (s\<lparr> errorTypeFilters := toggle e (errorTypeFilters s) \<rparr>)"
  "ql_wf s \<Longrightarrow> timer_ok c \<Longrightarrow> ql_wf (s\<lparr> searchTimeout := c \<rparr>)"
  by (auto simp: ql_wf_def distinct_toggle)

lemma ql_wf_search: "ql_wf s \<Longrightarrow> timer_ok (searchTimeout s)"
  by (simp add: ql_wf_def)

lemma ql_handlers_wf:
  assumes "ql_wf s"
  shows "ql_wf (handleSearchStringChange t s)" "ql_wf (executeSearch env s)"
    "ql_wf (handleMaxQueriesClick env n s)" "ql_wf (handleReorderClick i s)" "ql_wf (handleSortClick env st s)"
    "ql_wf (handleStateFilterClick env f s)" "ql_wf (handleErrorTypeFilterClick env e s)"
proof -
  note u = ql_wf_update ql_wf_search[OF assms] assms
  show "ql_wf (handleSearchStringChange t s)" by (simp add: handleSearchStringChange_def u)
  have c: "ql_wf (s\<lparr> searchTimeout := clearTimeout (searchTimeout s) \<rparr>)" by (simp add: u)
  show "ql_wf (executeSearch env s)" unfolding executeSearch_def Let_def
    using ql_wf_display[OF c] c by (auto split: option.split)
  show "ql_wf (handleMaxQueriesClick env n s)" unfolding handleMaxQueriesClick_def
    using ql_wf_display[OF assms] assms by (auto simp: u split: option.split) (simp add: ql_wf_def)
  show "ql_wf (handleReorderClick i s)" by (simp add: handleReorderClick_def u)
  have o: "ql_wf (s\<lparr> currentSortType := st, currentSortOrder := d \<rparr>)" for d by (simp add: u)
  show "ql_wf (handleSortClick env st s)" unfolding handleSortClick_def Let_def
    using ql_wf_display[OF o] assms by (auto split: option.split)
  show "ql_wf (handleStateFilterClick env f s)" unfolding handleStateFilterClick_def Let_def
    using ql_wf_display[OF u(9)[OF assms]] assms by (auto split: option.split)
  show "ql_wf (handleErrorTypeFilterClick env e s)" unfolding handleErrorTypeFilterClick_def Let_def
    using ql_wf_display[OF u(10)[OF assms]] assms by (auto split: option.split)
qed

lemma ql_wf_step:
  assumes "ql_wf s" "ql_ok e" "ql_exec env e s = Some s'"
  shows "ql_wf s'"
proof (cases e)
  case (RefreshSuccess qs now1 now2)
  have wf: "ql_wf (s\<lparr> ql_requests := ql_requests s - 1 \<rparr>)" using assms(1) by (simp add: ql_wf_update)
  have "server_list qs" using assms(2) RefreshSuccess by simp
  then obtain s1 where "refresh_success env qs now1 now2 (s\<lparr> ql_requests := ql_requests s - 1 \<rparr>) = Some s1" "ql_wf s1"
    using refresh_success_wf[OF _ wf] by blast
  then show ?thesis using assms(3) RefreshSuccess
    by (auto simp: ql_onSuccess_def ql_resetTimer_def ql_wf_update split: if_splits)
next
  case (SearchTimer i)
  then obtain t where t: "fireTimeout i (searchTimeout s) = Some t" "s' = executeSearch env (s\<lparr> searchTimeout := t \<rparr>)"
    using assms(3) by auto
  then have "ql_wf (s\<lparr> searchTimeout := t \<rparr>)"
    using fireTimeout_ok(3)[OF ql_wf_search[OF assms(1)]] assms(1) by (simp add: ql_wf_update)
  then show ?thesis using t by (simp add: ql_handlers_wf)
next
  case (RefreshTimer i)
  then show ?thesis using assms ql_wf_search[OF assms(1)] by (auto simp: ql_refreshLoop_def ql_wf_update)
qed (use assms ql_handlers_wf in \<open>auto simp: ql_onError_def ql_resetTimer_def ql_wf_update split: if_splits\<close>)

lemma ql_wf_mount: "ql_wf (QueryList_mount n1 n2)"
  by (simp add: QueryList_mount_def ql_refreshLoop_def QueryList_init_def ql_wf_def)

text \<open>The handlers other than the refresh loop leave its timer and its requests alone.\<close>

lemma ql_quiet:
  "ql_kind e = Quiet \<Longrightarrow> ql_exec env e s = Some s' \<Longrightarrow> ql_timeout s' = ql_timeout s \<and> ql_requests s' = ql_requests s"
  by (cases e) (auto simp: handleSearchStringChange_def executeSearch_def handleMaxQueriesClick_def handleReorderClick_def
      handleSortClick_def handleStateFilterClick_def handleErrorTypeFilterClick_def Let_def split: option.splits)

lemma ql_answer:
  assumes "ql_wf s" "ql_exec env e s = Some s'" "ql_ok e" "ql_kind e = Answers"
  shows "ql_requests s = Suc (ql_requests s') \<and> ql_timeout s' = setTimeout 1000 (clearTimeout (ql_timeout s))"
proof (cases e)
  case (RefreshSuccess qs now1 now2)
  have wf: "ql_wf (s\<lparr> ql_requests := ql_requests s - 1 \<rparr>)" using assms(1) by (simp add: ql_wf_update)
  have "server_list qs" using assms(3) RefreshSuccess by simp
  then obtain s1 where "refresh_success env qs now1 now2 (s\<lparr> ql_requests := ql_requests s - 1 \<rparr>) = Some s1"
    "ql_timeout s1 = ql_timeout s" "ql_requests s1 = ql_requests s - 1"
    using refresh_success_wf[OF _ wf] by (metis query_list.select_convs(13,15) query_list.surjective query_list.update_convs(15))
  then show ?thesis using assms(2) RefreshSuccess by (auto simp: ql_onSuccess_def ql_resetTimer_def split: if_splits)
qed (use assms in \<open>auto simp: ql_onError_def ql_resetTimer_def split: if_splits\<close>)

interpretation ql_loop: polled "ql_exec env" ql_kind ql_ok ql_timeout ql_requests "\<lambda>_. True" "\<lambda>_. 1000"
  "\<lambda>s. \<exists>n1 n2. s = QueryList_mount n1 n2" ql_wf for env
proof
  fix s s' e i
  show "\<exists>n1 n2. s = QueryList_mount n1 n2 \<Longrightarrow> ql_wf s" using ql_wf_mount by blast
  show "ql_wf s \<Longrightarrow> ql_ok e \<Longrightarrow> ql_exec env e s = Some s' \<Longrightarrow> ql_wf s'" by (rule ql_wf_step)
  show "\<exists>n1 n2. s = QueryList_mount n1 n2 \<Longrightarrow> t_armed (ql_timeout s) = [] \<and> ql_requests s = 1 \<and> True"
    by (auto simp: QueryList_mount_def ql_refreshLoop_def QueryList_init_def)
  show "ql_wf s \<Longrightarrow> ql_exec env e s = Some s' \<Longrightarrow> ql_ok e \<Longrightarrow> ql_kind e = Quiet \<Longrightarrow>
      ql_timeout s' = ql_timeout s \<and> ql_requests s' = ql_requests s \<and> True = True"
    using ql_quiet by simp
  show "ql_wf s \<Longrightarrow> ql_exec env e s = Some s' \<Longrightarrow> ql_kind e = Fires i \<Longrightarrow>
      (\<exists>t. fireTimeout i (ql_timeout s) = Some t \<and> ql_timeout s' = clearTimeout t)
      \<and> ql_requests s' = Suc (ql_requests s) \<and> True = True"
    by (cases e) (auto simp: ql_refreshLoop_def)
  show "ql_wf s \<Longrightarrow> ql_exec env e s = Some s' \<Longrightarrow> ql_ok e \<Longrightarrow> ql_kind e = Answers \<Longrightarrow>
      ql_requests s = Suc (ql_requests s') \<and> ql_timeout s' =
      (if True then setTimeout 1000 (clearTimeout (ql_timeout s)) else clearTimeout (ql_timeout s))"
    using ql_answer by simp
  show "fireTimeout i (ql_timeout s) \<noteq> None \<Longrightarrow> \<exists>e. ql_ok e \<and> ql_kind e = Fires i \<and> ql_exec env e s \<noteq> None"
    by (rule exI[of _ "RefreshTimer i"]) auto
  show "0 < ql_requests s \<Longrightarrow> \<exists>e. ql_ok e \<and> ql_kind e = Answers \<and> ql_exec env e s \<noteq> None"
    by (rule exI[of _ RefreshError]) simp
qed

lemma example_run_runs: "\<exists>s. exec_all (ql_exec example_env) example_run (QueryList_mount 0 0) = Some s"
proof -
  have "exec_all (ql_exec example_env) example_run (QueryList_mount 0 0) \<noteq> None" by code_simp
  then show ?thesis by simp
qed

lemma example_run_ok: "list_all ql_ok example_run"
  by code_simp

text \<open>
  C1. In every run of the query list (clicks, searches, timers, responses of a consistent server and
  failed requests in any order) no query is shown twice, every query shown is one of the last
  response, and the filters never hold a filter twice.
\<close>

theorem query_list_run_wf:
  assumes "exec_all (ql_exec env) es (QueryList_mount n1 n2) = Some s" "list_all ql_ok es"
  shows "ql_wf s"
  by (rule exec_all_invariant[where I = ql_wf, OF assms ql_wf_mount]) (rule ql_wf_step)

theorem query_list_run_wf_witness:
  "\<exists>s. exec_all (ql_exec example_env) example_run (QueryList_mount 0 0) = Some s \<and> ql_wf s"
proof -
  obtain s where s: "exec_all (ql_exec example_env) example_run (QueryList_mount 0 0) = Some s" using example_run_runs by blast
  from query_list_run_wf[OF s example_run_ok] show ?thesis using s by blast
qed

text \<open>
  C14. The refresh loop of the query list is one series in every such run: either a request is on
  its way or exactly one timeout is armed, the one the component remembers; and the next event of
  the loop can always happen.
\<close>

theorem query_list_polls:
  assumes "exec_all (ql_exec env) es (QueryList_mount n1 n2) = Some s" "list_all ql_ok es"
  shows "one_series (ql_timeout s) (ql_requests s) True
    \<and> (\<exists>e. ql_ok e \<and> ql_kind e \<noteq> Quiet \<and> ql_exec env e s \<noteq> None)"
  using ql_loop.one_series_run[OF _ assms] ql_loop.never_stuck[OF _ assms] by blast

theorem query_list_polls_witness:
  "\<exists>s. exec_all (ql_exec example_env) example_run (QueryList_mount 0 0) = Some s \<and> one_series (ql_timeout s) (ql_requests s) True"
proof -
  obtain s where s: "exec_all (ql_exec example_env) example_run (QueryList_mount 0 0) = Some s" using example_run_runs by blast
  from query_list_polls[OF s example_run_ok] show ?thesis using s by blast
qed

lemma filter_and_sort_limit:
  "filter_and_sort env s (Some n) = Some qs \<Longrightarrow> 0 < n \<Longrightarrow> length qs \<le> n"
  by (auto simp: filter_and_sort_def sortAndLimit_take Let_def)

lemma within_limit_step:
  assumes "ql_wf s" "within_limit s" "ql_ok e" "\<not> filter_click e" "ql_exec env e s = Some s'"
  shows "within_limit s'"
proof (cases e)
  case (RefreshSuccess qs now1 now2)
  have wf: "ql_wf (s\<lparr> ql_requests := ql_requests s - 1 \<rparr>)" using assms(1) by (simp add: ql_wf_update)
  have "server_list qs" using assms(3) RefreshSuccess by simp
  then obtain s1 where "refresh_success env qs now1 now2 (s\<lparr> ql_requests := ql_requests s - 1 \<rparr>) = Some s1" "within_limit s1"
    using refresh_success_wf[OF _ wf] unfolding within_limit_def by blast
  then show ?thesis using assms(5) RefreshSuccess
    by (auto simp: ql_onSuccess_def ql_resetTimer_def within_limit_def split: if_splits)
next
  case (SearchTimer i)
  then show ?thesis using assms(2,5) filter_and_sort_limit[of env _ "maxQueries s"]
    by (fastforce simp: executeSearch_def Let_def within_limit_def split: option.splits)
next
  case (SortClick t)
  then show ?thesis using assms(2,5)
    by (auto simp: handleSortClick_def Let_def within_limit_def dest: filter_and_sort_limit split: option.splits)
next
  case (MaxQueriesClick n)
  then show ?thesis using assms(2,5)
    by (auto simp: handleMaxQueriesClick_def within_limit_def dest: filter_and_sort_limit split: option.splits)
qed (use assms in \<open>auto simp: handleSearchStringChange_def handleReorderClick_def ql_refreshLoop_def ql_onError_def
    ql_resetTimer_def within_limit_def split: if_splits\<close>)

text \<open>
  C35. Without a click on a filter the limit holds: in every run of the other events the list shows
  at most as many queries as the user asked for.
\<close>

theorem query_list_limit:
  assumes "exec_all (ql_exec env) es (QueryList_mount n1 n2) = Some s" "list_all (\<lambda>e. ql_ok e \<and> \<not> filter_click e) es"
  shows "maxQueries s \<noteq> 0 \<longrightarrow> length (displayedQueries s) \<le> maxQueries s"
proof -
  have "ql_wf (QueryList_mount n1 n2) \<and> within_limit (QueryList_mount n1 n2)"
    using ql_wf_mount[of n1 n2] by (auto simp: within_limit_def QueryList_mount_def ql_refreshLoop_def QueryList_init_def)
  from exec_all_invariant[where I = "\<lambda>s. ql_wf s \<and> within_limit s", OF assms this]
  have "ql_wf s \<and> within_limit s" using ql_wf_step within_limit_step by blast
  then show ?thesis by (simp add: within_limit_def)
qed

theorem query_list_limit_witness:
  "\<exists>s. exec_all (ql_exec example_env) example_run (QueryList_mount 0 0) = Some s
     \<and> maxQueries s = 20 \<and> length (displayedQueries s) \<le> maxQueries s"
proof -
  obtain s where s: "exec_all (ql_exec example_env) example_run (QueryList_mount 0 0) = Some s" using example_run_runs by blast
  have "map_option maxQueries (exec_all (ql_exec example_env) example_run (QueryList_mount 0 0)) = Some 20" by code_simp
  then have m: "maxQueries s = 20" using s by simp
  have "list_all (\<lambda>e. ql_ok e \<and> \<not> filter_click e) example_run" by code_simp
  from query_list_limit[OF s this] show ?thesis using s m by simp
qed

text \<open>
  A click on a state filter ignores the limit: it shows every wanted query of the last response,
  in any number.  The handler calls \<open>sortAndLimitQueries\<close> without its last argument.
\<close>

theorem handleStateFilterClick_unlimited:
  assumes "list_all error_consistent (allQueries s)"
  shows "mset (displayedQueries (handleStateFilterClick env f s)) =
    mset (filter (wanted (toggle f (stateFilters s)) (errorTypeFilters s) (searchString s)) (allQueries s))"
  using filterQueries_defined[OF assms]
  by (simp add: handleStateFilterClick_def Let_def filter_and_sort_def sortAndLimitQueries_def)

theorem handleStateFilterClick_unlimited_witness:
  "maxQueries (QueryList_init 0 0\<lparr> allQueries := example_queries, maxQueries := 1 \<rparr>) = 1
   \<and> length (displayedQueries (handleStateFilterClick example_env F_FINISHED
        (QueryList_init 0 0\<lparr> allQueries := example_queries, maxQueries := 1 \<rparr>))) = 3"
proof -
  let ?s = "QueryList_init 0 0\<lparr> allQueries := example_queries, maxQueries := 1 \<rparr>"
  have "list_all error_consistent (allQueries ?s)" by code_simp
  from arg_cong[OF handleStateFilterClick_unlimited[OF this, of example_env F_FINISHED], of size]
  have "length (displayedQueries (handleStateFilterClick example_env F_FINISHED ?s)) =
      length (filter (wanted (toggle F_FINISHED (stateFilters ?s)) (errorTypeFilters ?s) (searchString ?s)) (allQueries ?s))"
    by (simp only: size_mset)
  also have "\<dots> = 3" by code_simp
  finally show ?thesis by simp
qed

text \<open>
  A refresh that starts while a search waits for its delay cancels the search: no search timeout is
  left, and \<open>displayedQueries\<close> is not recomputed.
\<close>

lemma refresh_cancels_search:
  "timer_ok (searchTimeout s) \<Longrightarrow> t_armed (searchTimeout (ql_refreshLoop (handleSearchStringChange t s))) = []"
  by (simp add: ql_refreshLoop_def handleSearchStringChange_def)

end
