(* ===== verification/Charts.thy ===== *)
theory Charts
  imports Utils
begin

text \<open>
  The charts of the pages.  A chart is drawn by the plugin \<open>sparkline\<close>, which is given the element, the values
  and an object of properties.  The formatter among the properties is one of the functions of
  \<^verbatim>\<open>utils.js\<close>.
\<close>

datatype formatter = PrecisionRound | FormatCount | FormatDataSize | FormatDataSizeBytes | FormatDuration

fun format_with :: "formatter \<Rightarrow> jv \<Rightarrow> string throws" where
  "format_with PrecisionRound = precisionRound"
| "format_with FormatCount = formatCount"
| "format_with FormatDataSize = formatDataSize"
| "format_with FormatDataSizeBytes = formatDataSizeBytes"
| "format_with FormatDuration = formatDuration"

datatype chart_value = CvText string | CvNumber jsnum | CvFlag bool | CvFormatter formatter

type_synonym chart_properties = "(string, chart_value) jsmap"

record sparkline =
  sl_selector :: string
  sl_values :: "jv list"
  sl_properties :: chart_properties

text \<open>\<open>$.extend({}, base, props)\<close>, and \<open>$(selector).sparkline(values, $.extend({}, base, props))\<close>.\<close>

definition js_extend :: "chart_properties \<Rightarrow> chart_properties \<Rightarrow> chart_properties" where
  "js_extend base props = foldl (\<lambda>m (k, v). map_set k v m) [] (base @ props)"

definition sparkline :: "string \<Rightarrow> jv list \<Rightarrow> chart_properties \<Rightarrow> chart_properties \<Rightarrow> sparkline" where
  "sparkline selector values base props = \<lparr> sl_selector = selector, sl_values = values, sl_properties = js_extend base props \<rparr>"

lemma sparkline_sel [simp]: "sl_selector (sparkline i vs p q) = i" "sl_values (sparkline i vs p q) = vs"
  by (simp_all add: sparkline_def)

text \<open>The charts all find their element on a page.\<close>

definition charts_shown :: "sparkline list \<Rightarrow> ('h, 'c) vnode \<Rightarrow> bool" where
  "charts_shown cs v \<longleftrightarrow> list_all (\<lambda>c. selects (sl_selector c) v) cs"

text \<open>A property of \<open>props\<close> overrides the one of \<open>base\<close>.\<close>

lemma map_get_fold: "map_get (foldl (\<lambda>m (k, v). map_set k v m) m kvs) k = (case map_get (rev kvs) k of None \<Rightarrow> map_get m k | v \<Rightarrow> v)"
  by (induction kvs rule: rev_induct) (auto simp: update_conv split: option.split)

lemma js_extend_get: "map_get (js_extend base props) k = (case map_get (rev props) k of None \<Rightarrow> map_get (rev base) k | v \<Rightarrow> v)"
  by (auto simp: js_extend_def map_get_fold map_of_append map_add_def split: option.split)

end
