(* ===== verification/ClusterHUD.thy ===== *)
theory ClusterHUD
  imports Charts Polling
begin

text \<open>
  \<^verbatim>\<open>src/components/ClusterHUD.jsx\<close>: the overview of the cluster, nine statistics with their
  histories, refreshed every second.  A drawing of the sparklines is recorded as the list of
  histories handed to the plugin.
\<close>

record cluster_state =
  cs_runningQueries :: jsnum
  cs_queuedQueries :: jsnum
  cs_blockedQueries :: jsnum
  cs_activeWorkers :: jsnum
  cs_runningDrivers :: jsnum
  cs_reservedMemory :: jsnum
  cs_totalInputRows :: jsnum
  cs_totalInputBytes :: jsnum
  cs_totalCpuTimeSecs :: jsnum

record cluster_hud =
  h_runningQueries :: "jv list"
  h_queuedQueries :: "jv list"
  h_blockedQueries :: "jv list"
  h_activeWorkers :: "jv list"
  h_runningDrivers :: "jv list"
  h_reservedMemory :: "jv list"
  h_rowInputRate :: "jv list"
  h_byteInputRate :: "jv list"
  h_perWorkerCpuTimeRate :: "jv list"
  h_lastRender :: "int option"
  h_lastRefresh :: "int option"
  h_lastInputRows :: jv
  h_lastInputBytes :: jv
  h_lastCpuTime :: jv
  h_initialized :: bool
  h_timeout :: timer
  h_requests :: nat
  h_drawn :: "sparkline list"

definition ClusterHUD_init :: cluster_hud where
  "ClusterHUD_init =
    \<lparr> h_runningQueries = [], h_queuedQueries = [], h_blockedQueries = [], h_activeWorkers = [], h_runningDrivers = [],
      h_reservedMemory = [], h_rowInputRate = [], h_byteInputRate = [], h_perWorkerCpuTimeRate = [],
      h_lastRender = None, h_lastRefresh = None, h_lastInputRows = JNull, h_lastInputBytes = JNull, h_lastCpuTime = JNull,
      h_initialized = False, h_timeout = no_timer, h_requests = 0, h_drawn = [] \<rparr>"

definition h_resetTimer :: "cluster_hud \<Rightarrow> cluster_hud" where
  "h_resetTimer s = s\<lparr> h_timeout := setTimeout 1000 (clearTimeout (h_timeout s)) \<rparr>"

definition h_refreshLoop :: "cluster_hud \<Rightarrow> cluster_hud" where
  "h_refreshLoop s = s\<lparr> h_timeout := clearTimeout (h_timeout s), h_requests := Suc (h_requests s) \<rparr>"

text \<open>
  The rate of a total since the last refresh; \<open>now\<close> is the reading of the clock.  All three rates
  divide by the same \<open>secsSinceRefresh\<close>.
\<close>

definition secsSinceRefresh :: "int \<Rightarrow> int \<Rightarrow> jsnum" where
  "secsSinceRefresh now prev = js_div (num_int (now - prev)) (Fin 1000)"

definition new_rates :: "cluster_state \<Rightarrow> int \<Rightarrow> cluster_hud \<Rightarrow> jv list \<times> jv list \<times> jv list" where
  "new_rates cs now s =
    (case h_lastRefresh s of
       None \<Rightarrow> ([], [], [])
     | Some prev \<Rightarrow>
         let rowsInputSinceRefresh = js_sub (cs_totalInputRows cs) (to_num (h_lastInputRows s));
             bytesInputSinceRefresh = js_sub (cs_totalInputBytes cs) (to_num (h_lastInputBytes s));
             cpuTimeSinceRefresh = js_sub (cs_totalCpuTimeSecs cs) (to_num (h_lastCpuTime s));
             secs = secsSinceRefresh now prev
         in (addExponentiallyWeightedToHistory (JNum (js_div rowsInputSinceRefresh secs)) (h_rowInputRate s),
             addExponentiallyWeightedToHistory (JNum (js_div bytesInputSinceRefresh secs)) (h_byteInputRate s),
             addExponentiallyWeightedToHistory (JNum (js_div (js_div cpuTimeSinceRefresh (cs_activeWorkers cs)) secs))
               (h_perWorkerCpuTimeRate s)))"

text \<open>The \<open>setState\<close> of the success callback; \<open>now2\<close> is its reading of the clock.\<close>

definition h_setState :: "cluster_state \<Rightarrow> int \<Rightarrow> int \<Rightarrow> cluster_hud \<Rightarrow> cluster_hud" where
  "h_setState cs now1 now2 s =
    (let (newRowInputRate, newByteInputRate, newPerWorkerCpuTimeRate) = new_rates cs now1 s
     in s\<lparr> h_runningQueries := addToHistory (JNum (cs_runningQueries cs)) (h_runningQueries s),
           h_queuedQueries := addToHistory (JNum (cs_queuedQueries cs)) (h_queuedQueries s),
           h_blockedQueries := addToHistory (JNum (cs_blockedQueries cs)) (h_blockedQueries s),
           h_activeWorkers := addToHistory (JNum (cs_activeWorkers cs)) (h_activeWorkers s),
           h_runningDrivers := addExponentiallyWeightedToHistory (JNum (cs_runningDrivers cs)) (h_runningDrivers s),
           h_reservedMemory := addExponentiallyWeightedToHistory (JNum (cs_reservedMemory cs)) (h_reservedMemory s),
           h_rowInputRate := newRowInputRate,
           h_byteInputRate := newByteInputRate,
           h_perWorkerCpuTimeRate := newPerWorkerCpuTimeRate,
           h_lastInputRows := JNum (cs_totalInputRows cs),
           h_lastInputBytes := JNum (cs_totalInputBytes cs),
           h_lastCpuTime := JNum (cs_totalCpuTimeSecs cs),
           h_initialized := True,
           h_lastRefresh := Some now2 \<rparr>)"

definition SPARKLINE_PROPERTIES :: chart_properties where
  "SPARKLINE_PROPERTIES =
    [(''width'', CvText ''100%''), (''height'', CvText ''75px''), (''fillColor'', CvText ''#3F4552''), (''lineColor'', CvText ''#747F96''),
     (''spotColor'', CvText ''#1EDCFF''), (''tooltipClassname'', CvText ''sparkline-tooltip''), (''disableHiddenCheck'', CvFlag True)]"

definition h_sparklines :: "cluster_hud \<Rightarrow> sparkline list" where
  "h_sparklines s =
    [sparkline ''#running-queries-sparkline'' (h_runningQueries s) SPARKLINE_PROPERTIES [(''chartRangeMin'', CvNumber (Fin 0))],
     sparkline ''#blocked-queries-sparkline'' (h_blockedQueries s) SPARKLINE_PROPERTIES [(''chartRangeMin'', CvNumber (Fin 0))],
     sparkline ''#queued-queries-sparkline'' (h_queuedQueries s) SPARKLINE_PROPERTIES [(''chartRangeMin'', CvNumber (Fin 0))],
     sparkline ''#active-workers-sparkline'' (h_activeWorkers s) SPARKLINE_PROPERTIES [(''chartRangeMin'', CvNumber (Fin 0))],
     sparkline ''#running-drivers-sparkline'' (h_runningDrivers s) SPARKLINE_PROPERTIES [(''numberFormatter'', CvFormatter PrecisionRound)],
     sparkline ''#reserved-memory-sparkline'' (h_reservedMemory s) SPARKLINE_PROPERTIES [(''numberFormatter'', CvFormatter FormatDataSizeBytes)],
     sparkline ''#row-input-rate-sparkline'' (h_rowInputRate s) SPARKLINE_PROPERTIES [(''numberFormatter'', CvFormatter FormatCount)],
     sparkline ''#byte-input-rate-sparkline'' (h_byteInputRate s) SPARKLINE_PROPERTIES [(''numberFormatter'', CvFormatter FormatDataSizeBytes)],
     sparkline ''#cpu-time-rate-sparkline'' (h_perWorkerCpuTimeRate s) SPARKLINE_PROPERTIES [(''numberFormatter'', CvFormatter PrecisionRound)]]"

text \<open>
  React calls \<open>componentDidUpdate\<close> after every update of the state, also after the one it makes
  itself.  The list holds the clock readings of the successive calls: for the test, and for
  \<open>renderTimestamp\<close>.
\<close>

fun h_componentDidUpdate :: "(int \<times> int) list \<Rightarrow> cluster_hud \<Rightarrow> cluster_hud" where
  "h_componentDidUpdate [] s = s"
| "h_componentDidUpdate ((now, renderTimestamp) # calls) s =
    (if (case h_lastRender s of None \<Rightarrow> True | Some t \<Rightarrow> 1000 \<le> now - t)
     then h_componentDidUpdate calls (s\<lparr> h_drawn := h_sparklines s, h_lastRender := Some renderTimestamp \<rparr>)
     else s)"

definition h_onSuccess :: "cluster_state \<Rightarrow> int \<Rightarrow> int \<Rightarrow> (int \<times> int) list \<Rightarrow> cluster_hud \<Rightarrow> cluster_hud" where
  "h_onSuccess cs now1 now2 calls s = h_resetTimer (h_componentDidUpdate calls (h_setState cs now1 now2 s))"

definition ClusterHUD_mount :: cluster_hud where
  "ClusterHUD_mount = h_refreshLoop ClusterHUD_init"

datatype hud_event = HudTimer nat | HudSuccess cluster_state int int "(int \<times> int) list" | HudError

fun hud_exec :: "hud_event \<Rightarrow> cluster_hud \<Rightarrow> cluster_hud option" where
  "hud_exec (HudTimer i) s = do { t \<leftarrow> fireTimeout i (h_timeout s); Some (h_refreshLoop (s\<lparr> h_timeout := t \<rparr>)) }"
| "hud_exec (HudSuccess cs now1 now2 calls) s =
    (if 0 < h_requests s then Some (h_onSuccess cs now1 now2 calls (s\<lparr> h_requests := h_requests s - 1 \<rparr>)) else None)"
| "hud_exec HudError s =
    (if 0 < h_requests s then Some (h_resetTimer (s\<lparr> h_requests := h_requests s - 1 \<rparr>)) else None)"

section \<open>View\<close>

definition hud_title :: "string \<Rightarrow> string \<Rightarrow> ('h, 'c) vnode" where
  "hud_title title label =
    divc ''col-xs-4''
      [divc ''stat-title''
        [Elem ''span'' [className ''text'', attr ''data-toggle'' ''tooltip'', attr ''data-placement'' ''right'', attr ''title'' title]
          [Text label]]]"

definition hud_stat :: "('h, 'c) vnode \<Rightarrow> string \<Rightarrow> ('h, 'c) vnode" where
  "hud_stat v sparklineId =
    divc ''col-xs-4''
      [divc ''stat stat-large''
        [elc ''span'' ''stat-text'' [v],
         Elem ''span'' [className ''sparkline'', attr ''id'' sparklineId] [divc ''loader'' [Text ''Loading ...'']]]]"

definition ClusterHUD_render :: "cluster_hud \<Rightarrow> ('h, 'c) vnode throws" where
  "ClusterHUD_render s =
    do {
      rows \<leftarrow> formatCount (last_num (h_rowInputRate s));
      drivers \<leftarrow> formatCount (last_num (h_runningDrivers s));
      bytes \<leftarrow> formatDataSizeBytes (last_num (h_byteInputRate s));
      memory \<leftarrow> formatDataSizeBytes (last_num (h_reservedMemory s));
      parallelism \<leftarrow> formatCount (last_num (h_perWorkerCpuTimeRate s));
      Some (divc ''row''
        [divc ''col-xs-12''
          [divc ''row''
            [hud_title ''Total number of queries currently running'' ''Running queries'',
             hud_title ''Total number of active worker nodes'' ''Active workers'',
             hud_title ''Moving average of input rows processed per second'' ''Rows/sec''],
           divc ''row stat-line-end''
            [hud_stat (Number (last_num (h_runningQueries s))) ''running-queries-sparkline'',
             hud_stat (Number (last_num (h_activeWorkers s))) ''active-workers-sparkline'',
             hud_stat (Text rows) ''row-input-rate-sparkline''],
           divc ''row''
            [hud_title ''Total number of queries currently queued and awaiting execution'' ''Queued queries'',
             hud_title ''Moving average of total running drivers'' ''Runnable drivers'',
             hud_title ''Moving average of input bytes processed per second'' ''Bytes/sec''],
           divc ''row stat-line-end''
            [hud_stat (Number (last_num (h_queuedQueries s))) ''queued-queries-sparkline'',
             hud_stat (Text drivers) ''running-drivers-sparkline'',
             hud_stat (Text bytes) ''byte-input-rate-sparkline''],
           divc ''row''
            [hud_title ''Total number of queries currently blocked and unable to make progress'' ''Blocked Queries'',
             hud_title ''Total amount of memory reserved by all running queries'' ''Reserved Memory (B)'',
             hud_title ''Moving average of CPU time utilized per second per worker'' ''Worker Parallelism''],
           divc ''row stat-line-end''
            [hud_stat (Number (last_num (h_blockedQueries s))) ''blocked-queries-sparkline'',
             hud_stat (Text memory) ''reserved-memory-sparkline'',
             hud_stat (Text parallelism) ''cpu-time-rate-sparkline'']]]) }"

section \<open>Laws\<close>

text \<open>Every chart has its element on the page.\<close>

lemma hud_charts_shown: "ClusterHUD_render s = Some v \<Longrightarrow> charts_shown (h_sparklines s) v"
  by (auto simp: ClusterHUD_render_def hud_stat_def hud_title_def charts_shown_def h_sparklines_def selects_def attr_ids_def split: bind_splits)

text \<open>The answers of a run, each with the two readings of the clock: when its rates are computed and when it is stored.\<close>

type_synonym hud_sample = "cluster_state \<times> int \<times> int"

fun samples :: "hud_event list \<Rightarrow> hud_sample list" where
  "samples [] = []"
| "samples (HudSuccess cs now1 now2 calls # es) = (cs, now1, now2) # samples es"
| "samples (_ # es) = samples es"

lemma samples_append: "samples (es @ fs) = samples es @ samples fs"
  by (induction es rule: samples.induct) auto

abbreviation ewma :: "jv list \<Rightarrow> jv list" where
  "ewma vs \<equiv> foldl (\<lambda>h v. addExponentiallyWeightedToHistory v h) [] vs"

text \<open>
  What a total grew by from one answer to the next, per second: the seconds from the storing of the first to the
  arrival of the second.
\<close>

definition rates :: "(cluster_state \<Rightarrow> cluster_state \<Rightarrow> jsnum) \<Rightarrow> hud_sample list \<Rightarrow> jv list" where
  "rates growth ss =
    map (\<lambda>((before, _, stored), (after, arrived, _)). JNum (js_div (growth before after) (js_div (num_int (arrived - stored)) (Fin 1000))))
      (zip ss (tl ss))"

definition row_growth :: "cluster_state \<Rightarrow> cluster_state \<Rightarrow> jsnum" where
  "row_growth before after = js_sub (cs_totalInputRows after) (cs_totalInputRows before)"

definition byte_growth :: "cluster_state \<Rightarrow> cluster_state \<Rightarrow> jsnum" where
  "byte_growth before after = js_sub (cs_totalInputBytes after) (cs_totalInputBytes before)"

definition worker_cpu_growth :: "cluster_state \<Rightarrow> cluster_state \<Rightarrow> jsnum" where
  "worker_cpu_growth before after = js_div (js_sub (cs_totalCpuTimeSecs after) (cs_totalCpuTimeSecs before)) (cs_activeWorkers after)"

lemma zip_tl_snoc: "xs \<noteq> [] \<Longrightarrow> zip (xs @ [x]) (tl (xs @ [x])) = zip xs (tl xs) @ [(last xs, x)]"
  by (induction xs rule: induct_list012) simp_all

lemma rates_simps: "rates growth [] = []" "rates growth [x] = []"
  by (simp_all add: rates_def)

lemma rates_snoc:
  "ss \<noteq> [] \<Longrightarrow> last ss = (before, t, stored) \<Longrightarrow> rates growth (ss @ [(after, arrived, u)]) =
    rates growth ss @ [JNum (js_div (growth before after) (js_div (num_int (arrived - stored)) (Fin 1000)))]"
  using zip_tl_snoc[of ss "(after, arrived, u)"] unfolding rates_def by simp

text \<open>The histories of a state as functions of the answers received so far.\<close>

definition hud_history :: "hud_sample list \<Rightarrow> cluster_hud \<Rightarrow> bool" where
  "hud_history ss s \<longleftrightarrow>
     h_runningQueries s = window (map (JNum \<circ> cs_runningQueries \<circ> fst) ss)
   \<and> h_queuedQueries s = window (map (JNum \<circ> cs_queuedQueries \<circ> fst) ss)
   \<and> h_blockedQueries s = window (map (JNum \<circ> cs_blockedQueries \<circ> fst) ss)
   \<and> h_activeWorkers s = window (map (JNum \<circ> cs_activeWorkers \<circ> fst) ss)
   \<and> h_runningDrivers s = ewma (map (JNum \<circ> cs_runningDrivers \<circ> fst) ss)
   \<and> h_reservedMemory s = ewma (map (JNum \<circ> cs_reservedMemory \<circ> fst) ss)
   \<and> h_rowInputRate s = ewma (rates row_growth ss)
   \<and> h_byteInputRate s = ewma (rates byte_growth ss)
   \<and> h_perWorkerCpuTimeRate s = ewma (rates worker_cpu_growth ss)"

text \<open>What the next answer is compared with.\<close>

definition hud_last :: "hud_sample list \<Rightarrow> cluster_hud \<Rightarrow> bool" where
  "hud_last ss s \<longleftrightarrow>
    (if ss = [] then h_lastRefresh s = None
     else case last ss of (cs, _, stored) \<Rightarrow> h_lastRefresh s = Some stored \<and> h_lastInputRows s = JNum (cs_totalInputRows cs)
       \<and> h_lastInputBytes s = JNum (cs_totalInputBytes cs) \<and> h_lastCpuTime s = JNum (cs_totalCpuTimeSecs cs))"

abbreviation hud_inv :: "hud_sample list \<Rightarrow> cluster_hud \<Rightarrow> bool" where
  "hud_inv ss s \<equiv> hud_history ss s \<and> hud_last ss s"

lemma hud_inv_update:
  "hud_inv ss (s\<lparr> h_timeout := t \<rparr>) = hud_inv ss s"
  "hud_inv ss (s\<lparr> h_requests := n \<rparr>) = hud_inv ss s"
  "hud_inv ss (s\<lparr> h_drawn := d \<rparr>) = hud_inv ss s"
  "hud_inv ss (s\<lparr> h_lastRender := r \<rparr>) = hud_inv ss s"
  by (simp_all add: hud_history_def hud_last_def)

lemma hud_inv_didUpdate: "hud_inv ss (h_componentDidUpdate calls s) = hud_inv ss s"
  by (induction calls s rule: h_componentDidUpdate.induct) (simp_all add: hud_history_def hud_last_def)

lemma hud_inv_setState:
  assumes "hud_inv ss s"
  shows "hud_inv (ss @ [(cs, now1, now2)]) (h_setState cs now1 now2 s)"
proof (cases "ss = []")
  case True
  then show ?thesis using assms
    by (simp add: hud_history_def hud_last_def h_setState_def new_rates_def rates_simps addToHistory_window_snoc[of _ "[]", simplified])
next
  case False
  obtain before t stored where l: "last ss = (before, t, stored)" by (cases "last ss")
  show ?thesis using assms False l
    by (simp add: hud_history_def hud_last_def h_setState_def new_rates_def Let_def secsSinceRefresh_def rates_snoc
        row_growth_def byte_growth_def worker_cpu_growth_def addToHistory_window_snoc)
qed

lemma hud_inv_step:
  assumes "hud_inv ss s" "hud_exec e s = Some s'"
  shows "hud_inv (ss @ samples [e]) s'"
proof (cases e)
  case (HudSuccess cs now1 now2 calls)
  then have "s' = h_onSuccess cs now1 now2 calls (s\<lparr> h_requests := h_requests s - 1 \<rparr>)"
    using assms(2) by (auto split: if_splits)
  moreover have "hud_inv ss (s\<lparr> h_requests := h_requests s - 1 \<rparr>)" using assms(1) by (simp add: hud_inv_update)
  ultimately show ?thesis using HudSuccess
    by (simp add: h_onSuccess_def h_resetTimer_def hud_inv_update hud_inv_didUpdate hud_inv_setState)
qed (use assms in \<open>auto simp: h_refreshLoop_def h_resetTimer_def hud_history_def hud_last_def split: if_splits\<close>)

lemma hud_inv_run:
  "exec_all hud_exec es s = Some s' \<Longrightarrow> hud_inv ss s \<Longrightarrow> hud_inv (ss @ samples es) s'"
proof (induction es arbitrary: s ss)
  case (Cons e es)
  then obtain s1 where s1: "hud_exec e s = Some s1" "exec_all hud_exec es s1 = Some s'" by auto
  from Cons.IH[OF s1(2) hud_inv_step[OF Cons.prems(2) s1(1)]] show ?case using samples_append[of "[e]" es] by simp
qed simp

fun hud_kind :: "hud_event \<Rightarrow> poll_kind" where
  "hud_kind (HudTimer i) = Fires i"
| "hud_kind _ = Answers"

lemma didUpdate_poll [simp]:
  "h_timeout (h_componentDidUpdate calls s) = h_timeout s" "h_requests (h_componentDidUpdate calls s) = h_requests s"
  by (induction calls s rule: h_componentDidUpdate.induct) simp_all

lemma setState_poll [simp]:
  "h_timeout (h_setState cs now1 now2 s) = h_timeout s" "h_requests (h_setState cs now1 now2 s) = h_requests s"
  by (simp_all add: h_setState_def split_beta Let_def)

interpretation hud_loop: polled hud_exec hud_kind "\<lambda>_. True" h_timeout h_requests "\<lambda>_. True" "\<lambda>_. 1000"
  "\<lambda>s. s = ClusterHUD_mount" "\<lambda>_. True"
proof
  fix s s' :: cluster_hud and e i
  show "hud_exec e s = Some s' \<Longrightarrow> hud_kind e = Fires i \<Longrightarrow>
      (\<exists>t. fireTimeout i (h_timeout s) = Some t \<and> h_timeout s' = clearTimeout t)
      \<and> h_requests s' = Suc (h_requests s) \<and> True = True"
    by (cases e) (auto simp: h_refreshLoop_def)
  show "hud_exec e s = Some s' \<Longrightarrow> hud_kind e = Answers \<Longrightarrow>
      h_requests s = Suc (h_requests s') \<and> h_timeout s' =
      (if True then setTimeout 1000 (clearTimeout (h_timeout s)) else clearTimeout (h_timeout s))"
    by (cases e) (auto simp: h_resetTimer_def h_onSuccess_def split: if_splits)
  show "fireTimeout i (h_timeout s) \<noteq> None \<Longrightarrow> \<exists>e. True \<and> hud_kind e = Fires i \<and> hud_exec e s \<noteq> None"
    by (rule exI[of _ "HudTimer i"]) auto
  show "0 < h_requests s \<Longrightarrow> \<exists>e. True \<and> hud_kind e = Answers \<and> hud_exec e s \<noteq> None"
    by (rule exI[of _ HudError]) simp
  show "hud_exec e s = Some s' \<Longrightarrow> hud_kind e = Quiet \<Longrightarrow>
      h_timeout s' = h_timeout s \<and> h_requests s' = h_requests s \<and> True = True"
    by (cases e) auto
qed (auto simp: ClusterHUD_mount_def h_refreshLoop_def ClusterHUD_init_def)

text \<open>
  C31. The overview after any run of timers, answers and failed requests.  The four instantaneous histories
  are the last 301 values of the answers received, and the two smoothed ones their moving averages.  The three
  rate histories are the moving averages of what rows, bytes and the processor time per active worker grew by
  between one answer and the next, divided by the seconds between the two.  The refresh loop is one series
  that can go on.
\<close>

theorem cluster_hud_run:
  assumes "exec_all hud_exec es ClusterHUD_mount = Some s"
  shows "hud_history (samples es) s \<and> one_series (h_timeout s) (h_requests s) True
    \<and> (\<exists>e. hud_kind e \<noteq> Quiet \<and> hud_exec e s \<noteq> None)"
proof -
  have "hud_inv [] ClusterHUD_mount"
    by (simp add: hud_history_def hud_last_def ClusterHUD_mount_def h_refreshLoop_def ClusterHUD_init_def rates_simps)
  from hud_inv_run[OF assms this] have h: "hud_history (samples es) s" by simp
  have ok: "list_all (\<lambda>_. True) es" by (simp add: list_all_iff)
  from hud_loop.one_series_run[OF refl assms ok] hud_loop.never_stuck[OF refl assms ok] h
  show ?thesis by blast
qed

definition example_cluster :: "int \<Rightarrow> cluster_state" where
  "example_cluster n =
    \<lparr> cs_runningQueries = num_int n, cs_queuedQueries = Fin 0, cs_blockedQueries = Fin 1, cs_activeWorkers = Fin 4,
      cs_runningDrivers = Fin 12, cs_reservedMemory = Fin 1048576, cs_totalInputRows = num_int (1000 * n),
      cs_totalInputBytes = num_int (4096 * n), cs_totalCpuTimeSecs = num_int (2 * n) \<rparr>"

theorem cluster_hud_run_witness:
  "\<exists>s. exec_all hud_exec [HudSuccess (example_cluster 1) 1000 1000 [(1000, 1000)], HudTimer 0, HudError, HudTimer 1,
        HudSuccess (example_cluster 2) 3000 3000 [(3000, 3000)]] ClusterHUD_mount = Some s
     \<and> h_runningQueries s = [JNum (Fin 1), JNum (Fin 2)] \<and> h_rowInputRate s = [JNum (Fin 500)] \<and> h_byteInputRate s = [JNum (Fin 2048)]
     \<and> h_perWorkerCpuTimeRate s = [JNum (Fin (1 / 4))]"
proof -
  let ?es = "[HudSuccess (example_cluster 1) 1000 1000 [(1000, 1000)], HudTimer 0, HudError, HudTimer 1,
        HudSuccess (example_cluster 2) 3000 3000 [(3000, 3000)]]"
  have "exec_all hud_exec ?es ClusterHUD_mount \<noteq> None" by code_simp
  then obtain s where s: "exec_all hud_exec ?es ClusterHUD_mount = Some s" by blast
  have r: "ewma (rates row_growth (samples ?es)) = [JNum (Fin 500)]" "ewma (rates byte_growth (samples ?es)) = [JNum (Fin 2048)]"
    "ewma (rates worker_cpu_growth (samples ?es)) = [JNum (Fin (1 / 4))]" by code_simp+
  have "window (map (JNum \<circ> cs_runningQueries \<circ> fst) (samples ?es)) = [JNum (Fin 1), JNum (Fin 2)]"
    by (simp add: window_def example_cluster_def)
  then show ?thesis using s conjunct1[OF cluster_hud_run[OF s], unfolded hud_history_def r] by (intro exI[of _ s]) simp
qed

text \<open>The rates never go below zero while the totals grow and the clock advances.\<close>

lemma js_div_nonneg:
  assumes "js_le (Fin 0) x" "0 < b"
  shows "js_le (Fin 0) (js_div x (Fin b))"
proof (cases x)
  case (Fin a)
  then show ?thesis using assms fl_nonneg[of "a / b"] by (auto simp: js_le_def)
qed (use assms in \<open>auto simp: js_le_def\<close>)

lemma secsSinceRefresh_pos:
  assumes "t < now" "now - t \<le> 2 ^ 53"
  shows "\<exists>b > 0. secsSinceRefresh now t = Fin b"
proof -
  define d :: rat where "d = of_int (now - t)"
  have d: "1 \<le> d" "d \<le> 2 ^ 53" unfolding d_def
    using assms(1) of_int_le_iff[where 'a = rat, of "now - t" "2 ^ 53"] assms(2) by simp_all
  have "2 powi (- 10) \<le> rnd (d / 1000)"
    using d dbl_powi[of "- 10"] by (intro rnd_ge_dbl) (simp_all add: power_int_minus)
  then have pos: "0 < rnd (d / 1000)" by (simp add: power_int_minus)
  have "rnd (d / 1000) \<le> 2 ^ 53" using d dbl_of_int[of "2 ^ 53"] by (intro rnd_le_dbl) auto
  also have "(2::rat) ^ 53 < huge" by (rule power_less_huge) simp
  finally have "fl (d / 1000) = Fin (rnd (d / 1000))" using pos huge_pos by (simp add: fl_def Let_def)
  moreover have "secsSinceRefresh now t = fl (d / 1000)" by (simp add: secsSinceRefresh_def d_def)
  ultimately show ?thesis using pos by auto
qed

text \<open>
  While the totals do not shrink, the clock advances and a worker is active, the three rate
  histories stay free of negative values and of \<open>NaN\<close>.
\<close>

theorem new_rates_nonneg:
  assumes "h_lastRefresh s = Some t" "t < now" "now - t \<le> 2 ^ 53"
    and "to_num (h_lastInputRows s) = Fin r0" "cs_totalInputRows cs = Fin r1" "r0 \<le> r1"
    and "to_num (h_lastInputBytes s) = Fin b0" "cs_totalInputBytes cs = Fin b1" "b0 \<le> b1"
    and "to_num (h_lastCpuTime s) = Fin c0" "cs_totalCpuTimeSecs cs = Fin c1" "c0 \<le> c1"
    and "cs_activeWorkers cs = Fin w" "0 < w"
    and "list_all nonneg_jv (h_rowInputRate s)" "list_all nonneg_jv (h_byteInputRate s)"
      "list_all nonneg_jv (h_perWorkerCpuTimeRate s)"
  shows "\<exists>rows bytes cpu. new_rates cs now s = (rows, bytes, cpu)
    \<and> list_all nonneg_jv rows \<and> list_all nonneg_jv bytes \<and> list_all nonneg_jv cpu"
proof -
  obtain b where b: "0 < b" "secsSinceRefresh now t = Fin b" using secsSinceRefresh_pos[OF assms(2,3)] by blast
  have "js_le (Fin 0) (js_sub (Fin y) (Fin x))" if "x \<le> y" for x y
    using that fl_nonneg[of "y - x"] by (simp add: js_sub_def)
  note d = this[OF assms(6)] this[OF assms(9)] this[OF assms(12)]
  have "nonneg_jv (JNum (js_div (js_sub (Fin r1) (Fin r0)) (Fin b)))"
    "nonneg_jv (JNum (js_div (js_sub (Fin b1) (Fin b0)) (Fin b)))"
    "nonneg_jv (JNum (js_div (js_div (js_sub (Fin c1) (Fin c0)) (Fin w)) (Fin b)))"
    using d b(1) assms(14) by (simp_all add: js_div_nonneg del: js_div.simps)
  then show ?thesis using assms b(2)
    by (simp add: new_rates_def Let_def addExponentiallyWeightedToHistory_nonneg del: nonneg_jv.simps js_div.simps)
qed

theorem new_rates_nonneg_witness:
  "\<exists>rows bytes cpu. new_rates (example_cluster 2) 2000 (h_setState (example_cluster 1) 1000 1000 ClusterHUD_init) = (rows, bytes, cpu)
    \<and> list_all nonneg_jv rows \<and> list_all nonneg_jv bytes \<and> list_all nonneg_jv cpu"
  by (rule new_rates_nonneg[where t = 1000 and ?r0.0 = 1000 and ?r1.0 = 2000 and ?b0.0 = 4096 and ?b1.0 = 8192
        and ?c0.0 = 2 and ?c1.0 = 4 and w = 4])
    (simp_all add: h_setState_def new_rates_def ClusterHUD_init_def example_cluster_def)

text \<open>Before the first response the overview shows \<open>NaN\<close> for the five formatted statistics.\<close>

lemma ClusterHUD_initial_NaN:
  "map_option (\<lambda>n. inner_text (n :: (unit, unit) vnode)) (ClusterHUD_render ClusterHUD_init) =
    Some (''Running queriesActive workersRows/secLoading ...Loading ...NaNLoading ...'' @
      ''Queued queriesRunnable driversBytes/secLoading ...NaNLoading ...NaNLoading ...'' @
      ''Blocked QueriesReserved Memory (B)Worker ParallelismLoading ...NaNLoading ...NaNLoading ...'')"
  by code_simp

end
