(* ===== verification/PageTitle.thy ===== *)
theory PageTitle
  imports Utils Polling
begin

text \<open>
  \<^verbatim>\<open>src/components/PageTitle.jsx\<close>: the title bar with the status light, which asks for the node's
  information every second and opens a dialog when the server does not answer.
\<close>

record node_info =
  ni_version :: string
  ni_environment :: string
  ni_uptime :: string

text \<open>What a promise is rejected with: \<open>fetch\<close> and \<open>json()\<close> reject with error objects.\<close>

datatype caught = ErrorObject (error_text: string) | FalsyValue

record page_title =
  noConnection :: bool
  lightShown :: bool
  pt_info :: "node_info option"
  lastSuccess :: int
  modalShown :: bool
  pt_errorText :: "string option"
  modal_open :: bool
  pt_timeout :: timer
  pt_requests :: nat

definition PageTitle_init :: "int \<Rightarrow> page_title" where
  "PageTitle_init now =
    \<lparr> noConnection = False, lightShown = False, pt_info = None, lastSuccess = now, modalShown = False,
      pt_errorText = None, modal_open = False, pt_timeout = no_timer, pt_requests = 0 \<rparr>"

definition pt_resetTimer :: "page_title \<Rightarrow> page_title" where
  "pt_resetTimer s = s\<lparr> pt_timeout := setTimeout 1000 (clearTimeout (pt_timeout s)) \<rparr>"

definition pt_refreshLoop :: "page_title \<Rightarrow> page_title" where
  "pt_refreshLoop s = s\<lparr> pt_timeout := clearTimeout (pt_timeout s), pt_requests := Suc (pt_requests s) \<rparr>"

text \<open>The handler of a response; the dialog is hidden.\<close>

definition pt_onInfo :: "node_info \<Rightarrow> int \<Rightarrow> page_title \<Rightarrow> page_title" where
  "pt_onInfo info now s =
    pt_resetTimer (s\<lparr> pt_info := Some info, noConnection := False, lastSuccess := now, modalShown := False,
                      modal_open := False \<rparr>)"

text \<open>
  The handler of a failure.  The element of the dialog is on the page only once there is an \<open>info\<close>;
  before that the plugin is called on an empty selection and does nothing.
\<close>

definition pt_onFailure :: "caught \<Rightarrow> int \<Rightarrow> page_title \<Rightarrow> page_title" where
  "pt_onFailure e now s0 =
    (let s = pt_resetTimer (s0\<lparr> noConnection := True, lightShown := \<not> lightShown s0,
               pt_errorText := (case e of ErrorObject t \<Rightarrow> Some t | FalsyValue \<Rightarrow> None) \<rparr>)
     in if \<not> modalShown s \<and> (e \<noteq> FalsyValue \<or> 30 * 1000 < now - lastSuccess s)
        then s\<lparr> modal_open := (modal_open s \<or> pt_info s \<noteq> None), modalShown := True \<rparr> else s)"

definition PageTitle_mount :: "int \<Rightarrow> page_title" where
  "PageTitle_mount now = pt_refreshLoop (PageTitle_init now)"

datatype pt_event = TitleTimer nat | TitleInfo node_info int | TitleFailure caught int

fun pt_exec :: "pt_event \<Rightarrow> page_title \<Rightarrow> page_title option" where
  "pt_exec (TitleTimer i) s = do { t \<leftarrow> fireTimeout i (pt_timeout s); Some (pt_refreshLoop (s\<lparr> pt_timeout := t \<rparr>)) }"
| "pt_exec (TitleInfo info now) s =
    (if 0 < pt_requests s then Some (pt_onInfo info now (s\<lparr> pt_requests := pt_requests s - 1 \<rparr>)) else None)"
| "pt_exec (TitleFailure e now) s =
    (if 0 < pt_requests s then Some (pt_onFailure e now (s\<lparr> pt_requests := pt_requests s - 1 \<rparr>)) else None)"

section \<open>View\<close>

definition renderStatusLight :: "page_title \<Rightarrow> ('h, 'c) vnode" where
  "renderStatusLight s =
    (if noConnection s
     then (if lightShown s then Elem ''span'' [className ''status-light status-light-red'', attr ''id'' ''status-indicator''] []
           else Elem ''span'' [className ''status-light'', attr ''id'' ''status-indicator''] [])
     else Elem ''span'' [className ''status-light status-light-green'', attr ''id'' ''status-indicator''] [])"

definition cluster_info_item :: "string \<Rightarrow> ('h, 'c) vnode list \<Rightarrow> ('h, 'c) vnode" where
  "cluster_info_item label v =
    el ''li'' [elc ''span'' ''navbar-cluster-info'' ([elc ''span'' ''uppercase'' [Text label], el ''br'' []] @ v)]"

definition PageTitle_render :: "string \<Rightarrow> page_title \<Rightarrow> ('h, 'c) vnode" where
  "PageTitle_render title s =
    (case pt_info s of
       None \<Rightarrow> Nothing
     | Some info \<Rightarrow>
         el ''div''
           [elc ''nav'' ''navbar''
             [divc ''container-fluid''
               [divc ''navbar-header''
                 [el ''table'' [el ''tbody'' [el ''tr''
                   [el ''td'' [Elem ''a'' [attr ''href'' ''/ui/''] [Elem ''img'' [attr ''src'' ''assets/logo.png''] []]],
                    el ''td'' [elc ''span'' ''navbar-brand'' [Text title]]]]]],
                Elem ''div'' [attr ''id'' ''navbar'', className ''navbar-collapse collapse'']
                 [elc ''ul'' ''nav navbar-nav navbar-right''
                   [cluster_info_item ''Version''
                      [Elem ''span'' [className ''text uppercase'', attr ''id'' ''version-number''] [Text (ni_version info)]],
                    cluster_info_item ''Environment''
                      [Elem ''span'' [className ''text uppercase'', attr ''id'' ''environment''] [Text (ni_environment info)]],
                    cluster_info_item ''Uptime''
                      [Elem ''span'' [attr ''data-toggle'' ''tooltip'', attr ''data-placement'' ''bottom'', attr ''title'' ''Connection status'']
                        [renderStatusLight s],
                       Text nbsp,
                       Elem ''span'' [className ''text'', attr ''id'' ''uptime''] [Text (ni_uptime info)]]]]]],
            Elem ''div'' [attr ''id'' ''no-connection-modal'', className ''modal'', attr ''tabIndex'' ''-1'', attr ''role'' ''dialog'']
             [Elem ''div'' [className ''modal-dialog modal-sm'', attr ''role'' ''document'']
               [divc ''modal-content''
                 [divc ''row error-message''
                   [divc ''col-xs-12''
                     [el ''br'' [], el ''h4'' [Text ''Unable to connect to server''],
                      el ''p'' [case pt_errorText s of None \<Rightarrow> Nothing | Some t \<Rightarrow> Text (''Error: '' @ t)]]]]]]])"

section \<open>Laws\<close>

fun pt_kind :: "pt_event \<Rightarrow> poll_kind" where
  "pt_kind (TitleTimer i) = Fires i"
| "pt_kind _ = Answers"

interpretation title_loop: polled pt_exec pt_kind "\<lambda>_. True" pt_timeout pt_requests "\<lambda>_. True" "\<lambda>_. 1000"
  "\<lambda>s. \<exists>now. s = PageTitle_mount now" "\<lambda>_. True"
proof
  fix s s' :: page_title and e i
  show "pt_exec e s = Some s' \<Longrightarrow> pt_kind e = Fires i \<Longrightarrow>
      (\<exists>t. fireTimeout i (pt_timeout s) = Some t \<and> pt_timeout s' = clearTimeout t)
      \<and> pt_requests s' = Suc (pt_requests s) \<and> True = True"
    by (cases e) (auto simp: pt_refreshLoop_def)
  show "pt_exec e s = Some s' \<Longrightarrow> pt_kind e = Answers \<Longrightarrow>
      pt_requests s = Suc (pt_requests s') \<and> pt_timeout s' =
      (if True then setTimeout 1000 (clearTimeout (pt_timeout s)) else clearTimeout (pt_timeout s))"
    by (cases e) (auto simp: pt_resetTimer_def pt_onInfo_def pt_onFailure_def Let_def split: if_splits)
  show "fireTimeout i (pt_timeout s) \<noteq> None \<Longrightarrow> \<exists>e. True \<and> pt_kind e = Fires i \<and> pt_exec e s \<noteq> None"
    by (rule exI[of _ "TitleTimer i"]) auto
  show "0 < pt_requests s \<Longrightarrow> \<exists>e. True \<and> pt_kind e = Answers \<and> pt_exec e s \<noteq> None"
    by (rule exI[of _ "TitleFailure FalsyValue 0"]) simp
  show "pt_exec e s = Some s' \<Longrightarrow> pt_kind e = Quiet \<Longrightarrow>
      pt_timeout s' = pt_timeout s \<and> pt_requests s' = pt_requests s \<and> True = True"
    by (cases e) auto
qed (auto simp: PageTitle_mount_def pt_refreshLoop_def PageTitle_init_def)

text \<open>The dialog is open only while the connection is lost and after it was asked for.\<close>

definition pt_wf :: "page_title \<Rightarrow> bool" where
  "pt_wf s \<longleftrightarrow> (modal_open s \<longrightarrow> modalShown s \<and> pt_info s \<noteq> None) \<and> (modalShown s \<longrightarrow> noConnection s)"

lemma pt_wf_step: "pt_wf s \<Longrightarrow> pt_exec e s = Some s' \<Longrightarrow> pt_wf s'"
  by (cases e) (auto simp: pt_wf_def pt_refreshLoop_def pt_resetTimer_def pt_onInfo_def pt_onFailure_def Let_def
      split: if_splits)

text \<open>The connection state is the outcome of the last answer.\<close>

fun last_failed :: "bool \<Rightarrow> pt_event list \<Rightarrow> bool" where
  "last_failed b [] = b"
| "last_failed b (TitleInfo info now # es) = last_failed False es"
| "last_failed b (TitleFailure e now # es) = last_failed True es"
| "last_failed b (TitleTimer i # es) = last_failed b es"

lemma noConnection_run: "exec_all pt_exec es s = Some s' \<Longrightarrow> noConnection s' = last_failed (noConnection s) es"
proof (induction es arbitrary: s)
  case (Cons e es)
  then obtain s1 where s1: "pt_exec e s = Some s1" "exec_all pt_exec es s1 = Some s'" by auto
  have "noConnection s1 = last_failed (noConnection s) [e]" using s1(1)
    by (cases e) (auto simp: pt_refreshLoop_def pt_resetTimer_def pt_onInfo_def pt_onFailure_def Let_def split: if_splits)
  then show ?case using Cons.IH[OF s1(2)] by (cases e) auto
qed simp

text \<open>
  C32. The title bar after any run: the light is green exactly when the last answer was not a
  failure, the dialog is open only while the connection is lost, and polling goes on as one series.
\<close>

theorem page_title_run:
  assumes "exec_all pt_exec es (PageTitle_mount now) = Some s"
  shows "(renderStatusLight s = Elem ''span'' [className ''status-light status-light-green'', attr ''id'' ''status-indicator''] []
      \<longleftrightarrow> \<not> last_failed False es)
    \<and> (modal_open s \<longrightarrow> noConnection s) \<and> one_series (pt_timeout s) (pt_requests s) True"
proof -
  have ok: "list_all (\<lambda>_. True) es" by (simp add: list_all_iff)
  have "pt_wf (PageTitle_mount now)" by (simp add: pt_wf_def PageTitle_mount_def pt_refreshLoop_def PageTitle_init_def)
  from exec_all_invariant[where I = pt_wf, OF assms ok this] have "pt_wf s" using pt_wf_step by blast
  moreover have "noConnection s = last_failed False es"
    using noConnection_run[OF assms] by (simp add: PageTitle_mount_def pt_refreshLoop_def PageTitle_init_def)
  ultimately show ?thesis using title_loop.one_series_run[OF _ assms ok]
    by (auto simp: pt_wf_def renderStatusLight_def)
qed

definition example_info :: node_info where
  "example_info = \<lparr> ni_version = ''303'', ni_environment = ''test'', ni_uptime = ''1.00h'' \<rparr>"

theorem page_title_run_witness:
  "\<exists>s. exec_all pt_exec [TitleInfo example_info 500, TitleTimer 0, TitleFailure (ErrorObject ''x'') 1500] (PageTitle_mount 0) = Some s
     \<and> modal_open s \<and> noConnection s"
proof -
  let ?es = "[TitleInfo example_info 500, TitleTimer 0, TitleFailure (ErrorObject ''x'') 1500]"
  have "map_option modal_open (exec_all pt_exec ?es (PageTitle_mount 0)) = Some True" by code_simp
  then obtain s where s: "exec_all pt_exec ?es (PageTitle_mount 0) = Some s" "modal_open s" by auto
  with page_title_run[OF s(1)] show ?thesis by blast
qed

text \<open>
  The dialog does not wait for 30 seconds without an answer: the first failure after a response
  opens it at once, since the error caught is an object and thus true; and when no response has ever
  arrived, failures never open it.
\<close>

theorem modal_on_failure:
  "modalShown (pt_onFailure (ErrorObject t) now s)
   \<and> modal_open (pt_onFailure (ErrorObject t) now (pt_onInfo info now' s))
   \<and> (pt_info s = None \<longrightarrow> modal_open (pt_onFailure e now s) = modal_open s)"
  by (simp add: pt_onFailure_def pt_onInfo_def pt_resetTimer_def Let_def)

theorem modal_on_failure_witness:
  "pt_info (PageTitle_init 0) = None \<and> \<not> modal_open (pt_onFailure (ErrorObject ''x'') 60000 (PageTitle_init 0))"
  using modal_on_failure[of t 0 "PageTitle_init 0" example_info 0 "ErrorObject ''x''"]
    modal_on_failure[of "''x''" 60000 "PageTitle_init 0" example_info 0 "ErrorObject ''x''"]
  by (simp add: PageTitle_init_def)

end
