(* ===== verification/WorkerStatus.thy ===== *)
theory WorkerStatus
  imports Charts Polling
begin

text \<open>
  \<^verbatim>\<open>src/components/WorkerStatus.jsx\<close>: the page of a worker, with its load histories and its memory
  pools.
\<close>

section \<open>Data and state\<close>

record memory_pool =
  mp_maxBytes :: jsnum
  mp_reservedBytes :: jsnum
  mp_reservedRevocableBytes :: jsnum
  mp_queryMemoryReservations :: "(string, jsnum) jsmap"
  mp_queryMemoryRevocableReservations :: "(string, jsnum) jsmap"

record server_info =
  si_nodeId :: string
  si_uptime :: string
  si_externalAddress :: string
  si_internalAddress :: string
  si_processors :: jsnum
  si_processCpuLoad :: jsnum
  si_systemCpuLoad :: jsnum
  si_heapUsed :: jsnum
  si_heapAvailable :: jsnum
  si_nonHeapUsed :: jsnum
  si_general :: "memory_pool option"
  si_reserved :: "memory_pool option"

record worker_status =
  ws_serverInfo :: "server_info option"
  ws_initialized :: bool
  ws_ended :: bool
  ws_processCpuLoad :: "jv list"
  ws_systemCpuLoad :: "jv list"
  ws_heapPercentUsed :: "jv list"
  ws_nonHeapUsed :: "jv list"
  ws_timeout :: timer
  ws_requests :: nat

definition WorkerStatus_init :: worker_status where
  "WorkerStatus_init =
    \<lparr> ws_serverInfo = None, ws_initialized = False, ws_ended = False, ws_processCpuLoad = [], ws_systemCpuLoad = [],
      ws_heapPercentUsed = [], ws_nonHeapUsed = [], ws_timeout = no_timer, ws_requests = 0 \<rparr>"

section \<open>Refreshing\<close>

text \<open>The state has no field \<open>query\<close>; the timer is armed again while \<open>ended\<close> is false.\<close>

definition ws_resetTimer :: "worker_status \<Rightarrow> worker_status" where
  "ws_resetTimer s =
    (let t = clearTimeout (ws_timeout s) in s\<lparr> ws_timeout := (if \<not> ws_ended s then setTimeout 1000 t else t) \<rparr>)"

text \<open>The address asked for; \<open>search\<close> is \<open>window.location.search\<close>.\<close>

definition worker_status_url :: "string \<Rightarrow> string" where
  "worker_status_url search = ''/v1/worker/'' @ getFirstParameter search @ ''/status''"

definition ws_refreshLoop :: "worker_status \<Rightarrow> worker_status" where
  "ws_refreshLoop s = s\<lparr> ws_timeout := clearTimeout (ws_timeout s), ws_requests := Suc (ws_requests s) \<rparr>"

definition percent :: "jsnum \<Rightarrow> jv" where
  "percent x = JNum (js_mul x (Fin 100))"

definition heap_percent :: "server_info \<Rightarrow> jv" where
  "heap_percent si = JNum (js_div (js_mul (si_heapUsed si) (Fin 100)) (si_heapAvailable si))"

definition ws_onSuccess :: "server_info \<Rightarrow> worker_status \<Rightarrow> worker_status" where
  "ws_onSuccess si s =
    ws_resetTimer (s\<lparr> ws_serverInfo := Some si, ws_initialized := True,
      ws_processCpuLoad := addToHistory (percent (si_processCpuLoad si)) (ws_processCpuLoad s),
      ws_systemCpuLoad := addToHistory (percent (si_systemCpuLoad si)) (ws_systemCpuLoad s),
      ws_heapPercentUsed := addToHistory (heap_percent si) (ws_heapPercentUsed s),
      ws_nonHeapUsed := addToHistory (percent (si_nonHeapUsed si)) (ws_nonHeapUsed s) \<rparr>)"

definition ws_onError :: "worker_status \<Rightarrow> worker_status" where
  "ws_onError s = ws_resetTimer (s\<lparr> ws_initialized := True \<rparr>)"

definition WorkerStatus_mount :: worker_status where
  "WorkerStatus_mount = ws_refreshLoop WorkerStatus_init"

datatype ws_event = StatusTimer nat | StatusSuccess server_info | StatusError

fun ws_exec :: "ws_event \<Rightarrow> worker_status \<Rightarrow> worker_status option" where
  "ws_exec (StatusTimer i) s = do { t \<leftarrow> fireTimeout i (ws_timeout s); Some (ws_refreshLoop (s\<lparr> ws_timeout := t \<rparr>)) }"
| "ws_exec (StatusSuccess si) s =
    (if 0 < ws_requests s then Some (ws_onSuccess si (s\<lparr> ws_requests := ws_requests s - 1 \<rparr>)) else None)"
| "ws_exec StatusError s =
    (if 0 < ws_requests s then Some (ws_onError (s\<lparr> ws_requests := ws_requests s - 1 \<rparr>)) else None)"

text \<open>The charts handed to the sparkline plugin after every update.\<close>

definition SMALL_SPARKLINE_PROPERTIES :: chart_properties where
  "SMALL_SPARKLINE_PROPERTIES =
    [(''width'', CvText ''100%''), (''height'', CvText ''57px''), (''fillColor'', CvText ''#3F4552''), (''lineColor'', CvText ''#747F96''),
     (''spotColor'', CvText ''#1EDCFF''), (''tooltipClassname'', CvText ''sparkline-tooltip''), (''disableHiddenCheck'', CvFlag True)]"

definition ws_componentDidUpdate :: "worker_status \<Rightarrow> sparkline list" where
  "ws_componentDidUpdate s =
    [sparkline ''#process-cpu-load-sparkline'' (ws_processCpuLoad s) SMALL_SPARKLINE_PROPERTIES
       [(''chartRangeMin'', CvNumber (Fin 0)), (''numberFormatter'', CvFormatter PrecisionRound)],
     sparkline ''#system-cpu-load-sparkline'' (ws_systemCpuLoad s) SMALL_SPARKLINE_PROPERTIES
       [(''chartRangeMin'', CvNumber (Fin 0)), (''numberFormatter'', CvFormatter PrecisionRound)],
     sparkline ''#heap-percent-used-sparkline'' (ws_heapPercentUsed s) SMALL_SPARKLINE_PROPERTIES
       [(''chartRangeMin'', CvNumber (Fin 0)), (''numberFormatter'', CvFormatter PrecisionRound)],
     sparkline ''#nonheap-used-sparkline'' (ws_nonHeapUsed s) SMALL_SPARKLINE_PROPERTIES
       [(''chartRangeMin'', CvNumber (Fin 0)), (''numberFormatter'', CvFormatter FormatDataSize)]]"

section \<open>Memory pools\<close>

definition percentageReservedNonRevocable :: "memory_pool \<Rightarrow> jsnum" where
  "percentageReservedNonRevocable p =
    (let d = js_sub (mp_reservedBytes p) (mp_reservedRevocableBytes p)
     in if js_eq d (Fin 0) then Fin 0
        else math_max (math_round (js_div (js_mul d (Fin 100)) (mp_maxBytes p))) (Fin 15))"

definition percentageRevocable :: "memory_pool \<Rightarrow> jsnum" where
  "percentageRevocable p =
    (if js_eq (mp_reservedRevocableBytes p) (Fin 0) then Fin 0
     else math_max (math_round (js_div (js_mul (mp_reservedRevocableBytes p) (Fin 100)) (mp_maxBytes p))) (Fin 15))"

definition percentageFree :: "memory_pool \<Rightarrow> jsnum" where
  "percentageFree p = js_sub (Fin 100) (js_add (percentageRevocable p) (percentageReservedNonRevocable p))"

definition pool_bar_part :: "string \<Rightarrow> string \<Rightarrow> ('h, 'c) vnode list \<Rightarrow> ('h, 'c) vnode" where
  "pool_bar_part classes width label =
    Elem ''div'' [className (''progress-bar memory-progress-bar '' @ classes), attr ''role'' ''progressbar'', style_attr [(''width'', width)]] label"

definition renderPoolBar :: "string \<Rightarrow> memory_pool option \<Rightarrow> ('h, 'c) vnode throws" where
  "renderPoolBar name pool =
    (case pool of
       None \<Rightarrow> Some Nothing
     | Some p \<Rightarrow>
         do {
           total \<leftarrow> formatDataSize (JNum (mp_maxBytes p));
           nonRevocable \<leftarrow> formatDataSize (JNum (js_sub (mp_reservedBytes p) (mp_reservedRevocableBytes p)));
           revocable \<leftarrow> formatDataSize (JNum (mp_reservedRevocableBytes p));
           free \<leftarrow> formatDataSize (JNum (js_sub (mp_maxBytes p) (mp_reservedBytes p)));
           Some (divc ''row''
             [divc ''col-xs-12''
               [divc ''row''
                 [divc ''col-xs-8'' [el ''h4'' [Text name, Text '' Pool'']],
                  divc ''col-xs-4''
                   [Elem ''div'' [className ''progress'', style_attr [(''marginTop'', ''6px'')]]
                     [pool_bar_part ''memory-progress-bar-info'' ''100%'' [Text total, Text '' total'']]]],
                divc ''row''
                 [divc ''col-xs-12''
                   [elc ''hr'' ''h4-hr'' [],
                    divc ''progress''
                     [pool_bar_part ''progress-bar-warning progress-bar-striped active''
                        (num_to_string (percentageReservedNonRevocable p) @ ''%'') [Text nonRevocable],
                      pool_bar_part ''progress-bar-danger progress-bar-striped active''
                        (num_to_string (percentageRevocable p) @ ''%'') [Text revocable],
                      pool_bar_part ''progress-bar-success'' (num_to_string (percentageFree p) @ ''%'') [Text free]]]]]]) })"

definition renderPoolQuery :: "string \<Rightarrow> jsnum \<Rightarrow> jsnum \<Rightarrow> jsnum \<Rightarrow> ('h, 'c) vnode throws" where
  "renderPoolQuery qid reserved revocable totalBytes =
    do {
      r \<leftarrow> formatDataSize (JNum reserved);
      v \<leftarrow> formatDataSize (JNum revocable);
      Some (el ''tr'' [el ''td''
        [divc ''row query-memory-list-header''
          [divc ''col-xs-7'' [Elem ''a'' [attr ''href'' (''query.html?'' @ qid), attr ''target'' ''_blank''] [Text qid]],
           divc ''col-xs-5''
            [divc ''row text-right''
              [divc ''col-xs-6''
                [Elem ''span'' [attr ''data-toggle'' ''tooltip'', attr ''data-placement'' ''top'', attr ''title'' ''% of pool memory reserved'']
                  [Number (JNum (math_round (js_div (js_mul reserved (Fin 100)) totalBytes))), Text ''%'']],
               divc ''col-xs-6''
                [Elem ''span'' [attr ''data-toggle'' ''tooltip'', attr ''data-placement'' ''top'',
                    attr ''title'' (''Reserved: '' @ r @ ''. Revocable: '' @ v)] [Text r]]]]]]]) }"

text \<open>The two reservations of every query of the pool.\<close>

definition pool_queries :: "memory_pool \<Rightarrow> (string, jsnum \<times> jsnum) jsmap" where
  "pool_queries p =
    (let reservations = mp_queryMemoryReservations p;
         revocableReservations = mp_queryMemoryRevocableReservations p;
         queries = foldl (\<lambda>m q. map_set q (the (map_get reservations q), Fin 0) m) [] (own_keys reservations)
     in foldl (\<lambda>m q. case map_get m q of
           Some (r, _) \<Rightarrow> map_set q (r, the (map_get revocableReservations q)) m
         | None \<Rightarrow> map_set q (Fin 0, the (map_get revocableReservations q)) m) queries (own_keys revocableReservations))"

definition renderPoolQueries :: "memory_pool option \<Rightarrow> ('h, 'c) vnode throws" where
  "renderPoolQueries pool =
    (case pool of
       None \<Rightarrow> Some Nothing
     | Some p \<Rightarrow>
         (let queries = pool_queries p
          in if length (own_keys queries) = 0
             then Some (el ''div'' [elc ''table'' ''table table-condensed'' [el ''tbody'' [el ''tr'' [el ''td'' [Text ''No queries using pool'']]]]])
             else do {
               rows \<leftarrow> mapM (\<lambda>key. renderPoolQuery key (fst (the (map_get queries key))) (snd (the (map_get queries key))) (mp_maxBytes p))
                         (own_keys queries);
               Some (el ''div'' [elc ''table'' ''table'' [el ''tbody'' [Fragment rows]]]) }))"

section \<open>View\<close>

definition ws_copy_button :: "string \<Rightarrow> ('h, 'c) vnode" where
  "ws_copy_button target =
    Elem ''a'' [attr ''href'' ''#'', className ''copy-button'', attr ''data-clipboard-target'' target, attr ''data-toggle'' ''tooltip'',
        attr ''data-placement'' ''right'', attr ''title'' ''Copy to clipboard'']
      [Elem ''span'' [className ''glyphicon glyphicon-copy'', attr ''alt'' ''Copy to clipboard''] []]"

definition ws_info_row :: "string \<Rightarrow> ('h, 'c) vnode list \<Rightarrow> ('h, 'c) vnode" where
  "ws_info_row title v = el ''tr'' [elc ''td'' ''info-title'' [Text title], elc ''td'' ''info-text wrap-text'' v]"

definition ws_span :: "string \<Rightarrow> ('h, 'c) vnode \<Rightarrow> ('h, 'c) vnode" where
  "ws_span i v = Elem ''span'' [attr ''id'' i] [v]"

definition ws_sparkline_rows :: "string \<Rightarrow> string \<Rightarrow> ('h, 'c) vnode list \<Rightarrow> ('h, 'c) vnode list" where
  "ws_sparkline_rows title sparklineId v =
    [el ''tr'' [elc ''td'' ''info-title'' [Text title],
       Elem ''td'' [attr ''rowSpan'' ''2'']
         [divc ''query-stats-sparkline-container''
           [Elem ''span'' [className ''sparkline'', attr ''id'' sparklineId] [divc ''loader'' [Text ''Loading ...'']]]]],
     elc ''tr'' ''tr-noborder'' [elc ''td'' ''info-sparkline-text'' v]]"

definition ws_overview :: "server_info \<Rightarrow> ('h, 'c) vnode throws" where
  "ws_overview si =
    do {
      heap \<leftarrow> formatDataSize (JNum (si_heapAvailable si));
      Some (divc ''row''
        [divc ''col-xs-6'' [elc ''table'' ''table'' [el ''tbody''
          [ws_info_row ''Node ID'' [ws_span ''node-id'' (Text (si_nodeId si)), Text (nbsp @ nbsp), ws_copy_button ''#node-id''],
           ws_info_row ''Heap Memory'' [ws_span ''internal-address'' (Text heap)],
           ws_info_row ''Processors'' [ws_span ''internal-address'' (Number (JNum (si_processors si)))]]]],
         divc ''col-xs-6'' [elc ''table'' ''table'' [el ''tbody''
          [ws_info_row ''Uptime'' [Text (si_uptime si)],
           ws_info_row ''External Address'' [ws_span ''external-address'' (Text (si_externalAddress si)), Text (nbsp @ nbsp), ws_copy_button ''#external-address''],
           ws_info_row ''Internal Address'' [ws_span ''internal-address'' (Text (si_internalAddress si)), Text (nbsp @ nbsp), ws_copy_button ''#internal-address'']]]]]) }"

definition ws_utilization :: "worker_status \<Rightarrow> ('h, 'c) vnode throws" where
  "ws_utilization s =
    do {
      process \<leftarrow> formatCount (last_num (ws_processCpuLoad s));
      system \<leftarrow> formatCount (last_num (ws_systemCpuLoad s));
      heap \<leftarrow> formatCount (last_num (ws_heapPercentUsed s));
      nonheap \<leftarrow> formatDataSize (last_num (ws_nonHeapUsed s));
      Some (divc ''row''
        [divc ''col-xs-12''
          [el ''h3'' [Text ''Resource Utilization''], elc ''hr'' ''h3-hr'' [],
           divc ''row''
            [divc ''col-xs-6'' [elc ''table'' ''table'' [el ''tbody''
               (ws_sparkline_rows ''Process CPU Utilization'' ''process-cpu-load-sparkline'' [Text process, Text ''%''] @
                ws_sparkline_rows ''System CPU Utilization'' ''system-cpu-load-sparkline'' [Text system, Text ''%''])]],
             divc ''col-xs-6'' [elc ''table'' ''table'' [el ''tbody''
               (ws_sparkline_rows ''Heap Utilization'' ''heap-percent-used-sparkline'' [Text heap, Text ''%''] @
                ws_sparkline_rows ''Non-Heap Memory Used'' ''nonheap-used-sparkline'' [Text nonheap])]]]]]) }"

definition ws_memory_pools :: "server_info \<Rightarrow> ('h, 'c) vnode throws" where
  "ws_memory_pools si =
    do {
      generalBar \<leftarrow> renderPoolBar ''General'' (si_general si);
      generalQueries \<leftarrow> renderPoolQueries (si_general si);
      reservedBar \<leftarrow> renderPoolBar ''Reserved'' (si_reserved si);
      reservedQueries \<leftarrow> renderPoolQueries (si_reserved si);
      Some (divc ''row'' [divc ''col-xs-12''
        [el ''h3'' [Text ''Memory Pools''], elc ''hr'' ''h3-hr'' [],
         divc ''row''
          [divc ''col-xs-6'' [generalBar, generalQueries],
           divc ''col-xs-6'' [reservedBar, reservedQueries]]]]) }"

definition WorkerStatus_render :: "worker_status \<Rightarrow> ('h, 'c) vnode throws" where
  "WorkerStatus_render s =
    (case ws_serverInfo s of
       None \<Rightarrow>
         Some (if \<not> ws_initialized s then divc ''loader'' [Text ''Loading...'']
               else divc ''row error-message'' [divc ''col-xs-12'' [el ''h4'' [Text ''Node information could not be loaded'']]])
     | Some si \<Rightarrow>
         do {
           overview \<leftarrow> ws_overview si;
           utilization \<leftarrow> ws_utilization s;
           pools \<leftarrow> ws_memory_pools si;
           Some (el ''div''
             [divc ''row'' [divc ''col-xs-12''
               [el ''h3'' [Text ''Overview''], elc ''hr'' ''h3-hr'' [], overview, utilization]],
              pools]) })"

section \<open>Laws\<close>

text \<open>Every chart has its element on the page, once the worker has answered.\<close>

lemma worker_charts_shown:
  fixes v :: "('h, 'c) vnode"
  assumes "WorkerStatus_render s = Some v" "ws_serverInfo s \<noteq> None"
  shows "charts_shown (ws_componentDidUpdate s) v"
proof -
  obtain u :: "('h, 'c) vnode" where u1: "ws_utilization s = Some u" using assms by (auto simp: WorkerStatus_render_def split: bind_splits)
  moreover have "set (element_ids u) \<subseteq> set (element_ids v)" using assms u1 by (auto simp: WorkerStatus_render_def split: bind_splits)
  ultimately have u: "ws_utilization s = Some u" "set (element_ids u) \<subseteq> set (element_ids v)" .
  have "charts_shown (ws_componentDidUpdate s) u"
    using u(1) by (auto simp: ws_utilization_def ws_sparkline_rows_def charts_shown_def ws_componentDidUpdate_def selects_def attr_ids_def split: bind_splits)
  then show ?thesis using u(2) by (auto simp: charts_shown_def list_all_iff selects_def split: list.splits)
qed

fun status_responses :: "ws_event list \<Rightarrow> server_info list" where
  "status_responses [] = []"
| "status_responses (StatusSuccess si # es) = si # status_responses es"
| "status_responses (_ # es) = status_responses es"

lemma status_responses_append: "status_responses (es @ fs) = status_responses es @ status_responses fs"
  by (induction es rule: status_responses.induct) auto

definition ws_history :: "server_info list \<Rightarrow> worker_status \<Rightarrow> bool" where
  "ws_history sis s \<longleftrightarrow>
     ws_processCpuLoad s = window (map (percent \<circ> si_processCpuLoad) sis)
   \<and> ws_systemCpuLoad s = window (map (percent \<circ> si_systemCpuLoad) sis)
   \<and> ws_heapPercentUsed s = window (map heap_percent sis)
   \<and> ws_nonHeapUsed s = window (map (percent \<circ> si_nonHeapUsed) sis)
   \<and> ws_serverInfo s = (if sis = [] then None else Some (last sis)) \<and> \<not> ws_ended s"

lemma ws_history_update:
  "ws_history sis (s\<lparr> ws_timeout := t \<rparr>) = ws_history sis s"
  "ws_history sis (s\<lparr> ws_requests := n \<rparr>) = ws_history sis s"
  "ws_history sis (s\<lparr> ws_initialized := b \<rparr>) = ws_history sis s"
  by (simp_all add: ws_history_def)

lemma ws_history_step:
  assumes "ws_history sis s" "ws_exec e s = Some s'"
  shows "ws_history (sis @ status_responses [e]) s'"
  using assms
  by (cases e)
    (auto simp: ws_refreshLoop_def ws_onError_def ws_onSuccess_def ws_resetTimer_def Let_def ws_history_update
      ws_history_def addToHistory_window_snoc addToHistory_Nil split: if_splits)

lemma ws_history_run:
  "exec_all ws_exec es s = Some s' \<Longrightarrow> ws_history sis s \<Longrightarrow> ws_history (sis @ status_responses es) s'"
proof (induction es arbitrary: s sis)
  case (Cons e es)
  then obtain s1 where s1: "ws_exec e s = Some s1" "exec_all ws_exec es s1 = Some s'" by auto
  from Cons.IH[OF s1(2) ws_history_step[OF Cons.prems(2) s1(1)]] show ?case
    using status_responses_append[of "[e]" es] by simp
qed simp

fun ws_kind :: "ws_event \<Rightarrow> poll_kind" where
  "ws_kind (StatusTimer i) = Fires i"
| "ws_kind _ = Answers"

interpretation ws_loop: polled ws_exec ws_kind "\<lambda>_. True" ws_timeout ws_requests "\<lambda>s. \<not> ws_ended s" "\<lambda>_. 1000"
  "\<lambda>s. s = WorkerStatus_mount" "\<lambda>_. True"
proof
  fix s s' :: worker_status and e i
  show "ws_exec e s = Some s' \<Longrightarrow> ws_kind e = Fires i \<Longrightarrow>
      (\<exists>t. fireTimeout i (ws_timeout s) = Some t \<and> ws_timeout s' = clearTimeout t)
      \<and> ws_requests s' = Suc (ws_requests s) \<and> (\<not> ws_ended s') = (\<not> ws_ended s)"
    by (cases e) (auto simp: ws_refreshLoop_def)
  show "ws_exec e s = Some s' \<Longrightarrow> ws_kind e = Answers \<Longrightarrow>
      ws_requests s = Suc (ws_requests s') \<and> ws_timeout s' =
      (if \<not> ws_ended s' then setTimeout 1000 (clearTimeout (ws_timeout s)) else clearTimeout (ws_timeout s))"
    by (cases e) (auto simp: ws_resetTimer_def ws_onSuccess_def ws_onError_def Let_def split: if_splits)
  show "fireTimeout i (ws_timeout s) \<noteq> None \<Longrightarrow> \<exists>e. True \<and> ws_kind e = Fires i \<and> ws_exec e s \<noteq> None"
    by (rule exI[of _ "StatusTimer i"]) auto
  show "0 < ws_requests s \<Longrightarrow> \<exists>e. True \<and> ws_kind e = Answers \<and> ws_exec e s \<noteq> None"
    by (rule exI[of _ StatusError]) simp
  show "ws_exec e s = Some s' \<Longrightarrow> ws_kind e = Quiet \<Longrightarrow>
      ws_timeout s' = ws_timeout s \<and> ws_requests s' = ws_requests s \<and> (\<not> ws_ended s') = (\<not> ws_ended s)"
    by (cases e) auto
qed (auto simp: WorkerStatus_mount_def ws_refreshLoop_def WorkerStatus_init_def)

lemma renderPoolQuery_defined: "\<exists>n. (renderPoolQuery q a b c :: ('h, 'c) vnode throws) = Some n"
  using formatDataSize_num(1)[of a] formatDataSize_num(1)[of b] by (auto simp: renderPoolQuery_def)

lemma renderPoolBar_defined: "\<exists>n. (renderPoolBar name p :: ('h, 'c) vnode throws) = Some n"
proof (cases p)
  case (Some q)
  then show ?thesis
    using formatDataSize_num(1)[of "mp_maxBytes q"] formatDataSize_num(1)[of "js_sub (mp_reservedBytes q) (mp_reservedRevocableBytes q)"]
      formatDataSize_num(1)[of "mp_reservedRevocableBytes q"] formatDataSize_num(1)[of "js_sub (mp_maxBytes q) (mp_reservedBytes q)"]
    by (auto simp: renderPoolBar_def)
qed (simp add: renderPoolBar_def)

lemma renderPoolQueries_defined: "\<exists>n. (renderPoolQueries p :: ('h, 'c) vnode throws) = Some n"
proof (cases p)
  case (Some q)
  have "\<exists>ys. mapM (\<lambda>k. renderPoolQuery k (f k) (g k) (mp_maxBytes q) :: ('h, 'c) vnode throws) xs = Some ys" for f g xs
    by (rule mapM_defined) (rule renderPoolQuery_defined)
  then show ?thesis using Some by (auto simp: renderPoolQueries_def Let_def)
qed (simp add: renderPoolQueries_def)

lemma last_num_window_JNum:
  "last_num (window (map (\<lambda>x. JNum (f x)) xs)) = (if xs = [] then JUndefined else JNum (f (last xs)))"
proof (cases xs rule: rev_cases)
  case (snoc ys y)
  then have "length (map (\<lambda>x. JNum (f x)) xs) - 301 \<le> length ys" by simp
  then show ?thesis using snoc by (simp add: window_def)
qed simp

text \<open>
  C30. The page of a worker after any run of timers, responses and failed requests: its four
  histories are the last 301 values of the responses, the information shown is that of the last
  response, the four charts have at most 301 points each, the page renders without throwing, and
  polling goes on as one series.
\<close>

theorem worker_status_run:
  assumes "exec_all ws_exec es WorkerStatus_mount = Some s"
  shows "ws_history (status_responses es) s \<and> list_all (\<lambda>c. length (sl_values c) \<le> 301) (ws_componentDidUpdate s)
    \<and> (\<exists>n :: (unit, unit) vnode. WorkerStatus_render s = Some n) \<and> one_series (ws_timeout s) (ws_requests s) True \<and> (\<exists>e. ws_kind e \<noteq> Quiet \<and> ws_exec e s \<noteq> None)"
proof -
  have "ws_history [] WorkerStatus_mount"
    by (simp add: ws_history_def WorkerStatus_mount_def ws_refreshLoop_def WorkerStatus_init_def)
  from ws_history_run[OF assms this] have h: "ws_history (status_responses es) s" by simp
  then have on: "\<not> ws_ended s" by (simp add: ws_history_def)
  have ok: "list_all (\<lambda>_. True) es" by (simp add: list_all_iff)
  note poll = ws_loop.one_series_run[OF refl assms ok] ws_loop.never_stuck[OF refl assms ok on]
  have "\<exists>n :: (unit, unit) vnode. WorkerStatus_render s = Some n"
  proof (cases "ws_serverInfo s")
    case (Some si)
    then have ne: "status_responses es \<noteq> []" using h by (auto simp: ws_history_def split: if_splits)
    have hist: "\<exists>x. last_num (ws_processCpuLoad s) = JNum x" "\<exists>x. last_num (ws_systemCpuLoad s) = JNum x"
      "\<exists>x. last_num (ws_heapPercentUsed s) = JNum x" "\<exists>x. last_num (ws_nonHeapUsed s) = JNum x"
      using h ne unfolding ws_history_def comp_def percent_def heap_percent_def[abs_def] by (simp_all add: last_num_window_JNum)
    then obtain a b c d where v: "last_num (ws_processCpuLoad s) = JNum a" "last_num (ws_systemCpuLoad s) = JNum b"
      "last_num (ws_heapPercentUsed s) = JNum c" "last_num (ws_nonHeapUsed s) = JNum d" by blast
    have "\<exists>n :: (unit, unit) vnode. ws_utilization s = Some n"
      using formatCount_num[of a] formatCount_num[of b] formatCount_num[of c] formatDataSize_num(1)[of d]
      by (auto simp: ws_utilization_def v)
    moreover have "\<exists>n :: (unit, unit) vnode. ws_overview si = Some n"
      using formatDataSize_num(1)[of "si_heapAvailable si"] by (auto simp: ws_overview_def)
    ultimately show ?thesis using Some
      renderPoolBar_defined[where 'h = unit and 'c = unit] renderPoolQueries_defined[where 'h = unit and 'c = unit]
      by (simp add: WorkerStatus_render_def ws_memory_pools_def) metis
  qed (simp add: WorkerStatus_render_def)
  moreover have "list_all (\<lambda>c. length (sl_values c) \<le> 301) (ws_componentDidUpdate s)"
    using h by (simp add: ws_componentDidUpdate_def ws_history_def length_window)
  ultimately show ?thesis using h poll on by auto
qed

definition example_pool :: memory_pool where
  "example_pool =
    \<lparr> mp_maxBytes = Fin 1000, mp_reservedBytes = Fin 1000, mp_reservedRevocableBytes = Fin 50,
      mp_queryMemoryReservations = [(''q1'', Fin 600), (''q2'', Fin 350)], mp_queryMemoryRevocableReservations = [(''q2'', Fin 20), (''q3'', Fin 30)] \<rparr>"

definition example_status :: server_info where
  "example_status =
    \<lparr> si_nodeId = ''n1'', si_uptime = ''1.00h'', si_externalAddress = ''10.0.0.1'', si_internalAddress = ''10.0.0.1'',
      si_processors = Fin 8, si_processCpuLoad = Fin (1/4), si_systemCpuLoad = Fin (1/2), si_heapUsed = Fin 512,
      si_heapAvailable = Fin 1024, si_nonHeapUsed = Fin 2048, si_general = Some example_pool, si_reserved = None \<rparr>"

theorem worker_status_run_witness:
  "\<exists>s. exec_all ws_exec [StatusSuccess example_status, StatusTimer 0, StatusError] WorkerStatus_mount = Some s
     \<and> ws_history [example_status] s \<and> (\<exists>n :: (unit, unit) vnode. WorkerStatus_render s = Some n)"
proof -
  let ?es = "[StatusSuccess example_status, StatusTimer 0, StatusError]"
  have "exec_all ws_exec ?es WorkerStatus_mount \<noteq> None" by code_simp
  then obtain s where s: "exec_all ws_exec ?es WorkerStatus_mount = Some s" by blast
  then have "ws_history (status_responses ?es) s \<and> (\<exists>n :: (unit, unit) vnode. WorkerStatus_render s = Some n)"
    using worker_status_run by blast
  then have "ws_history [example_status] s \<and> (\<exists>n :: (unit, unit) vnode. WorkerStatus_render s = Some n)" by simp
  with s show ?thesis by blast
qed

text \<open>The reservations of a query, zero where the pool has none.\<close>

lemma map_of_fold_set:
  assumes "\<And>m k. map_of (f k m) = (map_of m)(k \<mapsto> g k (map_of m k))" "distinct ks"
  shows "map_of (foldl (\<lambda>m k. f k m) m ks) k = (if k \<in> set ks then Some (g k (map_of m k)) else map_of m k)"
  using assms(2) by (induction ks arbitrary: m) (auto simp: assms(1))

lemma pool_queries_get:
  assumes "distinct (map fst (mp_queryMemoryReservations p))" "distinct (map fst (mp_queryMemoryRevocableReservations p))"
  shows "map_get (pool_queries p) k =
    (case (map_get (mp_queryMemoryReservations p) k, map_get (mp_queryMemoryRevocableReservations p) k) of
       (None, None) \<Rightarrow> None
     | (Some a, None) \<Rightarrow> Some (a, Fin 0) | (None, Some b) \<Rightarrow> Some (Fin 0, b) | (Some a, Some b) \<Rightarrow> Some (a, b))"
proof -
  let ?r = "mp_queryMemoryReservations p" and ?v = "mp_queryMemoryRevocableReservations p"
  define q where "q = foldl (\<lambda>m k. map_set k (the (map_get ?r k), Fin 0) m) [] (own_keys ?r)"
  have keys: "k \<in> set (own_keys m) \<longleftrightarrow> map_of m k \<noteq> None" for k and m :: "(string, jsnum) jsmap"
    by (simp add: map_of_eq_None_iff)
  have q: "map_of q k = map_option (\<lambda>a. (a, Fin 0)) (map_of ?r k)" for k
    unfolding q_def using keys[of k ?r]
    by (subst map_of_fold_set[where g = "\<lambda>k _. (the (map_get ?r k), Fin 0)"])
      (auto simp: update_conv' distinct_own_keys[OF assms(1)] simp del: set_own_keys)
  have "map_get (pool_queries p) k =
      (if k \<in> set (own_keys ?v) then Some ((case map_of q k of Some (r, _) \<Rightarrow> r | None \<Rightarrow> Fin 0), the (map_get ?v k)) else map_of q k)"
    unfolding pool_queries_def Let_def q_def[symmetric]
    by (rule map_of_fold_set[where g = "\<lambda>k x. ((case x of Some (r, _) \<Rightarrow> r | None \<Rightarrow> Fin 0), the (map_get ?v k))"
          and f = "\<lambda>q m. case map_get m q of Some (r, _) \<Rightarrow> map_set q (r, the (map_get ?v q)) m
             | None \<Rightarrow> map_set q (Fin 0, the (map_get ?v q)) m"])
      (auto simp: update_conv' distinct_own_keys[OF assms(2)] split: option.split)
  then show ?thesis using q[of k] keys[of k ?v]
    by (cases "map_of ?r k"; cases "map_of ?v k") (simp_all del: set_own_keys)
qed

text \<open>
  The queries listed under a memory pool are those with a reservation of either kind, each with
  its two reservations, zero where it has none.
\<close>

theorem pool_queries_correct:
  assumes "distinct (map fst (mp_queryMemoryReservations p))" "distinct (map fst (mp_queryMemoryRevocableReservations p))"
  shows "set (own_keys (pool_queries p)) =
      fst ` set (mp_queryMemoryReservations p) \<union> fst ` set (mp_queryMemoryRevocableReservations p)
    \<and> (\<forall>k a b. map_get (pool_queries p) k = Some (a, b) \<longrightarrow>
        a = (case map_get (mp_queryMemoryReservations p) k of None \<Rightarrow> Fin 0 | Some x \<Rightarrow> x)
      \<and> b = (case map_get (mp_queryMemoryRevocableReservations p) k of None \<Rightarrow> Fin 0 | Some x \<Rightarrow> x))"
proof
  have "k \<in> fst ` set (pool_queries p) \<longleftrightarrow>
      k \<in> fst ` set (mp_queryMemoryReservations p) \<or> k \<in> fst ` set (mp_queryMemoryRevocableReservations p)" for k
  proof -
    have mem: "k \<in> fst ` set m \<longleftrightarrow> map_of m k \<noteq> None" for m :: "(string, 'v) jsmap" by (simp add: map_of_eq_None_iff)
    show ?thesis unfolding mem pool_queries_get[OF assms] by (auto split: option.split)
  qed
  then show "set (own_keys (pool_queries p)) =
      fst ` set (mp_queryMemoryReservations p) \<union> fst ` set (mp_queryMemoryRevocableReservations p)"
    unfolding set_own_keys by blast
  show "\<forall>k a b. map_get (pool_queries p) k = Some (a, b) \<longrightarrow>
        a = (case map_get (mp_queryMemoryReservations p) k of None \<Rightarrow> Fin 0 | Some x \<Rightarrow> x)
      \<and> b = (case map_get (mp_queryMemoryRevocableReservations p) k of None \<Rightarrow> Fin 0 | Some x \<Rightarrow> x)"
    by (auto simp: pool_queries_get[OF assms] split: option.splits)
qed

theorem pool_queries_correct_witness:
  "map_get (pool_queries example_pool) ''q2'' = Some (Fin 350, Fin 20) \<and> set (own_keys (pool_queries example_pool)) = {''q1'', ''q2'', ''q3''}"
proof
  have d: "distinct (map fst (mp_queryMemoryReservations example_pool))" "distinct (map fst (mp_queryMemoryRevocableReservations example_pool))"
    by code_simp+
  show "map_get (pool_queries example_pool) ''q2'' = Some (Fin 350, Fin 20)" by code_simp
  show "set (own_keys (pool_queries example_pool)) = {''q1'', ''q2'', ''q3''}"
    using pool_queries_correct[OF d] by (auto simp: example_pool_def)
qed

text \<open>
  A full pool with a small revocable part: the least width of 15 percent makes the shares of the bar
  exceed the whole, and the free share is negative.
\<close>

lemma percentageFree_negative:
  "percentageReservedNonRevocable example_pool = Fin 95 \<and> percentageRevocable example_pool = Fin 15
   \<and> percentageFree example_pool = Fin (- 10)"
  by code_simp

end
