(* ===== verification/WorkerThreadList.thy ===== *)
theory WorkerThreadList
  imports Utils Polling
begin

text \<open>
  \<^verbatim>\<open>src/components/WorkerThreadList.jsx\<close>: the snapshot of the threads of a worker, grouped by the
  prefix of their names.
\<close>

section \<open>The two patterns\<close>

text \<open>
  A pattern as a sequence of pieces: a character, \<open>[0-9]*\<close>, or \<open>.*?\<close> (the dot matches no line end).
  Whether there is a match does not depend on greediness.
\<close>

datatype piece = Chr char | Digits | AnyLazy

definition line_end :: "char \<Rightarrow> bool" where
  "line_end c \<longleftrightarrow> c = CHR 10 \<or> c = CHR 13"

fun matches_at :: "piece list \<Rightarrow> string \<Rightarrow> bool" where
  "matches_at [] s = True"
| "matches_at (Chr c # ps) [] = False"
| "matches_at (Chr c # ps) (x # s) = (x = c \<and> matches_at ps s)"
| "matches_at (Digits # ps) [] = matches_at ps []"
| "matches_at (Digits # ps) (x # s) = (matches_at ps (x # s) \<or> (is_digit x \<and> matches_at (Digits # ps) s))"
| "matches_at (AnyLazy # ps) [] = matches_at ps []"
| "matches_at (AnyLazy # ps) (x # s) = (matches_at ps (x # s) \<or> (\<not> line_end x \<and> matches_at (AnyLazy # ps) s))"

fun matches_somewhere :: "piece list \<Rightarrow> string \<Rightarrow> bool" where
  "matches_somewhere ps [] = matches_at ps []"
| "matches_somewhere ps (x # s) = (matches_at ps (x # s) \<or> matches_somewhere ps s)"

definition QUERY_THREAD_REGEX :: "piece list" where
  "QUERY_THREAD_REGEX =
    [Digits, Chr (CHR ''_''), Digits, Chr (CHR ''_''), Digits, Chr (CHR ''_''), AnyLazy, Chr (CHR ''.''), Digits,
     Chr (CHR ''.''), Digits, Chr (CHR ''-''), Digits, Chr (CHR ''-''), Digits]"

text \<open>\<open>/(.*?)-[0-9]+/\<close>: the first group of the leftmost match.\<close>

fun group_at :: "string \<Rightarrow> string option" where
  "group_at [] = None"
| "group_at (c # s) =
    (if c = CHR ''-'' \<and> s \<noteq> [] \<and> is_digit (hd s) then Some []
     else if line_end c then None else map_option (\<lambda>g. c # g) (group_at s))"

fun THREAD_GROUP_REGEXP :: "string \<Rightarrow> string option" where
  "THREAD_GROUP_REGEXP [] = None"
| "THREAD_GROUP_REGEXP (c # s) =
    (case group_at (c # s) of Some g \<Rightarrow> Some g | None \<Rightarrow> THREAD_GROUP_REGEXP s)"

section \<open>Data and state\<close>

record stack_line =
  sl_className :: string
  sl_method :: string
  sl_file :: string
  sl_line :: jsnum

record thread_info =
  ti_id :: jsnum
  ti_name :: string
  ti_state :: string
  ti_lockOwnerId :: "string option"
  ti_stackTrace :: "stack_line list"

definition ALL_THREADS :: string where
  "ALL_THREADS = ''All Threads''"

definition QUERY_THREADS :: string where
  "QUERY_THREADS = ''Running Queries''"

definition ALL_THREAD_STATE :: string where
  "ALL_THREAD_STATE = ''ALL''"

definition THREAD_STATES :: "string list" where
  "THREAD_STATES =
    [ALL_THREAD_STATE, ''RUNNABLE'', ''BLOCKED'', ''WAITING'', ''TIMED_WAITING'', ''NEW'', ''TERMINATED'']"

type_synonym thread_groups = "(string, thread_info list) jsmap"

record worker_thread_list =
  wt_initialized :: bool
  wt_threads :: "thread_groups option"
  snapshotTime :: string
  selectedGroup :: string
  selectedThreadState :: string
  wt_requests :: nat
  wt_mounted :: bool

definition WorkerThreadList_init :: worker_thread_list where
  "WorkerThreadList_init =
    \<lparr> wt_initialized = False, wt_threads = None, snapshotTime = [], selectedGroup = ALL_THREADS,
      selectedThreadState = ALL_THREAD_STATE, wt_requests = 0, wt_mounted = True \<rparr>"

section \<open>Grouping\<close>

definition thread_group :: "thread_info \<Rightarrow> string" where
  "thread_group t = (case THREAD_GROUP_REGEXP (ti_name t) of Some g \<Rightarrow> g | None \<Rightarrow> ti_name t)"

definition is_query_thread :: "thread_info \<Rightarrow> bool" where
  "is_query_thread t \<longleftrightarrow> matches_somewhere QUERY_THREAD_REGEX (ti_name t)"

text \<open>
  The body of the loop.  The array \<open>threads\<close> is also the value of the key \<open>ALL_THREADS\<close>; the other
  keys are \<open>groups\<close>.  \<open>push\<close> on \<open>undefined\<close>, and on what an object inherits, throws.
\<close>

definition process_thread :: "thread_info \<Rightarrow> thread_info list \<times> thread_groups \<Rightarrow> (thread_info list \<times> thread_groups) throws" where
  "process_thread thread = (\<lambda>(threads, groups).
    do {
      groups \<leftarrow> (if is_query_thread thread
                 then map_option (\<lambda>ts. map_set QUERY_THREADS (ts @ [thread]) groups) (map_get groups QUERY_THREADS)
                 else Some groups);
      let g = thread_group thread;
      if g = ALL_THREADS then Some (threads @ [thread], groups)
      else if g \<in> set object_prototype then None
      else Some (threads, map_set g ((case map_get groups g of None \<Rightarrow> [] | Some ts \<Rightarrow> ts) @ [thread]) groups) })"

text \<open>The loop; it does not end when a thread of a group \<open>All Threads\<close> is pushed onto the array itself.\<close>

partial_function (option) process_from :: "nat \<Rightarrow> thread_info list \<times> thread_groups \<Rightarrow> thread_groups throws option" where
  "process_from i st =
    (if i < length (fst st)
     then (case process_thread (fst st ! i) st of
             None \<Rightarrow> Some None
           | Some st' \<Rightarrow> process_from (Suc i) st')
     else Some (Some ((ALL_THREADS, fst st) # snd st)))"

definition processThreads :: "thread_info list \<Rightarrow> thread_groups throws option" where
  "processThreads threads = process_from 0 (threads, [])"

section \<open>View\<close>

datatype wt_event = NewSnapshotClick | GroupClick string | ThreadStateClick string
  | Snapshot "thread_info list" string | SnapshotError

text \<open>\<open>this.state.threads[group].filter(...)\<close>: a group that is not there throws.\<close>

definition filterThreads :: "thread_groups \<Rightarrow> string \<Rightarrow> string \<Rightarrow> thread_info list throws" where
  "filterThreads threads grp st =
    map_option (filter (\<lambda>t. ti_state t = st \<or> st = ALL_THREAD_STATE)) (map_get threads grp)"

type_synonym wt_node = "(wt_event, unit) vnode"

definition renderGroupListItem :: "worker_thread_list \<Rightarrow> thread_groups \<Rightarrow> string \<Rightarrow> wt_node throws" where
  "renderGroupListItem s threads grp =
    do { ts \<leftarrow> filterThreads threads grp (selectedThreadState s);
         Some (el ''li'' [Elem ''a'' [attr ''href'' ''#'', className (if selectedGroup s = grp then ''selected'' else []),
             onClick (GroupClick grp)]
           [Text grp, Text '' ('', Number (JNum (num_int (int (length ts)))), Text '')'']]) }"

definition renderThreadStateListItem :: "worker_thread_list \<Rightarrow> thread_groups \<Rightarrow> string \<Rightarrow> wt_node throws" where
  "renderThreadStateListItem s threads threadState =
    do { ts \<leftarrow> filterThreads threads (selectedGroup s) threadState;
         Some (el ''li'' [Elem ''a'' [attr ''href'' ''#'',
             className (if selectedThreadState s = threadState then ''selected'' else []), onClick (ThreadStateClick threadState)]
           [Text threadState, Text '' ('', Number (JNum (num_int (int (length ts)))), Text '')'']]) }"

definition renderStackLine :: "stack_line \<Rightarrow> wt_node" where
  "renderStackLine l =
    el ''div'' [Text (nbsp @ nbsp @ ''at ''), Text (sl_className l), Text ''.'', Text (sl_method l), Text ''('',
      elc ''span'' ''font-light'' [Text (sl_file l), Text '':'', Number (JNum (sl_line l))], Text '')'']"

definition renderThread :: "thread_info \<Rightarrow> wt_node" where
  "renderThread t =
    el ''div''
      [elc ''span'' ''font-white''
        [Text (ti_name t), Text '' '', Text (ti_state t), Text '' #'', Number (JNum (ti_id t)), Text '' '', text_opt (ti_lockOwnerId t)],
       Elem ''a'' [className ''copy-button'', attr ''data-clipboard-target'' (''#stack-trace-'' @ num_to_string (ti_id t)),
           attr ''data-toggle'' ''tooltip'', attr ''data-placement'' ''right'', attr ''title'' ''Copy to clipboard'']
         [Elem ''span'' [className ''glyphicon glyphicon-copy'', attr ''alt'' ''Copy to clipboard''] []],
       el ''br'' [],
       Elem ''span'' [className ''stack-traces'', attr ''id'' (''stack-trace-'' @ num_to_string (ti_id t))]
         [Fragment (map renderStackLine (ti_stackTrace t))],
       el ''div'' [Text nbsp]]"

definition wt_dropdown :: "string \<Rightarrow> string \<Rightarrow> wt_node list \<Rightarrow> wt_node" where
  "wt_dropdown label sel items =
    divc ''input-group-btn text-right''
      [Elem ''button'' [attr ''type'' ''button'', className ''btn btn-default dropdown-toggle pull-right text-right'',
           attr ''data-toggle'' ''dropdown'', attr ''aria-haspopup'' ''true'', attr ''aria-expanded'' ''false'']
         [el ''strong'' [Text label], Text '' '', Text sel, Text '' '', elc ''span'' ''caret'' []],
       elc ''ul'' ''dropdown-menu'' [Fragment items]]"

definition wt_toolbar :: "worker_thread_list \<Rightarrow> thread_groups \<Rightarrow> wt_node throws" where
  "wt_toolbar s threads =
    do {
      groups \<leftarrow> mapM (renderGroupListItem s threads) (own_keys threads);
      states \<leftarrow> mapM (renderThreadStateListItem s threads) THREAD_STATES;
      Some (divc ''col-xs-9''
        [elc ''table'' ''header-inline-links''
          [el ''tbody'' [el ''tr''
            [el ''td'' [el ''small'' [Text ''Snapshot at '', Text (snapshotTime s)], Text (nbsp @ nbsp)],
             el ''td'' [Elem ''button'' [className ''btn btn-info live-button'', onClick NewSnapshotClick] [Text ''New Snapshot''],
               Text (nbsp @ nbsp), Text (nbsp @ nbsp)],
             el ''td'' [wt_dropdown ''Group:'' (selectedGroup s) groups],
             el ''td'' [wt_dropdown ''State:'' (selectedThreadState s) states]]]]]) }"

definition wt_message :: "wt_node list \<Rightarrow> wt_node" where
  "wt_message label = divc ''row error-message'' [divc ''col-xs-12'' [el ''h4'' label]]"

definition wt_displayed :: "worker_thread_list \<Rightarrow> thread_info list \<Rightarrow> wt_node" where
  "wt_displayed s filteredThreads =
    (if length filteredThreads = 0 \<and> selectedThreadState s = ALL_THREAD_STATE
     then wt_message [Text ''No threads in group '', Text [CHR 39], Text (selectedGroup s), Text [CHR 39]]
     else if length filteredThreads = 0 \<and> selectedGroup s = ALL_THREADS
     then wt_message [Text ''No threads with state '', Text (selectedThreadState s)]
     else if length filteredThreads = 0
     then wt_message [Text ''No threads in group '', Text [CHR 39], Text (selectedGroup s), Text [CHR 39], Text '' with state '', Text (selectedThreadState s)]
     else el ''pre'' [Fragment (map renderThread filteredThreads)])"

definition wt_body :: "worker_thread_list \<Rightarrow> (wt_node \<times> wt_node) throws" where
  "wt_body s =
    (case wt_threads s of
       None \<Rightarrow>
         Some (Nothing,
           if \<not> wt_initialized s
           then divc ''row error-message'' [divc ''col-xs-12''
                  [Elem ''button'' [className ''btn btn-info live-button'', onClick NewSnapshotClick] [Text ''Capture Snapshot'']]]
           else wt_message [Text ''Thread snapshot could not be loaded''])
     | Some threads \<Rightarrow>
         do {
           toolbar \<leftarrow> wt_toolbar s threads;
           filteredThreads \<leftarrow> filterThreads threads (selectedGroup s) (selectedThreadState s);
           Some (toolbar, Elem ''div'' [attr ''id'' ''stack-traces''] [wt_displayed s filteredThreads]) })"

definition WorkerThreadList_render :: "worker_thread_list \<Rightarrow> wt_node throws" where
  "WorkerThreadList_render s =
    do {
      (toolbar, display) \<leftarrow> wt_body s;
      Some (el ''div''
        [divc ''row''
          [divc ''col-xs-3''
            [el ''h3''
              [Text ''Thread Snapshot'',
               Elem ''a'' [className ''btn copy-button'', attr ''data-clipboard-target'' ''#stack-traces'', attr ''data-toggle'' ''tooltip'',
                   attr ''data-placement'' ''right'', attr ''title'' ''Copy to clipboard'']
                 [Elem ''span'' [className ''glyphicon glyphicon-copy'', attr ''alt'' ''Copy to clipboard''] []],
               Text nbsp]],
           toolbar],
         divc ''row'' [divc ''col-xs-12'' [elc ''hr'' ''h3-hr'' [], display]]]) }"

section \<open>Handlers\<close>

text \<open>
  \<open>setState\<close> renders the new state; an exception takes the component off the page, which \<open>wt_mounted\<close> records,
  and from then on \<open>setState\<close> does nothing.  No handler does anything after its \<open>setState\<close> that the
  exception could leave out, except for the click on the button, where rendering waits for the end of the handler.
\<close>

definition wt_setState :: "(worker_thread_list \<Rightarrow> worker_thread_list) \<Rightarrow> worker_thread_list \<Rightarrow> worker_thread_list" where
  "wt_setState f s =
    (if \<not> wt_mounted s then s
     else if WorkerThreadList_render (f s) = None then (f s)\<lparr> wt_mounted := False \<rparr> else f s)"

definition captureSnapshot :: "worker_thread_list \<Rightarrow> worker_thread_list" where
  "captureSnapshot s = s\<lparr> wt_requests := Suc (wt_requests s) \<rparr>"

text \<open>\<open>None\<close> when the callback does not return; when \<open>processThreads\<close> throws, \<open>setState\<close> is not called.\<close>

definition onSnapshot :: "thread_info list \<Rightarrow> string \<Rightarrow> worker_thread_list \<Rightarrow> worker_thread_list option" where
  "onSnapshot threads time s =
    map_option (\<lambda>r. case r of None \<Rightarrow> s
      | Some groups \<Rightarrow> wt_setState (\<lambda>s. s\<lparr> wt_threads := Some groups, snapshotTime := time, wt_initialized := True \<rparr>) s)
    (processThreads threads)"

definition onSnapshotError :: "worker_thread_list \<Rightarrow> worker_thread_list" where
  "onSnapshotError s = wt_setState (\<lambda>s. s\<lparr> wt_initialized := True \<rparr>) s"

definition handleGroupClick :: "string \<Rightarrow> worker_thread_list \<Rightarrow> worker_thread_list" where
  "handleGroupClick grp s = wt_setState (\<lambda>s. s\<lparr> selectedGroup := grp \<rparr>) s"

definition handleThreadStateClick :: "string \<Rightarrow> worker_thread_list \<Rightarrow> worker_thread_list" where
  "handleThreadStateClick st s = wt_setState (\<lambda>s. s\<lparr> selectedThreadState := st \<rparr>) s"

definition handleNewSnapshotClick :: "worker_thread_list \<Rightarrow> worker_thread_list" where
  "handleNewSnapshotClick s = captureSnapshot (wt_setState (\<lambda>s. s\<lparr> wt_initialized := False \<rparr>) s)"

text \<open>What there is on the page to click on.\<close>

definition wt_clickable :: "wt_event \<Rightarrow> worker_thread_list \<Rightarrow> bool" where
  "wt_clickable e s \<longleftrightarrow> wt_mounted s \<and> (case WorkerThreadList_render s of None \<Rightarrow> False | Some v \<Rightarrow> e \<in> set (handlers v))"

fun wt_exec :: "wt_event \<Rightarrow> worker_thread_list \<Rightarrow> worker_thread_list option" where
  "wt_exec NewSnapshotClick s = (if wt_clickable NewSnapshotClick s then Some (handleNewSnapshotClick s) else None)"
| "wt_exec (GroupClick g) s = (if wt_clickable (GroupClick g) s then Some (handleGroupClick g s) else None)"
| "wt_exec (ThreadStateClick st) s = (if wt_clickable (ThreadStateClick st) s then Some (handleThreadStateClick st s) else None)"
| "wt_exec (Snapshot threads time) s =
    (if 0 < wt_requests s then onSnapshot threads time (s\<lparr> wt_requests := wt_requests s - 1 \<rparr>) else None)"
| "wt_exec SnapshotError s =
    (if 0 < wt_requests s then Some (onSnapshotError (s\<lparr> wt_requests := wt_requests s - 1 \<rparr>)) else None)"

section \<open>Laws\<close>

text \<open>Threads whose group is an ordinary key of the result.\<close>

definition plain_thread :: "thread_info \<Rightarrow> bool" where
  "plain_thread t \<longleftrightarrow> thread_group t \<noteq> ALL_THREADS \<and> thread_group t \<noteq> QUERY_THREADS
     \<and> thread_group t \<notin> set object_prototype"

fun process_list :: "thread_info list \<Rightarrow> thread_groups \<Rightarrow> thread_groups throws" where
  "process_list [] groups = Some groups"
| "process_list (t # ts) groups =
    (if is_query_thread t \<and> map_get groups QUERY_THREADS = None then None
     else do { (_, groups') \<leftarrow> process_thread t ([], groups); process_list ts groups' })"

lemma process_thread_plain:
  assumes "plain_thread t"
  shows "process_thread t (threads, groups) = map_option (\<lambda>(_, g). (threads, g)) (process_thread t ([], groups))"
  using assms by (auto simp: process_thread_def plain_thread_def Let_def split: bind_splits)

lemma process_from_plain:
  assumes "list_all plain_thread threads"
  shows "process_from i (threads, groups) =
    Some (map_option (\<lambda>g. (ALL_THREADS, threads) # g) (process_list (drop i threads) groups))"
proof (induction "length threads - i" arbitrary: i groups)
  case 0
  then show ?case by (simp add: process_from.simps)
next
  case (Suc n)
  then have i: "i < length threads" by simp
  then have d: "drop i threads = threads ! i # drop (Suc i) threads" by (simp add: Cons_nth_drop_Suc)
  have p: "plain_thread (threads ! i)" using assms i by (simp add: list_all_iff)
  have n: "n = length threads - Suc i" using Suc.hyps(2) by simp
  show ?case
  proof (cases "process_thread (threads ! i) ([], groups)")
    case None
    then have "process_list (drop i threads) groups = None" unfolding d by simp
    moreover have "process_from i (threads, groups) = Some None"
      by (subst process_from.simps) (simp add: i process_thread_plain[OF p, of threads groups] None)
    ultimately show ?thesis by simp
  next
    case (Some r)
    obtain a g where r: "r = (a, g)" by (cases r)
    have q: "\<not> (is_query_thread (threads ! i) \<and> map_get groups QUERY_THREADS = None)"
      using Some by (auto simp: process_thread_def)
    have "process_from i (threads, groups) = process_from (Suc i) (threads, g)"
      by (subst process_from.simps) (simp add: i process_thread_plain[OF p, of threads groups] Some r)
    moreover have "process_list (drop i threads) groups = process_list (drop (Suc i) threads) g"
      unfolding d by (simp add: Some r q)
    ultimately show ?thesis by (simp only: Suc.hyps(1)[OF n])
  qed
qed

text \<open>Without query threads every group collects its threads in order.\<close>

lemma process_list_groups:
  assumes "list_all plain_thread ts" "\<not> list_ex is_query_thread ts"
  shows "\<exists>g'. process_list ts g = Some g' \<and> (\<forall>k. map_get g' k =
    (case map_get g k of None \<Rightarrow> if k \<in> thread_group ` set ts then Some (filter (\<lambda>t. thread_group t = k) ts) else None
     | Some xs \<Rightarrow> Some (xs @ filter (\<lambda>t. thread_group t = k) ts)))"
  using assms
proof (induction ts arbitrary: g)
  case (Cons t ts)
  let ?k = "thread_group t"
  let ?g = "map_set ?k ((case map_get g ?k of None \<Rightarrow> [] | Some xs \<Rightarrow> xs) @ [t]) g"
  have "process_thread t ([], g) = Some ([], ?g)"
    using Cons.prems by (auto simp: process_thread_def plain_thread_def Let_def)
  moreover obtain g' where g': "process_list ts ?g = Some g'" "\<forall>k. map_get g' k =
    (case map_get ?g k of None \<Rightarrow> if k \<in> thread_group ` set ts then Some (filter (\<lambda>t. thread_group t = k) ts) else None
     | Some xs \<Rightarrow> Some (xs @ filter (\<lambda>t. thread_group t = k) ts))"
    using Cons.IH[of ?g] Cons.prems by auto
  ultimately have "process_list (t # ts) g = Some g'" using Cons.prems by simp
  moreover have "map_get g' k = (case map_get g k of
      None \<Rightarrow> if k \<in> thread_group ` set (t # ts) then Some (filter (\<lambda>t. thread_group t = k) (t # ts)) else None
     | Some xs \<Rightarrow> Some (xs @ filter (\<lambda>t. thread_group t = k) (t # ts)))" for k
    using g'(2) by (cases "k = ?k") (auto simp: update_conv' split: option.split)
  ultimately show ?case by blast
qed (auto split: option.split)

lemma process_list_keeps_queries:
  assumes "plain_thread t" "\<not> is_query_thread t" "process_thread t ([], g) = Some (a, g')"
  shows "map_get g' QUERY_THREADS = map_get g QUERY_THREADS"
  using assms by (auto simp: process_thread_def plain_thread_def update_conv' Let_def)

lemma process_list_throws:
  assumes "list_all plain_thread ts" "list_ex is_query_thread ts" "map_get g QUERY_THREADS = None"
  shows "process_list ts g = None"
  using assms
proof (induction ts arbitrary: g)
  case (Cons t ts)
  show ?case
  proof (cases "is_query_thread t")
    case False
    then show ?thesis using Cons process_list_keeps_queries[of t g]
      by (cases "process_thread t ([], g)") auto
  qed (use Cons.prems in simp)
qed simp

text \<open>
  C26. Grouping a snapshot, for threads with ordinary names: when no thread runs a query, the result
  has all threads under \<open>All Threads\<close> and under every group exactly the threads of that group, in
  order; when some thread runs a query, the function throws, because the array of the running
  queries was never created.
\<close>

theorem processThreads_correct:
  assumes "list_all plain_thread threads"
  shows "if list_ex is_query_thread threads then processThreads threads = Some None
    else \<exists>groups. processThreads threads = Some (Some ((ALL_THREADS, threads) # groups))
      \<and> (\<forall>g. map_get groups g =
          (if g \<in> thread_group ` set threads then Some (filter (\<lambda>t. thread_group t = g) threads) else None))"
proof (cases "list_ex is_query_thread threads")
  case True
  then show ?thesis
    using process_list_throws[OF assms True, of "[]"] by (simp add: processThreads_def process_from_plain[OF assms])
next
  case False
  then show ?thesis
    using process_list_groups[OF assms False, of "[]"] by (auto simp: processThreads_def process_from_plain[OF assms])
qed

definition example_thread :: "int \<Rightarrow> string \<Rightarrow> string \<Rightarrow> thread_info" where
  "example_thread i name st = \<lparr> ti_id = num_int i, ti_name = name, ti_state = st, ti_lockOwnerId = None,
     ti_stackTrace = [\<lparr> sl_className = ''Object'', sl_method = ''wait'', sl_file = ''Object.java'', sl_line = Fin 502 \<rparr>] \<rparr>"

theorem processThreads_correct_witness:
  "processThreads [example_thread 1 ''http-worker-17'' ''WAITING'', example_thread 2 ''20190131_000001_00001_aaaaa.1.0-0-42'' ''RUNNABLE''] = Some None
   \<and> (\<exists>groups. processThreads [example_thread 1 ''http-worker-17'' ''WAITING'', example_thread 3 ''main'' ''RUNNABLE''] =
        Some (Some ((ALL_THREADS, [example_thread 1 ''http-worker-17'' ''WAITING'', example_thread 3 ''main'' ''RUNNABLE'']) # groups))
      \<and> map_get groups ''http-worker'' = Some [example_thread 1 ''http-worker-17'' ''WAITING''])"
proof
  let ?a = "[example_thread 1 ''http-worker-17'' ''WAITING'', example_thread 2 ''20190131_000001_00001_aaaaa.1.0-0-42'' ''RUNNABLE'']"
  let ?b = "[example_thread 1 ''http-worker-17'' ''WAITING'', example_thread 3 ''main'' ''RUNNABLE'']"
  have "list_all plain_thread ?a" "list_ex is_query_thread ?a" by code_simp+
  then show "processThreads ?a = Some None" using processThreads_correct[of ?a] by simp
  have b: "list_all plain_thread ?b" "list_ex is_query_thread ?b = False"
    "thread_group (example_thread 1 ''http-worker-17'' ''WAITING'') = ''http-worker''"
    "thread_group (example_thread 3 ''main'' ''RUNNABLE'') = ''main''" by code_simp+
  obtain groups where g: "processThreads ?b = Some (Some ((ALL_THREADS, ?b) # groups))"
    "\<forall>g. map_get groups g = (if g \<in> thread_group ` set ?b then Some (filter (\<lambda>t. thread_group t = g) ?b) else None)"
    using processThreads_correct[OF b(1)] unfolding b(2) if_False by blast
  have "map_get groups ''http-worker'' = Some [example_thread 1 ''http-worker-17'' ''WAITING'']"
    using spec[OF g(2), of "''http-worker''"] by (simp add: b)
  with g(1) show "\<exists>groups. processThreads ?b = Some (Some ((ALL_THREADS, ?b) # groups))
      \<and> map_get groups ''http-worker'' = Some [example_thread 1 ''http-worker-17'' ''WAITING'']" by blast
qed

text \<open>The page throws exactly when the selected group is not in the snapshot.\<close>

lemma WorkerThreadList_render_None:
  "WorkerThreadList_render s = None \<longleftrightarrow>
    (\<exists>threads. wt_threads s = Some threads \<and> map_get threads (selectedGroup s) = None)"
proof (cases "wt_threads s")
  case (Some threads)
  have "\<not> (\<exists>k \<in> set (own_keys threads). renderGroupListItem s threads k = None)"
    by (auto simp: renderGroupListItem_def filterThreads_def map_of_eq_None_iff)
  then have "(\<exists>y. mapM (renderGroupListItem s threads) (own_keys threads) = Some y)"
    using mapM_eq_None[of "renderGroupListItem s threads" "own_keys threads"] by (metis not_None_eq)
  moreover have "mapM (renderThreadStateListItem s threads) THREAD_STATES = None \<longleftrightarrow> map_get threads (selectedGroup s) = None"
    unfolding mapM_eq_None by (auto simp: renderThreadStateListItem_def filterThreads_def THREAD_STATES_def)
  ultimately show ?thesis using Some
    by (auto simp: WorkerThreadList_render_def wt_body_def wt_toolbar_def filterThreads_def)
qed (simp add: WorkerThreadList_render_def wt_body_def)

text \<open>The clicks a page offers: the button, the groups of the snapshot and the states; none when loading failed.\<close>

definition wt_offers :: "worker_thread_list \<Rightarrow> wt_event list" where
  "wt_offers s =
    (case wt_threads s of
       None \<Rightarrow> if wt_initialized s then [] else [NewSnapshotClick]
     | Some threads \<Rightarrow> NewSnapshotClick # map GroupClick (own_keys threads) @ map ThreadStateClick THREAD_STATES)"

lemma mapM_handlers:
  assumes "mapM f xs = Some vs" "\<And>x v. f x = Some v \<Longrightarrow> handlers v = [h x]"
  shows "concat (map handlers vs) = map h xs"
  using assms(1) by (induction xs arbitrary: vs) (auto dest: assms(2) split: bind_splits)

lemma handlers_renderThread: "handlers (renderThread t) = []"
proof -
  have "concat (map handlers (map renderStackLine ls)) = []" for ls by (induction ls) (simp_all add: renderStackLine_def)
  then show ?thesis by (simp add: renderThread_def)
qed

lemma handlers_wt_displayed: "handlers (wt_displayed s ts) = []"
  by (simp add: wt_displayed_def wt_message_def o_def handlers_renderThread)

lemma handlers_wt_toolbar:
  assumes "wt_toolbar s threads = Some v"
  shows "handlers v = NewSnapshotClick # map GroupClick (own_keys threads) @ map ThreadStateClick THREAD_STATES"
proof -
  obtain gs ts where g: "mapM (renderGroupListItem s threads) (own_keys threads) = Some gs"
    and t: "mapM (renderThreadStateListItem s threads) THREAD_STATES = Some ts"
    and v: "v = the (wt_toolbar s threads)"
    using assms by (auto simp: wt_toolbar_def split: bind_splits)
  have "concat (map handlers gs) = map GroupClick (own_keys threads)"
    by (rule mapM_handlers[OF g]) (auto simp: renderGroupListItem_def split: bind_splits)
  moreover have "concat (map handlers ts) = map ThreadStateClick THREAD_STATES"
    by (rule mapM_handlers[OF t]) (auto simp: renderThreadStateListItem_def split: bind_splits)
  ultimately show ?thesis by (simp add: v wt_toolbar_def g t wt_dropdown_def)
qed

lemma wt_clickable_iff:
  "wt_clickable e s \<longleftrightarrow> wt_mounted s \<and> WorkerThreadList_render s \<noteq> None \<and> e \<in> set (wt_offers s)"
proof -
  have "handlers v = wt_offers s" if r: "WorkerThreadList_render s = Some v" for v
  proof (cases "wt_threads s")
    case None
    then show ?thesis using r by (auto simp: WorkerThreadList_render_def wt_body_def wt_offers_def wt_message_def)
  next
    case (Some threads)
    then obtain tb ts where "wt_toolbar s threads = Some tb" "filterThreads threads (selectedGroup s) (selectedThreadState s) = Some ts"
      using r by (auto simp: WorkerThreadList_render_def wt_body_def split: bind_splits)
    then show ?thesis using r Some
      by (auto simp: WorkerThreadList_render_def wt_body_def wt_offers_def handlers_wt_toolbar handlers_wt_displayed)
  qed
  then show ?thesis by (auto simp: wt_clickable_def split: option.split)
qed

lemma process_from_all:
  assumes "process_from i st = Some r" "r = Some groups"
  shows "map_get groups ALL_THREADS \<noteq> None"
proof -
  have "\<forall>groups. r = Some groups \<longrightarrow> map_get groups ALL_THREADS \<noteq> None"
    by (rule process_from.raw_induct[OF _ assms(1)]) (auto split: if_splits option.splits)
  then show ?thesis using assms(2) by blast
qed

text \<open>The snapshots a run brought, and the invariant of the runs.\<close>

fun snapshots :: "wt_event list \<Rightarrow> thread_groups list" where
  "snapshots [] = []"
| "snapshots (Snapshot threads time # es) =
    (case processThreads threads of Some (Some groups) \<Rightarrow> groups # snapshots es | _ \<Rightarrow> snapshots es)"
| "snapshots (_ # es) = snapshots es"

definition wt_shows :: "thread_groups list \<Rightarrow> string set \<Rightarrow> worker_thread_list \<Rightarrow> bool" where
  "wt_shows gs clicked s \<longleftrightarrow> (wt_mounted s \<longleftrightarrow> WorkerThreadList_render s \<noteq> None)
    \<and> (wt_mounted s \<longrightarrow> wt_threads s = (if gs = [] then None else Some (last gs)))
    \<and> (\<forall>groups. wt_threads s = Some groups \<longrightarrow> groups \<in> set gs)
    \<and> (\<forall>groups \<in> set gs. map_get groups ALL_THREADS \<noteq> None)
    \<and> selectedGroup s \<in> insert ALL_THREADS clicked"

definition clicked_groups :: "wt_event list \<Rightarrow> string set" where
  "clicked_groups es = {g. GroupClick g \<in> set es}"

lemma wt_setState_shows:
  assumes "wt_shows gs clicked s" "\<And>t. wt_mounted (f t) = wt_mounted t"
    and "wt_mounted s \<Longrightarrow> wt_threads (f s) = (if gs' = [] then wt_threads s else Some (last gs'))"
    and "selectedGroup (f s) \<in> insert (selectedGroup s) clicked'" "\<forall>groups \<in> set gs'. map_get groups ALL_THREADS \<noteq> None"
  shows "wt_shows (gs @ gs') (clicked \<union> clicked') (wt_setState f s)"
proof (cases "wt_mounted s")
  case True
  have t: "wt_threads (f s) = (if gs @ gs' = [] then None else Some (last (gs @ gs')))"
    using assms(1) assms(3)[OF True] True by (simp add: wt_shows_def)
  have r: "WorkerThreadList_render (wt_setState f s) = None \<longleftrightarrow> WorkerThreadList_render (f s) = None"
    by (simp add: wt_setState_def True WorkerThreadList_render_None)
  have "wt_threads (wt_setState f s) = wt_threads (f s)" "selectedGroup (wt_setState f s) = selectedGroup (f s)"
    "wt_mounted (wt_setState f s) \<longleftrightarrow> WorkerThreadList_render (f s) \<noteq> None"
    using assms(2)[of s] True by (simp_all add: wt_setState_def)
  moreover have "groups \<in> set (gs @ gs')" if "wt_threads (f s) = Some groups" for groups
    using that t by (metis last_in_set option.inject option.distinct(1))
  ultimately show ?thesis using assms(1,4,5) r t by (auto simp: wt_shows_def)
next
  case False
  then show ?thesis using assms(1,5) by (auto simp: wt_shows_def wt_setState_def)
qed

lemma wt_shows_requests [simp]: "wt_shows gs clicked (s\<lparr> wt_requests := n \<rparr>) = wt_shows gs clicked s"
  by (simp add: wt_shows_def WorkerThreadList_render_None)

lemma wt_shows_step:
  assumes "wt_shows gs clicked s" "wt_exec e s = Some s'"
  shows "wt_shows (gs @ snapshots [e]) (clicked \<union> clicked_groups [e]) s'"
proof (cases e)
  case NewSnapshotClick
  have "wt_shows (gs @ []) (clicked \<union> {}) (wt_setState (\<lambda>s. s\<lparr> wt_initialized := False \<rparr>) s)"
    by (rule wt_setState_shows[OF assms(1)]) simp_all
  then show ?thesis using assms(2) NewSnapshotClick
    by (auto simp: handleNewSnapshotClick_def captureSnapshot_def clicked_groups_def split: if_splits)
next
  case (GroupClick g)
  have "wt_shows (gs @ []) (clicked \<union> {g}) (wt_setState (\<lambda>s. s\<lparr> selectedGroup := g \<rparr>) s)"
    by (rule wt_setState_shows[OF assms(1)]) simp_all
  then show ?thesis using assms(2) GroupClick by (simp add: handleGroupClick_def clicked_groups_def split: if_splits)
next
  case (ThreadStateClick st)
  have "wt_shows (gs @ []) (clicked \<union> {}) (wt_setState (\<lambda>s. s\<lparr> selectedThreadState := st \<rparr>) s)"
    by (rule wt_setState_shows[OF assms(1)]) simp_all
  then show ?thesis using assms(2) ThreadStateClick by (simp add: handleThreadStateClick_def clicked_groups_def split: if_splits)
next
  case (Snapshot threads time)
  let ?s = "s\<lparr> wt_requests := wt_requests s - 1 \<rparr>"
  have s: "wt_shows gs clicked ?s" using assms(1) by simp
  have "onSnapshot threads time ?s = Some s'" using assms(2) Snapshot by (simp split: if_splits)
  then obtain r where r: "processThreads threads = Some r"
    "s' = (case r of None \<Rightarrow> ?s
      | Some groups \<Rightarrow> wt_setState (\<lambda>s. s\<lparr> wt_threads := Some groups, snapshotTime := time, wt_initialized := True \<rparr>) ?s)"
    unfolding onSnapshot_def map_option_eq_Some by blast
  show ?thesis
  proof (cases r)
    case None
    then show ?thesis using r s Snapshot by (simp add: clicked_groups_def)
  next
    case (Some groups)
    then have "map_get groups ALL_THREADS \<noteq> None" using r(1) process_from_all unfolding processThreads_def by blast
    then have "wt_shows (gs @ [groups]) (clicked \<union> {})
        (wt_setState (\<lambda>s. s\<lparr> wt_threads := Some groups, snapshotTime := time, wt_initialized := True \<rparr>) ?s)"
      by (intro wt_setState_shows[OF s]) simp_all
    then show ?thesis using r Some Snapshot by (simp add: clicked_groups_def)
  qed
next
  case SnapshotError
  have "wt_shows gs clicked (s\<lparr> wt_requests := wt_requests s - 1 \<rparr>)" using assms(1) by simp
  then have "wt_shows (gs @ []) (clicked \<union> {}) (wt_setState (\<lambda>s. s\<lparr> wt_initialized := True \<rparr>) (s\<lparr> wt_requests := wt_requests s - 1 \<rparr>))"
    by (rule wt_setState_shows) simp_all
  then show ?thesis using assms(2) SnapshotError by (simp add: onSnapshotError_def clicked_groups_def split: if_splits)
qed

lemma snapshots_append: "snapshots (es @ fs) = snapshots es @ snapshots fs"
  by (induction es rule: snapshots.induct) (auto split: option.split)

lemma wt_shows_run:
  "exec_all wt_exec es s = Some s' \<Longrightarrow> wt_shows gs clicked s \<Longrightarrow> wt_shows (gs @ snapshots es) (clicked \<union> clicked_groups es) s'"
proof (induction es arbitrary: s gs clicked)
  case (Cons e es)
  then obtain s1 where s1: "wt_exec e s = Some s1" "exec_all wt_exec es s1 = Some s'" by (auto split: bind_splits)
  have "clicked_groups (e # es) = clicked_groups [e] \<union> clicked_groups es" by (auto simp: clicked_groups_def)
  with Cons.IH[OF s1(2), OF wt_shows_step[OF Cons.prems(2) s1(1)]] show ?case
    using snapshots_append[of "[e]" es] by (simp add: Un_assoc)
qed (simp add: clicked_groups_def)

text \<open>After a failed first request the page offers nothing, and no event but a snapshot still on its way changes that.\<close>

lemma wt_failed_run:
  "exec_all wt_exec es s = Some s' \<Longrightarrow> snapshots es = [] \<Longrightarrow> wt_threads s = None \<Longrightarrow> wt_initialized s
    \<Longrightarrow> wt_threads s' = None \<and> wt_initialized s'"
proof (induction es arbitrary: s)
  case (Cons e es)
  then obtain s1 where s1: "wt_exec e s = Some s1" "exec_all wt_exec es s1 = Some s'" by (auto split: bind_splits)
  have n: "snapshots [e] = []" "snapshots es = []" using Cons.prems(2) snapshots_append[of "[e]" es] by auto
  have "\<not> wt_clickable c s" for c using Cons.prems(3,4) by (simp add: wt_clickable_iff wt_offers_def)
  then have "wt_threads s1 = None \<and> wt_initialized s1"
    using s1(1) n(1) Cons.prems(3,4)
    by (cases e) (auto simp: onSnapshot_def onSnapshotError_def wt_setState_def split: if_splits option.splits)
  then show ?case using Cons.IH[OF s1(2) n(2)] by blast
qed simp

lemma wt_failure_final:
  assumes "exec_all wt_exec es WorkerThreadList_init = Some s" "SnapshotError \<in> set es" "snapshots es = []"
  shows "\<not> wt_clickable e s"
proof -
  obtain as bs where es: "es = as @ SnapshotError # bs" using assms(2) by (auto simp: in_set_conv_decomp)
  then obtain s1 s2 where r: "exec_all wt_exec as WorkerThreadList_init = Some s1" "wt_exec SnapshotError s1 = Some s2"
    "exec_all wt_exec bs s2 = Some s"
    using assms(1) by (auto simp: exec_all_append simp del: wt_exec.simps split: bind_splits)
  have n: "snapshots as = []" "snapshots bs = []" using assms(3) by (simp_all add: es snapshots_append)
  have "wt_shows [] {} WorkerThreadList_init"
    by (simp add: wt_shows_def WorkerThreadList_init_def WorkerThreadList_render_None)
  from wt_shows_run[OF r(1) this] have "wt_shows [] (clicked_groups as) s1" by (simp add: n)
  then have t: "wt_threads s1 = None" by (cases "wt_threads s1") (simp_all add: wt_shows_def)
  then have "WorkerThreadList_render s1 \<noteq> None" by (simp add: WorkerThreadList_render_None)
  then have m: "wt_mounted s1" using \<open>wt_shows [] (clicked_groups as) s1\<close> by (simp add: wt_shows_def)
  have "s2 = onSnapshotError (s1\<lparr> wt_requests := wt_requests s1 - 1 \<rparr>)" using r(2) by (simp split: if_splits)
  then have "wt_threads s2 = None \<and> wt_initialized s2"
    using t m by (simp add: onSnapshotError_def wt_setState_def)
  then show ?thesis using wt_failed_run[OF r(3) n(2)] by (simp add: wt_clickable_iff wt_offers_def)
qed

text \<open>
  C37. The thread list after any run of clicks, snapshots and failures.  It is on the page exactly as long
  as its state can be rendered, and then it has the last snapshot that could be grouped.  It is gone
  exactly when the snapshot it was given lacks the selected group, since the selection survives a new snapshot.
  When no group but \<open>All Threads\<close> was ever selected, it stays on the page.  After a failed request and
  without a snapshot there is nothing to click on, so that a new one cannot be asked for.
\<close>

theorem thread_list_run:
  assumes "exec_all wt_exec es WorkerThreadList_init = Some s"
  shows "(wt_mounted s \<longleftrightarrow> WorkerThreadList_render s \<noteq> None)
    \<and> (wt_mounted s \<longrightarrow> wt_threads s = (if snapshots es = [] then None else Some (last (snapshots es))))
    \<and> (\<not> wt_mounted s \<longleftrightarrow> (\<exists>groups \<in> set (snapshots es). wt_threads s = Some groups \<and> map_get groups (selectedGroup s) = None))
    \<and> ((\<forall>g. GroupClick g \<in> set es \<longrightarrow> g = ALL_THREADS) \<longrightarrow> wt_mounted s)
    \<and> (SnapshotError \<in> set es \<and> snapshots es = [] \<longrightarrow> (\<forall>e. \<not> wt_clickable e s))"
proof -
  have i: "wt_shows [] {} WorkerThreadList_init"
    by (simp add: wt_shows_def WorkerThreadList_init_def WorkerThreadList_render_None)
  from wt_shows_run[OF assms i] have s: "wt_shows (snapshots es) (clicked_groups es) s" by simp
  then have m: "wt_mounted s \<longleftrightarrow> WorkerThreadList_render s \<noteq> None"
    and t: "wt_mounted s \<longrightarrow> wt_threads s = (if snapshots es = [] then None else Some (last (snapshots es)))"
    and g: "\<And>groups. wt_threads s = Some groups \<Longrightarrow> groups \<in> set (snapshots es) \<and> map_get groups ALL_THREADS \<noteq> None"
    and c: "selectedGroup s = ALL_THREADS \<or> GroupClick (selectedGroup s) \<in> set es"
    unfolding wt_shows_def clicked_groups_def by blast+
  have n: "\<not> wt_mounted s \<longleftrightarrow> (\<exists>groups \<in> set (snapshots es). wt_threads s = Some groups \<and> map_get groups (selectedGroup s) = None)"
    using m g unfolding WorkerThreadList_render_None by blast
  have "wt_mounted s" if "\<forall>g. GroupClick g \<in> set es \<longrightarrow> g = ALL_THREADS"
  proof (rule ccontr)
    assume "\<not> wt_mounted s"
    then obtain groups where "wt_threads s = Some groups" "map_get groups (selectedGroup s) = None" using n by blast
    moreover have "selectedGroup s = ALL_THREADS" using c that by blast
    ultimately show False using g by simp
  qed
  then have a: "(\<forall>g. GroupClick g \<in> set es \<longrightarrow> g = ALL_THREADS) \<longrightarrow> wt_mounted s" by (rule impI)
  have "SnapshotError \<in> set es \<and> snapshots es = [] \<longrightarrow> (\<forall>e. \<not> wt_clickable e s)"
    using wt_failure_final[OF assms] by blast
  with m t n a show ?thesis by (intro conjI)
qed

definition vanishing_group_run :: "wt_event list" where
  "vanishing_group_run =
    [NewSnapshotClick, Snapshot [example_thread 1 ''http-worker-17'' ''WAITING'', example_thread 3 ''main'' ''RUNNABLE''] ''12:00'',
     GroupClick ''http-worker'', NewSnapshotClick, Snapshot [example_thread 3 ''main'' ''RUNNABLE''] ''12:01'']"

theorem thread_list_run_witness:
  "\<exists>s. exec_all wt_exec vanishing_group_run WorkerThreadList_init = Some s \<and> \<not> wt_mounted s \<and> WorkerThreadList_render s = None"
proof -
  let ?w = "example_thread 1 ''http-worker-17'' ''WAITING''" and ?m = "example_thread 3 ''main'' ''RUNNABLE''"
  have w: "plain_thread ?w" "is_query_thread ?w = False" "thread_group ?w = ''http-worker''"
    and m: "plain_thread ?m" "is_query_thread ?m = False" "thread_group ?m = ''main''"
    and o: "''http-worker'' \<notin> set object_prototype" "''main'' \<notin> set object_prototype" by code_simp+
  have l: "process_list [?w, ?m] [] = Some [(''http-worker'', [?w]), (''main'', [?m])]" "process_list [?m] [] = Some [(''main'', [?m])]"
    by (simp_all add: process_thread_def w m o ALL_THREADS_def Let_def)
  have p: "processThreads [?w, ?m] = Some (Some [(ALL_THREADS, [?w, ?m]), (''http-worker'', [?w]), (''main'', [?m])])"
    "processThreads [?m] = Some (Some [(ALL_THREADS, [?m]), (''main'', [?m])])"
    unfolding processThreads_def using process_from_plain[of "[?w, ?m]" 0 "[]"] process_from_plain[of "[?m]" 0 "[]"] w(1) m(1) l by simp_all
  obtain s where s: "exec_all wt_exec vanishing_group_run WorkerThreadList_init = Some s" "\<not> wt_mounted s"
    by (simp add: vanishing_group_run_def WorkerThreadList_init_def handleNewSnapshotClick_def captureSnapshot_def
        onSnapshot_def p handleGroupClick_def wt_setState_def WorkerThreadList_render_None ALL_THREADS_def
        wt_clickable_iff wt_offers_def)
  have "WorkerThreadList_render s = None" using conjunct1[OF thread_list_run[OF s(1)]] s(2) by simp
  with s show ?thesis by (intro exI[of _ s] conjI)
qed

end
