(* ===== verification/QueryInfo.thy ===== *)
theory QueryInfo
  imports QueryListItem
begin

text \<open>
  The data the pages of one query work on: \<open>QueryInfo\<close> as the server sends it, with its tree of
  stages, their tasks, their operator summaries and their plan fragments, and the calls with which
  the pages build a graph of the library \<open>dagre\<close>.

  As in \<open>Utils\<close>, a field the server may leave out is an option and a field it always sends is not.
  The ids of pipelines and operators are the integers of the server.
\<close>

section \<open>Stages and tasks\<close>

record operator_summary =
  os_pipelineId :: int
  os_operatorId :: int
  os_planNodeId :: string
  os_operatorType :: string
  os_totalDrivers :: jsnum
  os_inputPositions :: jsnum
  os_inputDataSize :: string
  os_outputPositions :: jsnum
  os_outputDataSize :: string
  os_addInputWall :: string
  os_getOutputWall :: string
  os_finishWall :: string
  os_blockedWall :: string

record pipeline_stats =
  pl_pipelineId :: int
  pl_operatorSummaries :: "operator_summary list"

record task_info =
  tk_taskId :: string
  tk_self :: string
  tk_nodeId :: string
  tk_state :: string
  tk_createTime :: string
  tk_firstStartTime :: "string option"
  tk_lastStartTime :: "string option"
  tk_lastEndTime :: "string option"
  tk_endTime :: "string option"
  tk_elapsedTime :: string
  tk_totalScheduledTime :: string
  tk_totalCpuTime :: string
  tk_fullyBlocked :: bool
  tk_rawInputPositions :: jsnum
  tk_rawInputDataSize :: string
  tk_queuedDrivers :: jsnum
  tk_runningDrivers :: jsnum
  tk_blockedDrivers :: jsnum
  tk_completedDrivers :: jsnum
  tk_totalBufferedBytes :: jsnum
  tk_pipelines :: "pipeline_stats list"

record stage_stats =
  ss_totalScheduledTime :: string
  ss_totalBlockedTime :: string
  ss_totalCpuTime :: string
  ss_cumulativeUserMemory :: jsnum
  ss_userMemoryReservation :: string
  ss_peakUserMemoryReservation :: string
  ss_bufferedDataSize :: string
  ss_fullyBlocked :: bool
  ss_queuedDrivers :: jsnum
  ss_runningDrivers :: jsnum
  ss_completedDrivers :: jsnum
  ss_rawInputDataSize :: string
  ss_rawInputPositions :: jsnum
  ss_outputDataSize :: string
  ss_outputPositions :: jsnum
  ss_operatorSummaries :: "operator_summary list"

record plan_fragment =
  pf_id :: string
  pf_root :: plan_node
  pf_jsonRepresentation :: "string option"

datatype stage_info = StageInfo
  (st_stageId: string) (st_state: string) (st_plan: "plan_fragment option") (st_stageStats: stage_stats)
  (st_tasks: "task_info list") (st_subStages: "stage_info list")

section \<open>Queries\<close>

text \<open>A message or a stack of \<open>None\<close> is not in the JSON text, \<open>Some None\<close> is \<open>null\<close>.\<close>

type_synonym js_stack = "string list option option"

datatype failure_info = FailureInfo
  (fi_type: string) (fi_message: "string option option") (fi_stack: js_stack)
  (fi_suppressed: "failure_info list option") (fi_cause: "failure_info option")

record session_details =
  sx_catalog :: "string option"
  sx_schema :: "string option"
  sx_remoteUserAddress :: "string option"
  sx_clientTags :: "string list"
  sx_systemProperties :: "(string, string) jsmap"
  sx_catalogProperties :: "(string, (string, string) jsmap) jsmap"
  sx_resourceEstimates :: "(string, string) jsmap"

record stats_details =
  sd_endTime :: "string option"
  sd_queuedTime :: string
  sd_totalScheduledTime :: string
  sd_totalBlockedTime :: string
  sd_processedInputPositions :: jsnum
  sd_processedInputDataSize :: string
  sd_rawInputPositions :: jsnum
  sd_rawInputDataSize :: string
  sd_peakTotalMemoryReservation :: string
  sd_outputPositions :: jsnum
  sd_outputDataSize :: string
  sd_writtenPositions :: jsnum
  sd_logicalWrittenDataSize :: string
  sd_physicalWrittenDataSize :: string
  sd_spilledDataSize :: string

text \<open>
  \<open>qi_session\<close> and \<open>qi_stats\<close> hold the fields of \<open>query.session\<close> and \<open>query.queryStats\<close> that only the
  pages of one query read.
\<close>

record query_info = query +
  qi_outputStage :: "stage_info option"
  qi_finalQueryInfo :: bool
  qi_failureInfo :: "failure_info option"
  qi_warnings :: "(string \<times> string) list"
  qi_session :: session_details
  qi_stats :: stats_details

text \<open>A query for concrete runs.\<close>

definition example_query_info :: "string \<Rightarrow> stage_info option \<Rightarrow> bool \<Rightarrow> query_info" where
  "example_query_info st outputStage final =
    query.extend (example_query ''q'' st ''2019-01-31T00:00:01.000Z'')
      (query_info.fields outputStage final None []
        \<lparr> sx_catalog = Some ''tpch'', sx_schema = None, sx_remoteUserAddress = Some ''10.0.0.2'', sx_clientTags = [],
          sx_systemProperties = [], sx_catalogProperties = [], sx_resourceEstimates = [] \<rparr>
        \<lparr> sd_endTime = None, sd_queuedTime = ''1.00ms'', sd_totalScheduledTime = ''1.00s'', sd_totalBlockedTime = ''0.00ns'',
          sd_processedInputPositions = Fin 1000, sd_processedInputDataSize = ''8.79kB'', sd_rawInputPositions = Fin 1000,
          sd_rawInputDataSize = ''8.79kB'', sd_peakTotalMemoryReservation = ''1MB'', sd_outputPositions = Fin 10,
          sd_outputDataSize = ''90B'', sd_writtenPositions = Fin 0, sd_logicalWrittenDataSize = ''0B'',
          sd_physicalWrittenDataSize = ''0B'', sd_spilledDataSize = ''0B'' \<rparr>)"

section \<open>Graphs\<close>

text \<open>
  The calls on a graph of the library, in the order they are made: the creation of the graph with its options
  and its label (its default label for edges is an empty object), a node with its attributes and
  the element its label is rendered from, an edge, and the cluster a node is put in.
\<close>

datatype 'l graph_call =
    NewGraph "(string \<times> string) list" "(string \<times> string) list"
  | SetNode string "(string \<times> string) list" "'l option"
  | SetEdge string string "(string \<times> string) list"
  | SetParent string string

fun node_of :: "'l graph_call \<Rightarrow> string list" where
  "node_of (SetNode n as l) = [n]"
| "node_of _ = []"

fun edge_of :: "'l graph_call \<Rightarrow> (string \<times> string) list" where
  "edge_of (SetEdge a b as) = [(a, b)]"
| "edge_of _ = []"

fun parent_of :: "'l graph_call \<Rightarrow> (string \<times> string) list" where
  "parent_of (SetParent n p) = [(n, p)]"
| "parent_of _ = []"

definition graph_nodes :: "'l graph_call list \<Rightarrow> string list" where
  "graph_nodes cs = concat (map node_of cs)"

definition graph_edges :: "'l graph_call list \<Rightarrow> (string \<times> string) list" where
  "graph_edges cs = concat (map edge_of cs)"

definition graph_parents :: "'l graph_call list \<Rightarrow> (string \<times> string) list" where
  "graph_parents cs = concat (map parent_of cs)"

definition initializeGraph :: "'l graph_call list" where
  "initializeGraph = [NewGraph [(''compound'', ''true'')] [(''rankdir'', ''BT'')]]"

text \<open>
  The selection of an element on the rendered page; the group a drawing goes into is appended to what is
  selected, so that there is one exactly when the selection is not empty.
\<close>

definition initializeSvg :: "string \<Rightarrow> ('h, 'c) vnode \<Rightarrow> bool" where
  "initializeSvg selector page = selects selector page"

lemma graph_simps [simp]:
  "graph_nodes [] = []" "graph_edges [] = []" "graph_parents [] = []"
  "graph_nodes (c # cs) = node_of c @ graph_nodes cs"
  "graph_edges (c # cs) = edge_of c @ graph_edges cs"
  "graph_parents (c # cs) = parent_of c @ graph_parents cs"
  "graph_nodes (cs @ ds) = graph_nodes cs @ graph_nodes ds"
  "graph_edges (cs @ ds) = graph_edges cs @ graph_edges ds"
  "graph_parents (cs @ ds) = graph_parents cs @ graph_parents ds"
  by (simp_all add: graph_nodes_def graph_edges_def graph_parents_def)

lemma initializeGraph_empty [simp]: "graph_nodes initializeGraph = []" "graph_edges initializeGraph = []" "graph_parents initializeGraph = []"
  by (simp_all add: initializeGraph_def)

lemma graph_concat:
  "graph_nodes (concat css) = concat (map graph_nodes css)"
  "graph_edges (concat css) = concat (map graph_edges css)"
  "graph_parents (concat css) = concat (map graph_parents css)"
  by (induction css) simp_all

section \<open>Grouping in a \<open>Map\<close>\<close>

text \<open>
  \<open>if (!m.has(k)) m.set(k, []); m.get(k).push(x)\<close>, and the map such a loop over \<open>xs\<close> builds.
\<close>

definition map_push :: "'k \<Rightarrow> 'v \<Rightarrow> ('k, 'v list) jsmap \<Rightarrow> ('k, 'v list) jsmap" where
  "map_push k x m = map_set k ((case map_get m k of None \<Rightarrow> [] | Some xs \<Rightarrow> xs) @ [x]) m"

definition group_by :: "('v \<Rightarrow> 'k) \<Rightarrow> 'v list \<Rightarrow> ('k, 'v list) jsmap" where
  "group_by f xs = foldl (\<lambda>m x. map_push (f x) x m) [] xs"

lemma group_by_snoc: "group_by f (xs @ [x]) = map_push (f x) x (group_by f xs)"
  by (simp add: group_by_def)

lemma group_by_Nil [simp]: "group_by f [] = []"
  by (simp add: group_by_def)

text \<open>A group is the elements with its key, in their order; no group is empty.\<close>

lemma group_by_get:
  "map_get (group_by f xs) k = (let g = filter (\<lambda>x. f x = k) xs in if g = [] then None else Some g)"
proof (induction xs rule: rev_induct)
  case (snoc x xs)
  then show ?case
    by (auto simp: group_by_snoc map_push_def update_conv' Let_def split: option.splits if_splits)
qed simp

lemma distinct_group_by: "distinct (map fst (group_by f xs))"
  by (induction xs rule: rev_induct) (simp_all add: group_by_snoc map_push_def distinct_update)

section \<open>Traversals\<close>

text \<open>The stages of a tree, a stage before its sub-stages.\<close>

primrec stage_list :: "stage_info \<Rightarrow> stage_info list" where
  "stage_list (StageInfo i st pl ss ts subs) = StageInfo i st pl ss ts subs # concat (map stage_list subs)"

lemma stage_list_eq: "stage_list s = s # concat (map stage_list (st_subStages s))"
  by (cases s) simp

lemma size_subStages: "t \<in> set (st_subStages s) \<Longrightarrow> size t < size s"
  by (cases s) (auto simp: less_Suc_eq_le size_list_estimation' trans_le_add2)

text \<open>The tasks of a stage and of all stages below it.\<close>

function stage_tasks :: "stage_info \<Rightarrow> task_info list" where
  "stage_tasks stage = st_tasks stage @ concat (map stage_tasks (st_subStages stage))"
  by pat_completeness auto
termination
  by (relation "measure size") (auto dest: size_subStages)

declare stage_tasks.simps [simp del]

lemma stage_tasks_list: "stage_tasks stage = concat (map st_tasks (stage_list stage))"
proof (induction stage rule: measure_induct_rule[where f = size])
  case (less stage)
  have "concat (map stage_tasks (st_subStages stage)) = concat (map (\<lambda>t. concat (map st_tasks (stage_list t))) (st_subStages stage))"
    by (rule arg_cong[where f = concat], rule map_cong[OF refl], rule less.IH, erule size_subStages)
  then show ?case by (subst stage_tasks.simps, subst stage_list_eq) (simp add: concat_concat comp_def map_concat)
qed

lemma find_append: "List.find P (xs @ ys) = (case List.find P xs of None \<Rightarrow> List.find P ys | Some x \<Rightarrow> Some x)"
  by (induction xs) auto

text \<open>The children of a plan node are smaller than the node.\<close>

lemma children_cases:
  assumes "(if a then Some [so] else if b then Some [le, ri] else if c then Some [so, fs] else if d then Some [le, ri]
    else if e then Some [pr, ix] else if f then map_option (map Some) ss else Some []) = Some cs" "x \<in> set cs"
  shows "x \<in> {so, le, ri, fs, pr, ix} \<or> (\<exists>xs. ss = Some xs \<and> x \<in> Some ` set xs)"
  using assms by (auto split: if_splits)

lemma getChildren_size:
  assumes "getChildren n = Some cs" "Some c \<in> set cs"
  shows "size c < size n"
proof -
  have "Some c \<in> {pn_source n, pn_left n, pn_right n, pn_filteringSource n, pn_probeSource n, pn_indexSource n}
      \<or> (\<exists>xs. pn_sources n = Some xs \<and> Some c \<in> Some ` set xs)"
    by (rule children_cases[OF assms(1)[unfolded getChildren_def] assms(2)])
  moreover have "c \<in> set xs \<Longrightarrow> size c \<le> size_list size xs" for xs :: "plan_node list"
    by (simp add: size_list_estimation')
  ultimately show ?thesis by (cases n) fastforce
qed

end
