(* ===== verification/OperatorGraph.thy ===== *)
theory OperatorGraph
  imports QueryInfo Charts
begin

text \<open>
  \<^verbatim>\<open>src/components/StageDetail.jsx\<close>, first part: the summary and the details of an operator and the
  graph of the operators of a stage.  \<open>computeOperatorGraphs\<close> walks the plan of the stage and chains
  the operators of every pipeline from sink to source; the laws compare it with a reference
  definition that reads the operators of one pipeline off the plan.
\<close>

section \<open>Operators\<close>

definition getTotalWallTime :: "operator_summary \<Rightarrow> jsnum" where
  "getTotalWallTime operator =
    js_add (js_add (js_add (to_num (parseDuration (os_addInputWall operator))) (to_num (parseDuration (os_getOutputWall operator))))
      (to_num (parseDuration (os_finishWall operator)))) (to_num (parseDuration (os_blockedWall operator)))"

text \<open>\<open>totalWallTime === 0 ? 0 : (1.0 * x) / t\<close>.\<close>

definition operator_rate :: "jsnum \<Rightarrow> jsnum \<Rightarrow> jsnum \<Rightarrow> jsnum" where
  "operator_rate totalWallTime x t =
    (if js_eq totalWallTime (Fin 0) then Fin 0 else js_div (js_mul (Fin 1) x) t)"

definition in_secs :: "jsnum \<Rightarrow> jsnum" where
  "in_secs t = js_div t (Fin 1000)"

text \<open>\<open>formatCount(rows) + " rows (" + size + ")"\<close> and the rate line.\<close>

definition rows_text :: "jsnum \<Rightarrow> string \<Rightarrow> string throws" where
  "rows_text positions dataSize = do { c \<leftarrow> formatCount (JNum positions); Some (c @ '' rows ('' @ dataSize @ '')'') }"

definition rate_text :: "jsnum \<Rightarrow> jsnum \<Rightarrow> string throws" where
  "rate_text rowRate byteRate =
    do { c \<leftarrow> formatCount (JNum rowRate); b \<leftarrow> formatDataSize (JNum byteRate); Some (c @ '' rows/s ('' @ b @ ''/s)'') }"

definition table_row :: "string \<Rightarrow> ('h, 'c) vnode \<Rightarrow> ('h, 'c) vnode" where
  "table_row title v = el ''tr'' [el ''td'' [Text title], el ''td'' [v]]"

definition OperatorSummary_render :: "operator_summary \<Rightarrow> ('h, 'c) vnode throws" where
  "OperatorSummary_render operator =
    (let totalWallTime = getTotalWallTime operator;
         rowInputRate = operator_rate totalWallTime (os_inputPositions operator) (in_secs totalWallTime);
         byteInputRate = operator_rate totalWallTime (to_num (parseDataSize (os_inputDataSize operator))) (in_secs totalWallTime)
     in do {
       rate \<leftarrow> rate_text rowInputRate byteInputRate;
       outp \<leftarrow> rows_text (os_outputPositions operator) (os_outputDataSize operator);
       wall \<leftarrow> formatDuration (JNum totalWallTime);
       blocked \<leftarrow> formatDuration (parseDuration (os_blockedWall operator));
       inp \<leftarrow> rows_text (os_inputPositions operator) (os_inputDataSize operator);
       Some (el ''div''
         [divc ''highlight-row''
           [divc ''header-row'' [Text (os_operatorType operator)],
            el ''div'' [Text rate]],
          elc ''table'' ''table'' [el ''tbody''
           [table_row ''Output'' (Text outp),
            table_row ''Drivers'' (Number (JNum (os_totalDrivers operator))),
            table_row ''Wall Time'' (Text wall),
            table_row ''Blocked'' (Text blocked),
            table_row ''Input'' (Text inp)]]]) })"

section \<open>Operator details\<close>

record statistic =
  sk_name :: string
  sk_id :: string
  sk_supplier :: "operator_summary \<Rightarrow> jv"
  sk_renderer :: formatter

text \<open>What \<open>componentDidMount\<close> of \<open>OperatorStatistic\<close> hands to the chart: the element, the bars and their width, the tooltips, and the other properties, with the formatter of the numbers.\<close>

record bar_chart =
  bc_selector :: string
  bc_values :: "jv list"
  bc_barWidth :: jsnum
  bc_offsets :: "(nat \<times> string) list"
  bc_properties :: chart_properties

definition BAR_CHART_PROPERTIES :: chart_properties where
  "BAR_CHART_PROPERTIES =
    [(''type'', CvText ''bar''), (''barSpacing'', CvText ''0''), (''height'', CvText ''80px''), (''barColor'', CvText ''#747F96''),
     (''zeroColor'', CvText ''#8997B3''), (''tooltipClassname'', CvText ''sparkline-tooltip''), (''tooltipFormat'', CvText ''Task {{offset:offset}} - {{value}}''), (''disableHiddenCheck'', CvFlag True)]"

definition OperatorStatistic_mount :: "statistic \<Rightarrow> operator_summary list \<Rightarrow> bar_chart" where
  "OperatorStatistic_mount st operators =
    \<lparr> bc_selector = ''#'' @ sk_id st, bc_values = map (sk_supplier st) operators,
      bc_barWidth = js_div (Fin 800) (num_int (int (length operators))),
      bc_offsets = map (\<lambda>i. (i, num_to_string (num_int (int i)))) [0..<length operators],
      bc_properties = js_extend BAR_CHART_PROPERTIES [(''numberFormatter'', CvFormatter (sk_renderer st))] \<rparr>"

definition OperatorStatistic_render :: "statistic \<Rightarrow> ('h, 'c) vnode" where
  "OperatorStatistic_render st =
    divc ''row operator-statistic''
      [divc ''col-xs-2 italic-uppercase operator-statistic-title'' [Text (sk_name st)],
       divc ''col-xs-10'' [Elem ''span'' [className ''bar-chart'', attr ''id'' (sk_id st)] []]]"

definition getInitialStatistics :: "statistic list" where
  "getInitialStatistics =
    [\<lparr> sk_name = ''Total Wall Time'', sk_id = ''totalWallTime'', sk_supplier = (\<lambda>operator. JNum (getTotalWallTime operator)), sk_renderer = FormatDuration \<rparr>,
     \<lparr> sk_name = ''Input Rows'', sk_id = ''inputPositions'', sk_supplier = (\<lambda>operator. JNum (os_inputPositions operator)), sk_renderer = FormatCount \<rparr>,
     \<lparr> sk_name = ''Input Data Size'', sk_id = ''inputDataSize'', sk_supplier = (\<lambda>operator. parseDataSize (os_inputDataSize operator)), sk_renderer = FormatDataSize \<rparr>,
     \<lparr> sk_name = ''Output Rows'', sk_id = ''outputPositions'', sk_supplier = (\<lambda>operator. JNum (os_outputPositions operator)), sk_renderer = FormatCount \<rparr>,
     \<lparr> sk_name = ''Output Data Size'', sk_id = ''outputDataSize'', sk_supplier = (\<lambda>operator. parseDataSize (os_outputDataSize operator)), sk_renderer = FormatDataSize \<rparr>]"

text \<open>\<open>tasks.sort\<close> sorts the array of the stage in place.\<close>

definition task_cmp :: "task_info \<Rightarrow> task_info \<Rightarrow> jsnum" where
  "task_cmp taskA taskB = js_sub (getTaskNumber (tk_taskId taskA)) (getTaskNumber (tk_taskId taskB))"

definition sort_tasks :: "task_info list \<Rightarrow> task_info list" where
  "sort_tasks tasks = array_sort task_cmp tasks"

definition getOperatorTasks :: "operator_summary \<Rightarrow> task_info list \<Rightarrow> operator_summary list" where
  "getOperatorTasks operatorSummary tasks =
    concat (map (\<lambda>task.
      concat (map (\<lambda>pipeline.
        if pl_pipelineId pipeline = os_pipelineId operatorSummary
        then filter (\<lambda>operator. os_operatorId operatorSummary = os_operatorId operator) (pl_operatorSummaries pipeline)
        else []) (tk_pipelines task))) (sort_tasks tasks))"

datatype od_child = OperatorStatistic statistic "operator_summary list"

text \<open>The operator is \<open>null\<close> when \<open>handleOperatorClick\<close> finds none; then reading its wall times throws.\<close>

definition OperatorDetail_render :: "operator_summary option \<Rightarrow> task_info list \<Rightarrow> (unit, od_child) vnode throws" where
  "OperatorDetail_render props_operator tasks =
    do {
      operator \<leftarrow> props_operator;
      let operatorTasks = getOperatorTasks operator tasks;
      let totalWallTime = getTotalWallTime operator;
      let rowInputRate = operator_rate totalWallTime (os_inputPositions operator) totalWallTime;
      let byteInputRate = operator_rate totalWallTime (to_num (parseDataSize (os_inputDataSize operator))) (in_secs totalWallTime);
      let rowOutputRate = operator_rate totalWallTime (os_outputPositions operator) totalWallTime;
      let byteOutputRate = operator_rate totalWallTime (to_num (parseDataSize (os_outputDataSize operator))) (in_secs totalWallTime);
      inp \<leftarrow> rows_text (os_inputPositions operator) (os_inputDataSize operator);
      inRate \<leftarrow> rate_text rowInputRate byteInputRate;
      outp \<leftarrow> rows_text (os_outputPositions operator) (os_outputDataSize operator);
      outRate \<leftarrow> rate_text rowOutputRate byteOutputRate;
      wall \<leftarrow> formatDuration (JNum totalWallTime);
      blocked \<leftarrow> formatDuration (parseDuration (os_blockedWall operator));
      Some (divc ''row'' [divc ''col-xs-12''
        [divc ''modal-header''
          [Elem ''button'' [attr ''type'' ''button'', className ''close'', attr ''data-dismiss'' ''modal'', attr ''aria-label'' ''Close'']
             [Elem ''span'' [attr ''aria-hidden'' ''true''] [Text [CHR 0xD7]]],
           el ''h3'' [el ''small'' [Text ''Pipeline '', Number (JNum (num_int (os_pipelineId operator)))], el ''br'' [], Text (os_operatorType operator)]],
         divc ''row''
          [divc ''col-xs-6'' [elc ''table'' ''table'' [el ''tbody''
             [table_row ''Input'' (Text inp), table_row ''Input Rate'' (Text inRate),
              table_row ''Output'' (Text outp), table_row ''Output Rate'' (Text outRate)]]],
           divc ''col-xs-6'' [elc ''table'' ''table'' [el ''tbody''
             [table_row ''Wall Time'' (Text wall), table_row ''Blocked'' (Text blocked),
              table_row ''Drivers'' (Number (JNum (os_totalDrivers operator))),
              table_row ''Tasks'' (Number (JNum (num_int (int (length operatorTasks)))))]]]],
         divc ''row font-white''
          [divc ''col-xs-2 italic-uppercase'' [el ''strong'' [Text ''Statistic'']],
           divc ''col-xs-10 italic-uppercase'' [el ''strong'' [Text ''Tasks'']]],
         Fragment (map (\<lambda>st. Comp (OperatorStatistic st operatorTasks)) getInitialStatistics),
         el ''p'' [], el ''p'' []]]) }"

section \<open>The operator graph of a stage\<close>

text \<open>A copied operator with the property \<open>child\<close> that chains it to the operator it reads from.\<close>

datatype linked = Linked (l_operator: operator_summary) (l_child: "linked option")

definition operator_cmp :: "operator_summary \<Rightarrow> operator_summary \<Rightarrow> jsnum" where
  "operator_cmp a b = js_sub (num_int (os_operatorId a)) (num_int (os_operatorId b))"

fun link_operators :: "linked \<Rightarrow> operator_summary list \<Rightarrow> linked" where
  "link_operators currentOperator [] = currentOperator"
| "link_operators currentOperator (source # rest) = link_operators (Linked source (Some currentOperator)) rest"

text \<open>
  One pipeline of a node: the copies sorted from source to sink, the source chained to what the
  sources of the node gave for the pipeline; the result is the sink.  A pipeline has at least one
  operator, so that nothing is set for an empty list.
\<close>

definition set_pipeline :: "(int, linked) jsmap \<Rightarrow> (int, linked) jsmap \<Rightarrow> int \<times> operator_summary list \<Rightarrow> (int, linked) jsmap" where
  "set_pipeline sourceResults result = (\<lambda>(pipelineId, operators).
    case array_sort operator_cmp operators of
      [] \<Rightarrow> result
    | sourceOperator # rest \<Rightarrow>
        map_set pipelineId (link_operators (Linked sourceOperator (map_get sourceResults pipelineId)) rest) result)"

text \<open>The entries of \<open>extra\<close> whose key is not there yet.\<close>

definition add_missing :: "('k, 'v) jsmap \<Rightarrow> ('k, 'v) jsmap \<Rightarrow> ('k, 'v) jsmap" where
  "add_missing m extra = foldl (\<lambda>m (k, v). if map_has m k then m else map_set k v m) m extra"

text \<open>
  A missing \<open>sources\<close> array or source makes the walk throw.  A pipeline two sources share keeps the
  operators of the first source (the second is reported on the console).
\<close>

function computeOperatorGraphs :: "plan_node \<Rightarrow> (string, operator_summary list) jsmap \<Rightarrow> (int, linked) jsmap throws" where
  "computeOperatorGraphs planNode operatorMap =
    (case getChildren planNode of
       None \<Rightarrow> None
     | Some sources \<Rightarrow>
         do {
           results \<leftarrow> mapM (\<lambda>source. case source of None \<Rightarrow> None | Some c \<Rightarrow> computeOperatorGraphs c operatorMap) sources;
           let sourceResults = foldl add_missing [] results;
           (case map_get operatorMap (pn_id planNode) of
              None \<Rightarrow> Some sourceResults
            | Some nodeOperators \<Rightarrow>
                if length nodeOperators = 0 then Some sourceResults
                else let pipelineOperators = group_by os_pipelineId nodeOperators;
                         result = foldl (set_pipeline sourceResults) [] pipelineOperators
                     in Some (add_missing result sourceResults)) })"
  by pat_completeness auto
termination
  by (relation "measure (\<lambda>(n, m). size n)") (auto dest: getChildren_size)

definition computeOperatorMap :: "operator_summary list \<Rightarrow> (string, operator_summary list) jsmap" where
  "computeOperatorMap operatorSummaries = group_by os_planNodeId operatorSummaries"

definition operatorNodeId :: "operator_summary \<Rightarrow> string" where
  "operatorNodeId operator =
    ''operator-'' @ num_to_string (num_int (os_pipelineId operator)) @ ''-'' @ num_to_string (num_int (os_operatorId operator))"

definition pipelineNodeId :: "int \<Rightarrow> string" where
  "pipelineNodeId pipelineId = ''pipeline-'' @ num_to_string (num_int pipelineId)"

primrec computeD3StageOperatorGraph :: "linked \<Rightarrow> string option \<Rightarrow> string \<Rightarrow> ('h, 'c) vnode graph_call list throws"
  and computeD3_child :: "linked option \<Rightarrow> string option \<Rightarrow> string \<Rightarrow> ('h, 'c) vnode graph_call list throws" where
  "computeD3StageOperatorGraph (Linked operator child) sink pipelineNode =
    do {
      html \<leftarrow> OperatorSummary_render operator;
      below \<leftarrow> computeD3_child child (Some (operatorNodeId operator)) pipelineNode;
      Some ([SetNode (operatorNodeId operator) [(''class'', ''operator-stats''), (''labelType'', ''html'')] (Some html)]
        @ below
        @ (case sink of None \<Rightarrow> [] | Some s \<Rightarrow> [SetEdge (operatorNodeId operator) s [(''class'', ''plan-edge''), (''arrowheadClass'', ''plan-arrowhead'')]])
        @ [SetParent (operatorNodeId operator) pipelineNode]) }"
| "computeD3_child None sink pipelineNode = Some []"
| "computeD3_child (Some operator) sink pipelineNode = computeD3StageOperatorGraph operator sink pipelineNode"

text \<open>The calls for one pipeline, a cluster with its chain of operators.\<close>

definition pipeline_calls :: "int \<times> linked \<Rightarrow> ('h, 'c) vnode graph_call list throws" where
  "pipeline_calls = (\<lambda>(pipelineId, operator).
    do {
      cs \<leftarrow> computeD3StageOperatorGraph operator None (pipelineNodeId pipelineId);
      Some (SetNode (pipelineNodeId pipelineId)
              [(''label'', ''Pipeline '' @ num_to_string (num_int pipelineId) @ '' ''), (''clusterLabelPos'', ''top''),
               (''style'', ''fill: #2b2b2b''), (''labelStyle'', ''fill: #fff'')] None # cs) })"

text \<open>
  The calls that build the graph, and whether the container is shown with the graph rendered into
  it (\<open>operatorGraphs.size > 0\<close>) or hidden.  Reading \<open>stage.plan.root\<close> throws for a stage without plan.
\<close>

definition updateD3Graph :: "stage_info option \<Rightarrow> (('h, 'c) vnode graph_call list \<times> bool) option throws" where
  "updateD3Graph props_stage =
    (case props_stage of
       None \<Rightarrow> Some None
     | Some stage \<Rightarrow>
         do {
           let operatorMap = computeOperatorMap (ss_operatorSummaries (st_stageStats stage));
           plan \<leftarrow> st_plan stage;
           operatorGraphs \<leftarrow> computeOperatorGraphs (pf_root plan) operatorMap;
           calls \<leftarrow> mapM pipeline_calls operatorGraphs;
           Some (Some (initializeGraph @ concat calls, 0 < length operatorGraphs)) })"

text \<open>
  The operator the click on a node of the graph selects: the last one with both ids.  A node id
  without the two hyphens has no ids to read (\<open>parseInt(undefined)\<close> is \<open>NaN\<close>).
\<close>

definition css_number :: "string \<Rightarrow> nat \<Rightarrow> jsnum" where
  "css_number operatorCssId i =
    (let parts = split_char (CHR ''-'') operatorCssId in if i < length parts then parse_int (parts ! i) else NaN)"

definition operatorStageSummary :: "stage_info \<Rightarrow> string \<Rightarrow> operator_summary option" where
  "operatorStageSummary stage operatorCssId =
    (let pipelineId = css_number operatorCssId 1;
         operatorId = css_number operatorCssId 2
     in foldl (\<lambda>found operator.
          if js_eq (num_int (os_pipelineId operator)) pipelineId \<and> js_eq (num_int (os_operatorId operator)) operatorId
          then Some operator else found) None (ss_operatorSummaries (st_stageStats stage)))"

definition handleOperatorClick :: "stage_info \<Rightarrow> string \<Rightarrow> (unit, od_child) vnode throws" where
  "handleOperatorClick stage operatorCssId = OperatorDetail_render (operatorStageSummary stage operatorCssId) (st_tasks stage)"

definition StageOperatorGraph_render :: "stage_info \<Rightarrow> ('h, 'c) vnode" where
  "StageOperatorGraph_render stage =
    (if st_plan stage = None then
       divc ''row error-message'' [divc ''col-xs-12'' [el ''h4'' [Text ''Stage does not have a plan'']]]
     else if length (ss_operatorSummaries (st_stageStats stage)) = 0 then
       divc ''row error-message'' [divc ''col-xs-12'' [el ''h4'' [Text ''Operator data not available for '', Text (st_stageId stage)]]]
     else Nothing)"

section \<open>Laws\<close>

subsection \<open>Chains and maps\<close>

text \<open>The operators of a chain from the sink to the source, and the chain of a pipeline.\<close>

fun chain :: "linked \<Rightarrow> operator_summary list" where
  "chain (Linked operator None) = [operator]"
| "chain (Linked operator (Some child)) = operator # chain child"

definition chain_of :: "(int, linked) jsmap \<Rightarrow> int \<Rightarrow> operator_summary list" where
  "chain_of m p = (case map_get m p of None \<Rightarrow> [] | Some l \<Rightarrow> chain l)"

fun first_nonempty :: "'a list list \<Rightarrow> 'a list" where
  "first_nonempty [] = []"
| "first_nonempty (xs # xss) = (if xs = [] then first_nonempty xss else xs)"

lemma chain_nonempty [simp]: "chain l \<noteq> []"
  by (induction l rule: chain.induct) auto

lemma chain_of_Nil_iff: "chain_of m p = [] \<longleftrightarrow> map_get m p = None"
  by (simp add: chain_of_def split: option.split)

lemma chain_of_empty [simp]: "chain_of [] p = []"
  by (simp add: chain_of_def)

lemma chain_Linked: "chain (Linked operator c) = operator # (case c of None \<Rightarrow> [] | Some l \<Rightarrow> chain l)"
  by (cases c) simp_all

lemma chain_link_operators: "chain (link_operators l os) = rev os @ chain l"
  by (induction os arbitrary: l) simp_all

lemma add_missing_get:
  "map_get (add_missing m extra) k = (case map_get m k of None \<Rightarrow> map_get extra k | Some v \<Rightarrow> Some v)"
  unfolding add_missing_def
proof (induction extra arbitrary: m)
  case (Cons e extra)
  obtain a b where e: "e = (a, b)" by (cases e)
  show ?case unfolding foldl_Cons Cons.IH e by (cases "map_get m a") (auto simp: update_conv' split: option.split)
qed (simp split: option.split)

lemma distinct_add_missing: "distinct (map fst m) \<Longrightarrow> distinct (map fst (add_missing m extra))"
  unfolding add_missing_def by (induction extra arbitrary: m) (auto simp: distinct_update)

lemma distinct_foldl_add_missing: "distinct (map fst m) \<Longrightarrow> distinct (map fst (foldl add_missing m ms))"
  by (induction ms arbitrary: m) (simp_all add: distinct_add_missing)

lemma chain_of_add_missing: "chain_of (add_missing m extra) p = (if chain_of m p = [] then chain_of extra p else chain_of m p)"
  by (simp add: chain_of_def add_missing_get split: option.split)

lemma chain_of_foldl_add_missing:
  "chain_of (foldl add_missing m ms) p = first_nonempty (chain_of m p # map (\<lambda>m. chain_of m p) ms)"
  by (induction ms arbitrary: m) (simp_all add: chain_of_add_missing)

lemma distinct_set_pipeline:
  "distinct (map fst m) \<Longrightarrow> distinct (map fst (set_pipeline sr m g))"
  by (cases g) (simp add: set_pipeline_def distinct_update split: list.split)

lemma distinct_foldl_set_pipeline:
  "distinct (map fst m) \<Longrightarrow> distinct (map fst (foldl (set_pipeline sr) m gs))"
  by (induction gs arbitrary: m) (simp_all add: distinct_set_pipeline)

lemma array_sort_Nil_iff: "array_sort cmp xs = [] \<longleftrightarrow> xs = []"
  by (metis length_0_conv length_array_sort)

lemma chain_of_set_pipeline:
  "ops \<noteq> [] \<Longrightarrow> chain_of (set_pipeline sr m (k, ops)) p =
    (if p = k then rev (array_sort operator_cmp ops) @ chain_of sr p else chain_of m p)"
  using array_sort_Nil_iff[of operator_cmp ops]
  by (auto simp: set_pipeline_def chain_of_def update_conv' chain_link_operators chain_Linked split: list.split)

lemma chain_of_foldl_set_pipeline:
  assumes "distinct (map fst gs)" "\<And>k ops. (k, ops) \<in> set gs \<Longrightarrow> ops \<noteq> []"
  shows "chain_of (foldl (set_pipeline sr) m gs) p =
    (case map_get gs p of None \<Rightarrow> chain_of m p | Some ops \<Rightarrow> rev (array_sort operator_cmp ops) @ chain_of sr p)"
  using assms
proof (induction gs arbitrary: m)
  case (Cons g gs)
  obtain k ops where g: "g = (k, ops)" by (cases g)
  have "ops \<noteq> []" using Cons.prems(2)[of k ops] g by simp
  moreover have "map_get gs k = None" using Cons.prems(1) g by (simp add: map_of_eq_None_iff)
  moreover have "chain_of (foldl (set_pipeline sr) (set_pipeline sr m g) gs) p =
      (case map_get gs p of None \<Rightarrow> chain_of (set_pipeline sr m g) p | Some ops \<Rightarrow> rev (array_sort operator_cmp ops) @ chain_of sr p)"
    using Cons.prems by (intro Cons.IH) auto
  ultimately show ?case using g by (simp add: chain_of_set_pipeline split: option.split)
qed simp

subsection \<open>Folding a plan\<close>

text \<open>The plan as a tree of the nodes \<open>getChildren\<close> gives; a plan the walk throws on has no fold.\<close>

function plan_fold :: "(plan_node \<Rightarrow> 'a list \<Rightarrow> 'a) \<Rightarrow> plan_node \<Rightarrow> 'a option" where
  "plan_fold f n =
    (case getChildren n of
       None \<Rightarrow> None
     | Some cs \<Rightarrow> do { xs \<leftarrow> mapM (\<lambda>c. case c of None \<Rightarrow> None | Some c \<Rightarrow> plan_fold f c) cs; Some (f n xs) })"
  by pat_completeness auto
termination
  by (relation "measure (\<lambda>(f, n). size n)") (auto dest: getChildren_size)

declare plan_fold.simps [simp del] computeOperatorGraphs.simps [simp del]

lemma mapM_rel:
  assumes "\<And>x. x \<in> set xs \<Longrightarrow> rel_option R (f x) (g x)"
  shows "rel_option (list_all2 R) (mapM f xs) (mapM g xs)"
  using assms
proof (induction xs)
  case (Cons x xs)
  have "rel_option R (f x) (g x)" "rel_option (list_all2 R) (mapM f xs) (mapM g xs)" using Cons by simp_all
  then show ?case by (cases "f x"; cases "g x"; cases "mapM f xs"; cases "mapM g xs") simp_all
qed simp

text \<open>Two folds with related steps have related results.\<close>

lemma plan_fold_rel:
  assumes "\<And>n xs ys. list_all2 R xs ys \<Longrightarrow> R (f n xs) (g n ys)"
  shows "rel_option R (plan_fold f n) (plan_fold g n)"
proof (induction n rule: measure_induct_rule[where f = size])
  case (less n)
  show ?case
  proof (cases "getChildren n")
    case (Some cs)
    have "rel_option R (case c of None \<Rightarrow> None | Some c \<Rightarrow> plan_fold f c) (case c of None \<Rightarrow> None | Some c \<Rightarrow> plan_fold g c)"
      if "c \<in> set cs" for c
    proof (cases c)
      case (Some d)
      then show ?thesis using that less.IH getChildren_size[OF \<open>getChildren n = Some cs\<close>] by simp
    qed simp
    from mapM_rel[where xs = cs and R = R and f = "case_option None (plan_fold f)" and g = "case_option None (plan_fold g)", OF this]
    show ?thesis unfolding plan_fold.simps[of f n] plan_fold.simps[of g n] Some
      by (auto elim!: option.rel_cases intro: assms)
  qed (simp add: plan_fold.simps)
qed

subsection \<open>The operators of a pipeline\<close>

definition node_operators :: "(string, operator_summary list) jsmap \<Rightarrow> plan_node \<Rightarrow> operator_summary list" where
  "node_operators om n = (case map_get om (pn_id n) of None \<Rightarrow> [] | Some os \<Rightarrow> os)"

definition graph_step :: "(string, operator_summary list) jsmap \<Rightarrow> plan_node \<Rightarrow> (int, linked) jsmap list \<Rightarrow> (int, linked) jsmap" where
  "graph_step om n results =
    (let sourceResults = foldl add_missing [] results; ops = node_operators om n
     in if ops = [] then sourceResults
        else add_missing (foldl (set_pipeline sourceResults) [] (group_by os_pipelineId ops)) sourceResults)"

lemma computeOperatorGraphs_fold: "computeOperatorGraphs n om = plan_fold (graph_step om) n"
proof (induction n rule: measure_induct_rule[where f = size])
  case (less n)
  show ?case
  proof (cases "getChildren n")
    case (Some cs)
    have "mapM (\<lambda>c. case c of None \<Rightarrow> None | Some c \<Rightarrow> computeOperatorGraphs c om) cs =
        mapM (\<lambda>c. case c of None \<Rightarrow> None | Some c \<Rightarrow> plan_fold (graph_step om) c) cs"
      by (rule mapM_cong) (auto simp: less.IH getChildren_size[OF Some] split: option.split)
    then show ?thesis unfolding computeOperatorGraphs.simps[of n] plan_fold.simps[of _ n] Some
      by (auto simp: graph_step_def node_operators_def Let_def intro!: Option.bind_cong split: option.split)
  qed (simp add: computeOperatorGraphs.simps plan_fold.simps)
qed

text \<open>The comparator of \<open>operatorId\<close> sorts as the sort of the library does, from the source to the sink.\<close>

interpretation by_operator: comparator operator_cmp "\<lambda>a b. os_operatorId a \<le> os_operatorId b" UNIV
proof
  fix x y :: operator_summary
  let ?d = "of_int (os_operatorId x) - of_int (os_operatorId y) :: rat"
  have "js_lt (Fin 0) (fl ?d) \<longleftrightarrow> 0 < ?d"
  proof (cases "os_operatorId y < os_operatorId x")
    case True
    then have "1 \<le> ?d" using of_int_le_iff[where 'a = rat, of 1 "os_operatorId x - os_operatorId y"] by simp
    then have "1 \<le> rnd ?d" using dbl_of_int[of 1] by (intro rnd_ge_dbl) simp_all
    then show ?thesis using True huge_pos by (auto simp: fl_def Let_def)
  next
    case False
    then have "?d \<le> 0" by simp
    then have "rnd ?d \<le> 0" using dbl_of_int[of 0] by (intro rnd_le_dbl) simp_all
    then have "\<not> huge \<le> rnd ?d" using huge_pos by linarith
    then show ?thesis using \<open>?d \<le> 0\<close> \<open>rnd ?d \<le> 0\<close> by (auto simp: fl_def Let_def)
  qed
  then show "js_lt (Fin 0) (operator_cmp x y) \<longleftrightarrow> \<not> os_operatorId x \<le> os_operatorId y"
    by (auto simp: operator_cmp_def js_sub_def)
qed auto

lemma sort_operators: "array_sort operator_cmp ops = sort_key os_operatorId ops"
proof (rule properties_for_sort_key[symmetric])
  show "mset (array_sort operator_cmp ops) = mset ops" by simp
  show "filter (\<lambda>x. os_operatorId k = os_operatorId x) (array_sort operator_cmp ops) = filter (\<lambda>x. os_operatorId k = os_operatorId x) ops" for k :: operator_summary
  proof -
    have e: "(\<lambda>y. os_operatorId y \<le> os_operatorId k \<and> os_operatorId k \<le> os_operatorId y) = (\<lambda>x. os_operatorId k = os_operatorId x)" by auto
    show ?thesis using by_operator.array_sort_stable[of ops k] unfolding e by simp
  qed
  show "sorted (map os_operatorId (array_sort operator_cmp ops))"
    using by_operator.sorted_array_sort[of ops] by (simp add: sorted_map)
qed

text \<open>
  The reference: the operators of pipeline \<open>p\<close> from the sink down are those of the node, last
  operator id first, and then those of the first source that has any.
\<close>

definition pipeline_step :: "(string, operator_summary list) jsmap \<Rightarrow> plan_node \<Rightarrow> (int \<Rightarrow> operator_summary list) list \<Rightarrow> int \<Rightarrow> operator_summary list" where
  "pipeline_step om n below p =
    rev (sort_key os_operatorId (filter (\<lambda>operator. os_pipelineId operator = p) (node_operators om n)))
    @ first_nonempty (map (\<lambda>b. b p) below)"

definition pipeline_operators :: "(string, operator_summary list) jsmap \<Rightarrow> plan_node \<Rightarrow> (int \<Rightarrow> operator_summary list) option" where
  "pipeline_operators om n = plan_fold (pipeline_step om) n"

lemma graph_step_chain:
  "chain_of (graph_step om n results) p = pipeline_step om n (map chain_of results) p"
proof -
  let ?sr = "foldl add_missing [] results" and ?gs = "group_by os_pipelineId (node_operators om n)"
  have sr: "chain_of ?sr p = first_nonempty (map (\<lambda>b. b p) (map chain_of results))"
    by (simp add: chain_of_foldl_add_missing comp_def)
  show ?thesis
  proof (cases "node_operators om n = []")
    case False
    have "(k, ops) \<in> set ?gs \<Longrightarrow> ops \<noteq> []" for k ops
      using group_by_get[of os_pipelineId "node_operators om n" k] distinct_group_by[of os_pipelineId "node_operators om n"]
      by (auto simp: Let_def split: if_splits dest!: map_of_is_SomeI[rotated])
    then have gs: "chain_of (foldl (set_pipeline ?sr) [] ?gs) p =
        (case map_get ?gs p of None \<Rightarrow> [] | Some ops \<Rightarrow> rev (array_sort operator_cmp ops) @ chain_of ?sr p)"
      by (subst chain_of_foldl_set_pipeline) (simp_all add: distinct_group_by split: option.split)
    show ?thesis using False
      by (simp add: graph_step_def Let_def chain_of_add_missing gs group_by_get pipeline_step_def sr sort_operators)
  qed (simp add: graph_step_def pipeline_step_def sr)
qed

lemma distinct_graph_step: "distinct (map fst (graph_step om n results))"
  by (simp add: graph_step_def Let_def distinct_add_missing distinct_foldl_add_missing distinct_foldl_set_pipeline)

lemma operator_graphs_rel:
  "rel_option (\<lambda>m c. chain_of m = c \<and> distinct (map fst m)) (computeOperatorGraphs n om) (pipeline_operators om n)"
  unfolding computeOperatorGraphs_fold pipeline_operators_def
proof (rule plan_fold_rel)
  fix n and xs :: "(int, linked) jsmap list" and ys
  assume "list_all2 (\<lambda>m c. chain_of m = c \<and> distinct (map fst m)) xs ys"
  then have "ys = map chain_of xs" by (induction xs ys rule: list_all2_induct) simp_all
  then show "chain_of (graph_step om n xs) = pipeline_step om n ys \<and> distinct (map fst (graph_step om n xs))"
    by (simp add: graph_step_chain fun_eq_iff distinct_graph_step)
qed

text \<open>
  C18. The walk that builds the operator graphs of all pipelines at once agrees, pipeline by
  pipeline, with the reference that collects the operators of one pipeline: it throws on the same
  plans, and the chain it gives for a pipeline is exactly the reference list.
\<close>

theorem computeOperatorGraphs_equiv:
  "map_option chain_of (computeOperatorGraphs n om) = pipeline_operators om n"
  using operator_graphs_rel[of n om] by (auto elim!: option.rel_cases)

subsection \<open>Every operator is drawn once\<close>

definition plan_nodes :: "plan_node \<Rightarrow> plan_node list option" where
  "plan_nodes n = plan_fold (\<lambda>n xs. n # concat xs) n"

text \<open>
  The nodes of a plan from the root down, and whether no two sources of a node have operators of one pipeline.
\<close>

definition tree_step :: "(string, operator_summary list) jsmap \<Rightarrow> plan_node \<Rightarrow> (plan_node list \<times> bool) list \<Rightarrow> plan_node list \<times> bool" where
  "tree_step om n xs =
    (n # concat (map fst xs),
     list_all snd xs \<and> sorted_wrt (\<lambda>a b. list_all (\<lambda>x. list_all (\<lambda>y. os_pipelineId x \<noteq> os_pipelineId y) b) a)
       (map (\<lambda>x. concat (map (node_operators om) (fst x))) xs))"

definition single_source :: "(string, operator_summary list) jsmap \<Rightarrow> plan_node \<Rightarrow> bool" where
  "single_source om n = (case plan_fold (tree_step om) n of None \<Rightarrow> False | Some (ns, ok) \<Rightarrow> ok)"

abbreviation of_pipeline :: "int \<Rightarrow> operator_summary list \<Rightarrow> operator_summary list" where
  "of_pipeline p \<equiv> filter (\<lambda>operator. os_pipelineId operator = p)"

text \<open>The operators of a pipeline along a list of nodes, in each node from the sink to the source.\<close>

definition node_chain :: "(string, operator_summary list) jsmap \<Rightarrow> plan_node list \<Rightarrow> int \<Rightarrow> operator_summary list" where
  "node_chain om ns p = concat (map (\<lambda>n. rev (sort_key os_operatorId (of_pipeline p (node_operators om n)))) ns)"

lemma node_chain_simps [simp]:
  "node_chain om [] p = []"
  "node_chain om (n # ns) p = rev (sort_key os_operatorId (of_pipeline p (node_operators om n))) @ node_chain om ns p"
  "node_chain om (ns @ ms) p = node_chain om ns p @ node_chain om ms p"
  by (simp_all add: node_chain_def)

lemma node_chain_concat: "node_chain om (concat nss) p = concat (map (\<lambda>ns. node_chain om ns p) nss)"
  by (induction nss) simp_all

lemma mset_node_chain: "mset (node_chain om ns p) = mset (of_pipeline p (concat (map (node_operators om) ns)))"
  by (induction ns) simp_all

lemma node_chain_Nil_iff: "node_chain om ns p = [] \<longleftrightarrow> of_pipeline p (concat (map (node_operators om) ns)) = []"
  using mset_node_chain[of om ns p] by (metis mset_zero_iff)

definition collects :: "(string, operator_summary list) jsmap \<Rightarrow> (int \<Rightarrow> operator_summary list) \<Rightarrow> plan_node list \<times> bool \<Rightarrow> bool" where
  "collects om c t \<longleftrightarrow> (\<forall>p. c p = [] \<longleftrightarrow> node_chain om (fst t) p = []) \<and> (snd t \<longrightarrow> (\<forall>p. c p = node_chain om (fst t) p))"

lemma first_nonempty_Nil: "first_nonempty xss = [] \<longleftrightarrow> (\<forall>xs \<in> set xss. xs = [])"
  by (induction xss) auto

lemma first_nonempty_single:
  "sorted_wrt (\<lambda>a b. a = [] \<or> b = []) xss \<Longrightarrow> first_nonempty xss = concat xss"
proof (induction xss)
  case (Cons xs xss)
  then show ?case by (cases "xs = []") (auto simp: concat_eq_Nil_conv)
qed simp

lemma collects_step:
  assumes "list_all2 (collects om) below xs"
  shows "collects om (pipeline_step om n below) (tree_step om n xs)"
proof -
  let ?below = "\<lambda>p. map (\<lambda>b. b p) below" and ?chains = "\<lambda>p. map (\<lambda>t. node_chain om (fst t) p) xs"
  have len: "length below = length xs" using assms by (rule list_all2_lengthD)
  have each: "collects om (below ! i) (xs ! i)" if "i < length xs" for i
    using assms that len by (simp add: list_all2_conv_all_nth)
  have chains: "node_chain om (concat (map fst xs)) p = concat (?chains p)" for p by (simp add: node_chain_concat comp_def)
  have nil: "first_nonempty (?below p) = [] \<longleftrightarrow> concat (?chains p) = []" for p
  proof -
    have "(\<forall>b \<in> set below. b p = []) \<longleftrightarrow> (\<forall>i < length xs. (below ! i) p = [])"
      using len by (metis in_set_conv_nth)
    also have "\<dots> \<longleftrightarrow> (\<forall>i < length xs. node_chain om (fst (xs ! i)) p = [])"
      using each unfolding collects_def by blast
    also have "\<dots> \<longleftrightarrow> (\<forall>t \<in> set xs. node_chain om (fst t) p = [])" by (metis in_set_conv_nth)
    finally show ?thesis by (simp add: first_nonempty_Nil)
  qed
  have all: "first_nonempty (?below p) = concat (?chains p)" if "snd (tree_step om n xs)" for p
  proof -
    have ok: "list_all snd xs" "sorted_wrt (\<lambda>a b. list_all (\<lambda>x. list_all (\<lambda>y. os_pipelineId x \<noteq> os_pipelineId y) b) a)
        (map (\<lambda>x. concat (map (node_operators om) (fst x))) xs)"
      using that by (simp_all add: tree_step_def)
    have "?below p = ?chains p"
      using each ok(1) len by (intro nth_equalityI) (auto simp: collects_def list_all_length)
    moreover have "node_chain om (fst (xs ! i)) p = [] \<or> node_chain om (fst (xs ! j)) p = []" if ij: "i < j" "j < length xs" for i j
    proof -
      have "list_all (\<lambda>x. list_all (\<lambda>y. os_pipelineId x \<noteq> os_pipelineId y) (concat (map (node_operators om) (fst (xs ! j)))))
          (concat (map (node_operators om) (fst (xs ! i))))"
        using ok(2) ij by (simp add: sorted_wrt_iff_nth_less)
      then show ?thesis unfolding node_chain_Nil_iff by (fastforce simp: list_all_iff filter_empty_conv)
    qed
    ultimately show ?thesis by (simp add: first_nonempty_single sorted_wrt_iff_nth_less)
  qed
  show ?thesis unfolding collects_def pipeline_step_def using nil all by (auto simp: tree_step_def chains)
qed

lemma mset_groups:
  "distinct ks \<Longrightarrow> mset (concat (map (\<lambda>k. filter (\<lambda>x. f x = k) xs) ks)) = mset (filter (\<lambda>x. f x \<in> set ks) xs)"
proof (induction ks)
  case (Cons k ks)
  then have "mset (concat (map (\<lambda>k. filter (\<lambda>x. f x = k) xs) ks)) = filter_mset (\<lambda>x. f x \<in> set ks) (mset xs)" by simp
  then show ?case using Cons.prems by (auto intro!: multiset_eqI)
qed simp

text \<open>The operators of the graphs are those of the plan nodes, in the chains of their pipelines.\<close>

lemma graphs_collect:
  assumes "plan_nodes n = Some ns" "single_source om n"
  shows "\<exists>r. computeOperatorGraphs n om = Some r \<and> distinct (map fst r)
    \<and> (\<forall>(p, l) \<in> set r. chain l = node_chain om ns p)
    \<and> set (map fst r) = os_pipelineId ` set (concat (map (node_operators om) ns))"
proof -
  obtain ms where t: "plan_fold (tree_step om) n = Some (ms, True)"
    using assms(2) by (auto simp: single_source_def split: option.splits)
  have "rel_option (\<lambda>ns t. fst t = ns) (plan_fold (\<lambda>n xs. n # concat xs) n) (plan_fold (tree_step om) n)"
  proof (rule plan_fold_rel)
    fix n :: plan_node and xs and ys :: "(plan_node list \<times> bool) list"
    assume "list_all2 (\<lambda>ns t. fst t = ns) xs ys"
    then have "xs = map fst ys" by (induction xs ys rule: list_all2_induct) simp_all
    then show "fst (tree_step om n ys) = n # concat xs" by (simp add: tree_step_def)
  qed
  then have ms: "ms = ns" using assms(1) t by (simp add: plan_nodes_def)
  have "rel_option (collects om) (pipeline_operators om n) (plan_fold (tree_step om) n)"
    unfolding pipeline_operators_def by (rule plan_fold_rel) (rule collects_step)
  then obtain c where c: "pipeline_operators om n = Some c" "\<And>p. c p = node_chain om ns p"
    using t ms by (auto simp: collects_def elim!: option.rel_cases)
  then obtain r where r: "computeOperatorGraphs n om = Some r" "chain_of r = c" "distinct (map fst r)"
    using operator_graphs_rel[of n om] by (auto elim!: option.rel_cases)
  have "chain l = node_chain om ns p" if "(p, l) \<in> set r" for p l
    using map_of_is_SomeI[OF r(3) that] c(2)[of p] r(2) by (auto simp: chain_of_def)
  moreover have "p \<in> set (map fst r) \<longleftrightarrow> p \<in> os_pipelineId ` set (concat (map (node_operators om) ns))" for p
  proof -
    have "p \<in> set (map fst r) \<longleftrightarrow> chain_of r p \<noteq> []" by (simp add: chain_of_Nil_iff map_of_eq_None_iff)
    then show ?thesis unfolding r(2) c(2) node_chain_Nil_iff by (auto simp: filter_empty_conv)
  qed
  ultimately show ?thesis using r(1,3) by (intro exI[of _ r]) blast
qed

text \<open>Rendering an operator formats its blocked time, which throws on a text that is no duration.\<close>

definition blocked_known :: "operator_summary \<Rightarrow> bool" where
  "blocked_known operator \<longleftrightarrow> (case parseDuration (os_blockedWall operator) of JNum x \<Rightarrow> True | _ \<Rightarrow> False)"

lemma texts_defined:
  "rows_text positions dataSize \<noteq> None" "rate_text r b \<noteq> None" "formatDuration (JNum x) \<noteq> None"
  using formatCount_num[of positions] formatCount_num[of r] formatDataSize_num(1)[of b] formatDuration_num[of x]
  by (auto simp: rows_text_def rate_text_def)

lemma OperatorSummary_defined:
  assumes "blocked_known operator"
  shows "\<exists>n. (OperatorSummary_render operator :: ('h, 'c) vnode throws) = Some n"
proof -
  obtain x where "parseDuration (os_blockedWall operator) = JNum x"
    using assms by (auto simp: blocked_known_def split: jv.splits)
  then obtain t where t: "formatDuration (parseDuration (os_blockedWall operator)) = Some t" using formatDuration_num by metis
  have "(OperatorSummary_render operator :: ('h, 'c) vnode throws) \<noteq> None"
    by (simp add: OperatorSummary_render_def Let_def t texts_defined)
  then show ?thesis by blast
qed

text \<open>The calls of a chain: its operators as nodes, an edge from each operator to the one above it, all in the cluster of the pipeline.\<close>

lemma computeD3_chain:
  assumes "\<forall>operator \<in> set (chain l). blocked_known operator"
  shows "\<exists>cs :: ('h, 'c) vnode graph_call list. computeD3StageOperatorGraph l sink p = Some cs
    \<and> graph_nodes cs = map operatorNodeId (chain l)
    \<and> graph_edges cs = rev (case sink of None \<Rightarrow> zip (tl (map operatorNodeId (chain l))) (map operatorNodeId (chain l))
        | Some s \<Rightarrow> zip (map operatorNodeId (chain l)) (s # map operatorNodeId (chain l)))
    \<and> graph_parents cs = rev (map (\<lambda>operator. (operatorNodeId operator, p)) (chain l))"
  using assms
proof (induction l arbitrary: sink rule: chain.induct)
  case (1 operator)
  then show ?case using OperatorSummary_defined[of operator, where 'h = 'h and 'c = 'c] by (auto split: option.split)
next
  case (2 operator child)
  then obtain n :: "('h, 'c) vnode" where n: "OperatorSummary_render operator = Some n"
    using OperatorSummary_defined[of operator, where 'h = 'h and 'c = 'c] by auto
  from 2 obtain cs :: "('h, 'c) vnode graph_call list" where
    "computeD3StageOperatorGraph child (Some (operatorNodeId operator)) p = Some cs"
    "graph_nodes cs = map operatorNodeId (chain child)"
    "graph_edges cs = rev (zip (map operatorNodeId (chain child)) (operatorNodeId operator # map operatorNodeId (chain child)))"
    "graph_parents cs = rev (map (\<lambda>operator. (operatorNodeId operator, p)) (chain child))" by fastforce
  then show ?case using n by (auto split: option.split)
qed

lemma pipeline_calls_graph:
  assumes "\<forall>(p, l) \<in> set r. \<forall>operator \<in> set (chain l). blocked_known operator"
  shows "\<exists>css :: ('h, 'c) vnode graph_call list list. mapM pipeline_calls r = Some css
    \<and> graph_nodes (concat css) = concat (map (\<lambda>(p, l). pipelineNodeId p # map operatorNodeId (chain l)) r)
    \<and> graph_edges (concat css) = concat (map (\<lambda>(p, l). rev (zip (tl (map operatorNodeId (chain l))) (map operatorNodeId (chain l)))) r)
    \<and> graph_parents (concat css) = concat (map (\<lambda>(p, l). rev (map (\<lambda>operator. (operatorNodeId operator, pipelineNodeId p)) (chain l))) r)"
  using assms
proof (induction r)
  case (Cons x r)
  obtain p l where x: "x = (p, l)" by (cases x)
  from Cons obtain css :: "('h, 'c) vnode graph_call list list" where css: "mapM pipeline_calls r = Some css"
    "graph_nodes (concat css) = concat (map (\<lambda>(p, l). pipelineNodeId p # map operatorNodeId (chain l)) r)"
    "graph_edges (concat css) = concat (map (\<lambda>(p, l). rev (zip (tl (map operatorNodeId (chain l))) (map operatorNodeId (chain l)))) r)"
    "graph_parents (concat css) = concat (map (\<lambda>(p, l). rev (map (\<lambda>operator. (operatorNodeId operator, pipelineNodeId p)) (chain l))) r)"
    by auto
  have "\<forall>operator \<in> set (chain l). blocked_known operator" using Cons.prems x by simp
  from computeD3_chain[OF this, of None "pipelineNodeId p", where 'h = 'h and 'c = 'c] obtain cs :: "('h, 'c) vnode graph_call list" where
    "computeD3StageOperatorGraph l None (pipelineNodeId p) = Some cs" "graph_nodes cs = map operatorNodeId (chain l)"
    "graph_edges cs = rev (zip (tl (map operatorNodeId (chain l))) (map operatorNodeId (chain l)))"
    "graph_parents cs = rev (map (\<lambda>operator. (operatorNodeId operator, pipelineNodeId p)) (chain l))" by auto
  with css show ?case by (simp add: x pipeline_calls_def)
qed simp

definition drawn_operators :: "stage_info \<Rightarrow> plan_node list \<Rightarrow> operator_summary list" where
  "drawn_operators stage ns =
    filter (\<lambda>operator. os_planNodeId operator \<in> pn_id ` set ns) (ss_operatorSummaries (st_stageStats stage))"

text \<open>
  The operators of a pipeline from its sink down: those of the root of the plan first, then those of the nodes
  below it, and in every node the one with the last operator id first.
\<close>

definition pipeline_chain :: "stage_info \<Rightarrow> plan_node list \<Rightarrow> int \<Rightarrow> operator_summary list" where
  "pipeline_chain stage ns p =
    concat (map (\<lambda>n. rev (sort_key os_operatorId (filter (\<lambda>operator. os_planNodeId operator = pn_id n \<and> os_pipelineId operator = p)
      (ss_operatorSummaries (st_stageStats stage))))) ns)"

lemma node_operators_stage:
  "node_operators (computeOperatorMap ops) n = filter (\<lambda>operator. os_planNodeId operator = pn_id n) ops"
  by (simp add: node_operators_def computeOperatorMap_def group_by_get Let_def)

lemma node_chain_stage:
  "node_chain (computeOperatorMap (ss_operatorSummaries (st_stageStats stage))) ns p = pipeline_chain stage ns p"
  by (simp add: node_chain_def pipeline_chain_def node_operators_stage conj_commute)

lemma drawn_operators_tree:
  assumes "distinct (map pn_id ns)"
  shows "mset (concat (map (node_operators (computeOperatorMap (ss_operatorSummaries (st_stageStats stage)))) ns)) = mset (drawn_operators stage ns)"
proof -
  let ?ops = "ss_operatorSummaries (st_stageStats stage)"
  have "map (node_operators (computeOperatorMap ?ops)) ns = map (\<lambda>k. filter (\<lambda>x. os_planNodeId x = k) ?ops) (map pn_id ns)"
    by (simp add: node_operators_stage)
  then show ?thesis using mset_groups[OF assms, of os_planNodeId ?ops] by (simp only: drawn_operators_def set_map)
qed

lemma mset_pipeline_chain:
  assumes "distinct (map pn_id ns)"
  shows "mset (pipeline_chain stage ns p) = mset (of_pipeline p (drawn_operators stage ns))"
  unfolding node_chain_stage[symmetric] mset_node_chain mset_filter drawn_operators_tree[OF assms] ..

lemma mset_pipeline_chains:
  assumes "distinct (map pn_id ns)" "distinct ps" "os_pipelineId ` set (drawn_operators stage ns) \<subseteq> set ps"
  shows "mset (concat (map (pipeline_chain stage ns) ps)) = mset (drawn_operators stage ns)"
proof -
  have "mset (concat (map (pipeline_chain stage ns) ps)) = mset (concat (map (\<lambda>p. of_pipeline p (drawn_operators stage ns)) ps))"
    by (simp add: mset_concat mset_pipeline_chain[OF assms(1)] comp_def)
  also have "\<dots> = mset (filter (\<lambda>x. os_pipelineId x \<in> set ps) (drawn_operators stage ns))" by (rule mset_groups[OF assms(2)])
  also have "filter (\<lambda>x. os_pipelineId x \<in> set ps) (drawn_operators stage ns) = drawn_operators stage ns"
    using assms(3) by (auto simp: filter_id_conv)
  finally show ?thesis .
qed

lemma updateD3Graph_drawn:
  assumes plan: "st_plan stage = Some plan" "plan_nodes (pf_root plan) = Some ns" "distinct (map pn_id ns)"
    and single: "single_source (computeOperatorMap (ss_operatorSummaries (st_stageStats stage))) (pf_root plan)"
    and known: "list_all blocked_known (ss_operatorSummaries (st_stageStats stage))"
  obtains calls :: "('h, 'c) vnode graph_call list" and ps where "updateD3Graph (Some stage) = Some (Some (calls, drawn_operators stage ns \<noteq> []))"
    "distinct ps" "set ps = os_pipelineId ` set (drawn_operators stage ns)"
    "graph_nodes calls = concat (map (\<lambda>p. pipelineNodeId p # map operatorNodeId (pipeline_chain stage ns p)) ps)"
    "graph_edges calls = concat (map (\<lambda>p. rev (zip (tl (map operatorNodeId (pipeline_chain stage ns p))) (map operatorNodeId (pipeline_chain stage ns p)))) ps)"
    "graph_parents calls = concat (map (\<lambda>p. rev (map (\<lambda>operator. (operatorNodeId operator, pipelineNodeId p)) (pipeline_chain stage ns p))) ps)"
proof -
  let ?om = "computeOperatorMap (ss_operatorSummaries (st_stageStats stage))" and ?drawn = "drawn_operators stage ns"
  have drawn: "set (concat (map (node_operators ?om) ns)) = set ?drawn" using drawn_operators_tree[OF plan(3), of stage] by (rule mset_eq_setD)
  obtain r where r: "computeOperatorGraphs (pf_root plan) ?om = Some r" "distinct (map fst r)"
      "\<And>p l. (p, l) \<in> set r \<Longrightarrow> chain l = pipeline_chain stage ns p" "set (map fst r) = os_pipelineId ` set ?drawn"
    using graphs_collect[OF plan(2) single] unfolding node_chain_stage drawn by blast
  have "set (chain l) \<subseteq> set ?drawn" if "(p, l) \<in> set r" for p l
    using r(3)[OF that] mset_eq_setD[OF mset_pipeline_chain[OF plan(3), of stage p]] by auto
  then have "\<forall>(p, l) \<in> set r. \<forall>operator \<in> set (chain l). blocked_known operator"
    using known by (fastforce simp: list_all_iff drawn_operators_def)
  from pipeline_calls_graph[OF this, where 'h = 'h and 'c = 'c] obtain css :: "('h, 'c) vnode graph_call list list"
    where css: "mapM pipeline_calls r = Some css"
    and g: "graph_nodes (concat css) = concat (map (\<lambda>(p, l). pipelineNodeId p # map operatorNodeId (chain l)) r)"
      "graph_edges (concat css) = concat (map (\<lambda>(p, l). rev (zip (tl (map operatorNodeId (chain l))) (map operatorNodeId (chain l)))) r)"
      "graph_parents (concat css) = concat (map (\<lambda>(p, l). rev (map (\<lambda>operator. (operatorNodeId operator, pipelineNodeId p)) (chain l))) r)"
    by blast
  have "r = [] \<longleftrightarrow> ?drawn = []" using r(4) by auto
  then have u: "updateD3Graph (Some stage) = Some (Some (initializeGraph @ concat css, ?drawn \<noteq> []))"
    using plan(1) r(1) css by (simp add: updateD3Graph_def)
  show ?thesis by (rule that[OF u r(2,4)]) (auto simp: g r(3) intro!: arg_cong[where f = concat] map_cong)
qed

lemma updateD3Graph_defined:
  assumes "st_plan stage = Some plan" "plan_nodes (pf_root plan) = Some ns" "distinct (map pn_id ns)"
    and "single_source (computeOperatorMap (ss_operatorSummaries (st_stageStats stage))) (pf_root plan)"
    and "list_all blocked_known (ss_operatorSummaries (st_stageStats stage))"
  shows "(updateD3Graph (Some stage) :: (('h, 'c) vnode graph_call list \<times> bool) option throws) \<noteq> None"
  by (rule updateD3Graph_drawn[OF assms, where 'h = 'h and 'c = 'c]) simp

text \<open>
  C6. The operator graph of a stage is complete and drawn the right way round.  For a stage whose plan can be
  walked, with distinct plan node ids, no pipeline below two sources of one node and readable blocked times, the
  graph is drawn with one cluster for each pipeline of the operators of the plan nodes.  The operators of a
  pipeline are the chain from its sink down: along the plan from the root, and in every plan node from the last
  operator id to the first.  Each operator is a node of the graph exactly once, in the cluster of its pipeline,
  and the edges lead from each operator of the chain to the one before it.  The container is shown exactly when
  there is an operator to draw.
\<close>

theorem updateD3Graph_complete:
  assumes plan: "st_plan stage = Some plan" "plan_nodes (pf_root plan) = Some ns" "distinct (map pn_id ns)"
    and single: "single_source (computeOperatorMap (ss_operatorSummaries (st_stageStats stage))) (pf_root plan)"
    and known: "list_all blocked_known (ss_operatorSummaries (st_stageStats stage))"
  shows "\<exists>(calls :: (unit, unit) vnode graph_call list) ps.
      updateD3Graph (Some stage) = Some (Some (calls, drawn_operators stage ns \<noteq> []))
    \<and> distinct ps \<and> set ps = os_pipelineId ` set (drawn_operators stage ns)
    \<and> mset (concat (map (pipeline_chain stage ns) ps)) = mset (drawn_operators stage ns)
    \<and> graph_nodes calls = concat (map (\<lambda>p. pipelineNodeId p # map operatorNodeId (pipeline_chain stage ns p)) ps)
    \<and> graph_edges calls = concat (map (\<lambda>p. rev (zip (tl (map operatorNodeId (pipeline_chain stage ns p))) (map operatorNodeId (pipeline_chain stage ns p)))) ps)
    \<and> graph_parents calls = concat (map (\<lambda>p. rev (map (\<lambda>operator. (operatorNodeId operator, pipelineNodeId p)) (pipeline_chain stage ns p))) ps)"
proof -
  obtain calls :: "(unit, unit) vnode graph_call list" and ps where d:
    "updateD3Graph (Some stage) = Some (Some (calls, drawn_operators stage ns \<noteq> []))" "distinct ps" "set ps = os_pipelineId ` set (drawn_operators stage ns)"
    "graph_nodes calls = concat (map (\<lambda>p. pipelineNodeId p # map operatorNodeId (pipeline_chain stage ns p)) ps)"
    "graph_edges calls = concat (map (\<lambda>p. rev (zip (tl (map operatorNodeId (pipeline_chain stage ns p))) (map operatorNodeId (pipeline_chain stage ns p)))) ps)"
    "graph_parents calls = concat (map (\<lambda>p. rev (map (\<lambda>operator. (operatorNodeId operator, pipelineNodeId p)) (pipeline_chain stage ns p))) ps)"
    by (rule updateD3Graph_drawn[OF assms])
  moreover have "mset (concat (map (pipeline_chain stage ns) ps)) = mset (drawn_operators stage ns)"
    using plan(3) d(2,3) by (intro mset_pipeline_chains) simp_all
  ultimately show ?thesis by blast
qed

definition example_operator :: "int \<Rightarrow> int \<Rightarrow> string \<Rightarrow> string \<Rightarrow> operator_summary" where
  "example_operator p i node ty =
    \<lparr> os_pipelineId = p, os_operatorId = i, os_planNodeId = node, os_operatorType = ty, os_totalDrivers = Fin 4,
      os_inputPositions = Fin 1000, os_inputDataSize = ''8.79kB'', os_outputPositions = Fin 10, os_outputDataSize = ''90B'',
      os_addInputWall = ''1.00ms'', os_getOutputWall = ''2.00ms'', os_finishWall = ''0.00ns'', os_blockedWall = ''1.50s'' \<rparr>"

definition example_node :: "string \<Rightarrow> string \<Rightarrow> plan_node option \<Rightarrow> plan_node" where
  "example_node ty i so = PlanNode ty i so None None None None None None"

text \<open>An output over a join of a scan with a filtered scan, in two pipelines.\<close>

definition example_root :: plan_node where
  "example_root =
    example_node ''output'' ''10'' (Some (PlanNode ''join'' ''7'' None
      (Some (example_node ''tablescan'' ''1'' None)) (Some (example_node ''filter'' ''4'' (Some (example_node ''tablescan'' ''2'' None))))
      None None None None))"

definition example_operators :: "operator_summary list" where
  "example_operators =
    [example_operator 0 0 ''1'' ''TableScanOperator'', example_operator 0 1 ''7'' ''LookupJoinOperator'',
     example_operator 0 2 ''10'' ''TaskOutputOperator'', example_operator 1 1 ''7'' ''HashBuilderOperator'',
     example_operator 1 0 ''4'' ''ScanFilterAndProjectOperator'']"

definition example_stats :: stage_stats where
  "example_stats =
    \<lparr> ss_totalScheduledTime = ''1.00s'', ss_totalBlockedTime = ''1.50s'', ss_totalCpuTime = ''500.00ms'', ss_cumulativeUserMemory = Fin 0,
      ss_userMemoryReservation = ''0B'', ss_peakUserMemoryReservation = ''1MB'', ss_bufferedDataSize = ''0B'', ss_fullyBlocked = False,
      ss_queuedDrivers = Fin 0, ss_runningDrivers = Fin 4, ss_completedDrivers = Fin 0, ss_rawInputDataSize = ''1MB'',
      ss_rawInputPositions = Fin 1000, ss_outputDataSize = ''90B'', ss_outputPositions = Fin 10, ss_operatorSummaries = example_operators \<rparr>"

definition example_stage :: stage_info where
  "example_stage = StageInfo ''q.0'' ''RUNNING'' (Some \<lparr> pf_id = ''0'', pf_root = example_root, pf_jsonRepresentation = None \<rparr>) example_stats [] []"

definition example_nodes :: "plan_node list" where
  "example_nodes = the (plan_nodes example_root)"

lemma example_graph:
  "plan_nodes example_root = Some example_nodes" "map pn_id example_nodes = [''10'', ''7'', ''1'', ''4'', ''2'']"
  "single_source (computeOperatorMap example_operators) example_root" "list_all blocked_known example_operators"
  by code_simp+

theorem updateD3Graph_complete_witness:
  "\<exists>(calls :: (unit, unit) vnode graph_call list) ps.
      updateD3Graph (Some example_stage) = Some (Some (calls, True)) \<and> set ps = {0, 1}
    \<and> map operatorNodeId (pipeline_chain example_stage example_nodes 0) = [''operator-0-2'', ''operator-0-1'', ''operator-0-0'']
    \<and> graph_edges calls = concat (map (\<lambda>p. rev (zip (tl (map operatorNodeId (pipeline_chain example_stage example_nodes p)))
          (map operatorNodeId (pipeline_chain example_stage example_nodes p)))) ps)"
proof -
  note ns = example_graph(1,2)
  have st: "st_plan example_stage = Some \<lparr> pf_id = ''0'', pf_root = example_root, pf_jsonRepresentation = None \<rparr>"
    "ss_operatorSummaries (st_stageStats example_stage) = example_operators"
    by (simp_all add: example_stage_def example_stats_def)
  have "set (map pn_id example_nodes) = {''10'', ''7'', ''1'', ''4'', ''2''}" unfolding ns(2) by simp
  then have d: "drawn_operators example_stage example_nodes = example_operators"
    by (simp add: drawn_operators_def st example_operators_def example_operator_def)
  have o: "os_pipelineId ` set example_operators = {0, 1}" "example_operators \<noteq> []"
    by (auto simp: example_operators_def example_operator_def)
  have c: "map operatorNodeId (pipeline_chain example_stage example_nodes 0) = [''operator-0-2'', ''operator-0-1'', ''operator-0-0'']" by code_simp
  have "distinct (map pn_id example_nodes)" unfolding ns(2) by simp
  then obtain calls :: "(unit, unit) vnode graph_call list" and ps where
    "updateD3Graph (Some example_stage) = Some (Some (calls, True))" "set ps = {0, 1}"
    "graph_edges calls = concat (map (\<lambda>p. rev (zip (tl (map operatorNodeId (pipeline_chain example_stage example_nodes p)))
          (map operatorNodeId (pipeline_chain example_stage example_nodes p)))) ps)"
    using updateD3Graph_complete[OF st(1), of example_nodes] ns(1) example_graph(3,4) o(2) unfolding d o(1) st(2) by auto
  with c show ?thesis by (intro exI[of _ calls] exI[of _ ps] conjI)
qed

subsection \<open>Clicking on a node\<close>

lemma show_nat_no_hyphen: "0 \<le> n \<Longrightarrow> CHR ''-'' \<notin> set (show_nat n)"
  using show_nat_digits[of n] by (auto simp: list_all_iff is_digit_def)

lemma css_number_operator:
  assumes "0 \<le> os_pipelineId operator" "os_pipelineId operator < 2 ^ 31" "0 \<le> os_operatorId operator" "os_operatorId operator < 2 ^ 31"
  shows "css_number (operatorNodeId operator) 1 = num_int (os_pipelineId operator)"
    "css_number (operatorNodeId operator) 2 = num_int (os_operatorId operator)"
proof -
  let ?p = "os_pipelineId operator" and ?i = "os_operatorId operator"
  have "operatorNodeId operator = ''operator'' @ CHR ''-'' # show_nat ?p @ CHR ''-'' # show_nat ?i"
    using assms by (simp add: operatorNodeId_def num_to_string_int show_int_def del: num_to_string.simps)
  then have "split_char (CHR ''-'') (operatorNodeId operator) = [''operator'', show_nat ?p, show_nat ?i]"
    using assms by (simp add: split_char_append split_char_no_sep show_nat_no_hyphen)
  then show "css_number (operatorNodeId operator) 1 = num_int ?p" "css_number (operatorNodeId operator) 2 = num_int ?i"
    using assms by (simp_all add: css_number_def parse_int_show_nat)
qed

lemma foldl_last_match:
  "x \<in> set xs \<Longrightarrow> P x \<Longrightarrow> (\<And>y. y \<in> set xs \<Longrightarrow> P y \<Longrightarrow> y = x) \<Longrightarrow> foldl (\<lambda>found y. if P y then Some y else found) acc xs = Some x"
proof (induction xs rule: rev_induct)
  case (snoc y ys)
  show ?case
  proof (cases "P y")
    case True
    then have "y = x" using snoc.prems(3)[of y] by simp
    then show ?thesis using True by simp
  next
    case False
    then have "x \<in> set ys" using snoc.prems(1,2) by auto
    then have "foldl (\<lambda>found y. if P y then Some y else found) acc ys = Some x"
      by (rule snoc.IH) (use snoc.prems(2) in assumption, rule snoc.prems(3), simp_all)
    then show ?thesis using False by simp
  qed
qed simp

text \<open>
  C38. Clicking on an operator in the graph shows the details of that operator: the id its node has in
  the graph is read back to the two ids of the operator, and the summary found is its own, whenever
  the two ids are those of no other operator of the stage.
\<close>

theorem handleOperatorClick_selects:
  assumes "operator \<in> set (ss_operatorSummaries (st_stageStats stage))"
    and "0 \<le> os_pipelineId operator" "os_pipelineId operator < 2 ^ 31" "0 \<le> os_operatorId operator" "os_operatorId operator < 2 ^ 31"
    and "\<And>x. x \<in> set (ss_operatorSummaries (st_stageStats stage)) \<Longrightarrow> os_pipelineId x = os_pipelineId operator \<Longrightarrow>
      os_operatorId x = os_operatorId operator \<Longrightarrow> x = operator"
  shows "handleOperatorClick stage (operatorNodeId operator) = OperatorDetail_render (Some operator) (st_tasks stage)"
proof -
  have "operatorStageSummary stage (operatorNodeId operator) = Some operator"
    unfolding operatorStageSummary_def css_number_operator[OF assms(2-5)] Let_def
    using assms(1,6) by (intro foldl_last_match) (auto simp: js_eq_def)
  then show ?thesis by (simp add: handleOperatorClick_def)
qed

theorem handleOperatorClick_selects_witness:
  "operatorNodeId (example_operator 1 1 ''7'' ''HashBuilderOperator'') = ''operator-1-1'' \<and>
   handleOperatorClick example_stage ''operator-1-1'' = OperatorDetail_render (Some (example_operator 1 1 ''7'' ''HashBuilderOperator'')) []"
proof -
  have i: "operatorNodeId (example_operator 1 1 ''7'' ''HashBuilderOperator'') = ''operator-1-1''" by code_simp
  have "handleOperatorClick example_stage (operatorNodeId (example_operator 1 1 ''7'' ''HashBuilderOperator'')) =
      OperatorDetail_render (Some (example_operator 1 1 ''7'' ''HashBuilderOperator'')) (st_tasks example_stage)"
    by (rule handleOperatorClick_selects)
      (auto simp: example_stage_def example_stats_def example_operators_def example_operator_def)
  then show ?thesis using i by (simp add: example_stage_def)
qed

end
