(* ===== verification/QueryHeader.thy ===== *)
theory QueryHeader
  imports QueryListItem
begin

text \<open>
  \<^verbatim>\<open>src/components/QueryHeader.jsx\<close>: the header of the pages of one query, with its progress bar,
  the buttons that preempt and kill it, and the tabs.
\<close>

datatype ajax = Ajax (ajax_url: string) (ajax_type: string) (ajax_data: string)

definition preempt_request :: "'a query_scheme \<Rightarrow> ajax" where
  "preempt_request q = Ajax (''/v1/query/'' @ queryId q @ ''/preempted'') ''PUT'' ''Preempted via web UI''"

definition kill_request :: "'a query_scheme \<Rightarrow> ajax" where
  "kill_request q = Ajax (''/v1/query/'' @ queryId q @ ''/killed'') ''PUT'' ''Killed via web UI''"

definition action_cell :: "ajax \<Rightarrow> string \<Rightarrow> (ajax, 'c) vnode" where
  "action_cell request label =
    el ''td'' [Elem ''a'' [onClick request, className ''btn btn-warning'', attr ''target'' ''_blank''] [Text label]]"

definition renderProgressBar :: "'a query_scheme \<Rightarrow> (ajax, 'c) vnode throws" where
  "renderProgressBar q =
    do {
      bar \<leftarrow> progress_bar q;
      Some (if isQueryEnded q then divc ''progress-large'' [bar]
            else el ''table'' [el ''tbody'' [el ''tr''
              [Elem ''td'' [attr ''width'' ''100%''] [divc ''progress-large'' [bar]],
               action_cell (preempt_request q) ''Preempt'',
               action_cell (kill_request q) ''Kill'']]]) }"

text \<open>\<open>pathname\<close> is \<open>window.location.pathname\<close>.\<close>

definition renderTab :: "string \<Rightarrow> 'a query_scheme \<Rightarrow> string \<Rightarrow> string \<Rightarrow> (ajax, 'c) vnode" where
  "renderTab pathname q path name =
    (if str_includes pathname path
     then Elem ''a'' [attr ''href'' (path @ ''?'' @ queryId q), className ''btn btn-info navbar-btn nav-disabled''] [Text name]
     else Elem ''a'' [attr ''href'' (path @ ''?'' @ queryId q), className ''btn btn-info navbar-btn''] [Text name])"

definition QueryHeader_render :: "string \<Rightarrow> 'a query_scheme \<Rightarrow> (ajax, 'c) vnode throws" where
  "QueryHeader_render pathname q =
    do {
      bar \<leftarrow> renderProgressBar q;
      Some (el ''div''
        [divc ''row''
          [divc ''col-xs-6''
            [elc ''h3'' ''query-id''
              [Elem ''span'' [attr ''id'' ''query-id''] [Text (queryId q)],
               Elem ''a'' [className ''btn copy-button'', attr ''data-clipboard-target'' ''#query-id'', attr ''data-toggle'' ''tooltip'',
                   attr ''data-placement'' ''right'', attr ''title'' ''Copy to clipboard'']
                 [Elem ''span'' [className ''glyphicon glyphicon-copy'', attr ''aria-hidden'' ''true'', attr ''alt'' ''Copy to clipboard''] []]]],
           divc ''col-xs-6''
            [elc ''table'' ''header-inline-links''
              [el ''tbody'' [el ''tr'' [el ''td''
                [renderTab pathname q ''query.html'' ''Overview'', Text nbsp,
                 renderTab pathname q ''plan.html'' ''Live Plan'', Text nbsp,
                 renderTab pathname q ''stage.html'' ''Stage Performance'', Text nbsp,
                 renderTab pathname q ''timeline.html'' ''Splits'', Text nbsp,
                 Elem ''a'' [attr ''href'' (''/v1/query/'' @ queryId q @ ''?pretty''), className ''btn btn-info navbar-btn'',
                     attr ''target'' ''_blank''] [Text ''JSON'']]]]]]],
         elc ''hr'' ''h2-hr'' [],
         divc ''row'' [divc ''col-xs-12'' [bar]]]) }"

text \<open>Whether the header renders; only the progress bar can throw.\<close>

definition header_renders :: "'a query_scheme \<Rightarrow> bool" where
  "header_renders q \<longleftrightarrow> (renderProgressBar q :: (ajax, unit) vnode throws) \<noteq> None"

section \<open>Laws\<close>

lemma header_renders_iff: "header_renders q \<longleftrightarrow> (QueryHeader_render pathname q :: (ajax, unit) vnode throws) \<noteq> None"
  by (simp add: header_renders_def QueryHeader_render_def)


lemma handlers_progress_bar: "progress_bar q = Some bar \<Longrightarrow> handlers bar = []"
  by (auto simp: progress_bar_def)

lemma handlers_renderTab: "handlers (renderTab pathname q path name) = []"
  by (simp add: renderTab_def)

lemma progress_bar_defined: "error_consistent q \<Longrightarrow> \<exists>bar. (progress_bar q :: ('h, 'c) vnode throws) = Some bar"
  using display_defined[of q] by (auto simp: progress_bar_def progress_style_def)

lemma header_renders_consistent: "error_consistent q \<Longrightarrow> header_renders q"
  using progress_bar_defined[of q] by (fastforce simp: header_renders_def renderProgressBar_def)

text \<open>
  The header offers to preempt and to kill exactly the queries that have not ended, each by one
  request for that query, and it binds no other action; it renders for every query with a
  consistent error.
\<close>

theorem QueryHeader_actions:
  assumes "error_consistent q"
  shows "\<exists>n :: (ajax, unit) vnode. QueryHeader_render pathname q = Some n
    \<and> handlers n = (if q_state q \<in> {''FINISHED'', ''FAILED'', ''CANCELED''} then [] else [preempt_request q, kill_request q])"
proof -
  obtain bar :: "(ajax, unit) vnode" where bar: "progress_bar q = Some bar" using progress_bar_defined[OF assms] by blast
  then show ?thesis
    by (simp add: QueryHeader_render_def renderProgressBar_def handlers_renderTab handlers_progress_bar[OF bar]
        action_cell_def isQueryEnded_iff)
qed

theorem QueryHeader_actions_witness:
  "error_consistent (example_query ''20190131_000001_00001_aaaaa'' ''RUNNING'' ''2019-01-31T00:00:01.000Z'') \<and>
   (\<exists>n :: (ajax, unit) vnode. QueryHeader_render ''/ui/query.html'' (example_query ''20190131_000001_00001_aaaaa'' ''RUNNING'' ''2019-01-31T00:00:01.000Z'') = Some n
     \<and> map ajax_url (handlers n) = [''/v1/query/20190131_000001_00001_aaaaa/preempted'', ''/v1/query/20190131_000001_00001_aaaaa/killed''])"
proof
  show c: "error_consistent (example_query ''20190131_000001_00001_aaaaa'' ''RUNNING'' ''2019-01-31T00:00:01.000Z'')" by code_simp
  have "q_state (example_query ''20190131_000001_00001_aaaaa'' ''RUNNING'' ''2019-01-31T00:00:01.000Z'') = ''RUNNING''" by (simp add: example_query_def)
  then show "\<exists>n :: (ajax, unit) vnode. QueryHeader_render ''/ui/query.html'' (example_query ''20190131_000001_00001_aaaaa'' ''RUNNING'' ''2019-01-31T00:00:01.000Z'') = Some n
     \<and> map ajax_url (handlers n) = [''/v1/query/20190131_000001_00001_aaaaa/preempted'', ''/v1/query/20190131_000001_00001_aaaaa/killed'']"
    using QueryHeader_actions[OF c, of "''/ui/query.html''"]
    by (auto simp: preempt_request_def kill_request_def example_query_def)
qed

end
