(* ===== verification/StageDetail.thy ===== *)
theory StageDetail
  imports OperatorGraph QueryHeader Polling
begin

text \<open>
  \<^verbatim>\<open>src/components/StageDetail.jsx\<close>, second part: the page of a stage, which polls its query, lets
  the user select a stage and shows the operator graph of the selected one.
\<close>

section \<open>State\<close>

text \<open>
  The selected stage is a number read from the address of the page or the text of the plan id
  clicked on.  A request on its way keeps the address it asks and the selection \<open>refreshLoop\<close> read when
  it sent the request.  The fields \<open>lastRefresh\<close> and \<open>lastRender\<close> are never read nor changed.

  An exception while the page renders, or while the operator graph in it updates, makes React take the page
  off, which \<open>sg_mounted\<close> records, and leaves \<open>setState\<close> as an exception (\<open>Inl\<close> of the state); from then on
  \<open>setState\<close> does nothing.
\<close>

datatype stage_selection = SelNum jsnum | SelText string

record stage_detail =
  sg_initialized :: bool
  sg_ended :: bool
  sg_selectedStageId :: "stage_selection option"
  sg_query :: "query_info option"
  sg_timeout :: timer
  sg_requests :: "(string \<times> stage_selection) list"
  sg_mounted :: bool

definition StageDetail_init :: stage_detail where
  "StageDetail_init =
    \<lparr> sg_initialized = False, sg_ended = False, sg_selectedStageId = None, sg_query = None, sg_timeout = no_timer, sg_requests = [],
      sg_mounted = True \<rparr>"

section \<open>Stages\<close>

function findStage :: "string option \<Rightarrow> stage_info \<Rightarrow> stage_info option" where
  "findStage stageId currentStage =
    (case stageId of
       None \<Rightarrow> None
     | Some i \<Rightarrow> if st_stageId currentStage = i then Some currentStage
                 else first_some (findStage stageId) (st_subStages currentStage))"
  by pat_completeness auto
termination
  by (relation "measure (\<lambda>(i, s). size s)") (auto dest: size_subStages)

text \<open>Reading \<open>plan.id\<close> of a stage without plan throws.\<close>

function getAllStageIds :: "string list \<Rightarrow> stage_info \<Rightarrow> string list throws" where
  "getAllStageIds result currentStage =
    (case st_plan currentStage of
       None \<Rightarrow> None
     | Some plan \<Rightarrow> foldM getAllStageIds (result @ [pf_id plan]) (st_subStages currentStage))"
  by pat_completeness auto
termination
  by (relation "measure (\<lambda>(r, s). size s)") (auto dest: size_subStages)

text \<open>The events of the page; an answer names the request it answers.\<close>

datatype sg_event = StageTimer nat | StageSuccess nat query_info | StageError nat | SelectStage string

section \<open>View\<close>

datatype sg_child = SgQueryHeader query_info | StageOperatorGraph stage_info

fun show_selection :: "stage_selection option \<Rightarrow> string" where
  "show_selection None = ''null''"
| "show_selection (Some (SelNum n)) = num_to_string n"
| "show_selection (Some (SelText t)) = t"

definition sg_message :: "('h, 'c) vnode list \<Rightarrow> ('h, 'c) vnode" where
  "sg_message label = divc ''row error-message'' [divc ''col-xs-12'' label]"

definition stage_menu :: "string list \<Rightarrow> (sg_event, sg_child) vnode" where
  "stage_menu allStages =
    divc ''col-xs-2 stage-dropdown'' [divc ''input-group-btn''
      [Elem ''button'' [attr ''type'' ''button'', className ''btn btn-default dropdown-toggle'', attr ''data-toggle'' ''dropdown'',
          attr ''aria-haspopup'' ''true'', attr ''aria-expanded'' ''false''] [Text ''Select Stage '', elc ''span'' ''caret'' []],
       elc ''ul'' ''dropdown-menu'' [Fragment (map (\<lambda>stageId. el ''li'' [Elem ''a'' [onClick (SelectStage stageId)] [Text stageId]]) allStages)]]]"

definition StageDetail_render :: "stage_detail \<Rightarrow> (sg_event, sg_child) vnode throws" where
  "StageDetail_render s =
    (case sg_query s of
       None \<Rightarrow> Some (sg_message [el ''h4'' [if sg_initialized s then Text ''Query not found'' else divc ''loader'' [Text ''Loading...'']]])
     | Some q \<Rightarrow>
        (case qi_outputStage q of
           None \<Rightarrow> Some (sg_message [el ''h4'' [Text ''Query does not have an output stage'']])
         | Some outputStage \<Rightarrow>
             do {
               allStages \<leftarrow> getAllStageIds [] outputStage;
               (case findStage (Some (queryId q @ ''.'' @ show_selection (sg_selectedStageId s))) outputStage of
                  None \<Rightarrow> Some (sg_message [el ''h4'' [Text ''Stage not found'']])
                | Some stage \<Rightarrow>
                    do {
                      let stageOperatorGraph =
                        (if \<not> isQueryEnded q
                         then sg_message [el ''h4'' [Text ''Operator graph will appear automatically when query completes.''],
                                divc ''loader'' [Text ''Loading...'']]
                         else Comp (StageOperatorGraph stage));
                      plan \<leftarrow> st_plan stage;
                      Some (el ''div''
                        [Comp (SgQueryHeader q),
                         divc ''row'' [divc ''col-xs-12'' [divc ''row''
                           [divc ''col-xs-2'' [el ''h3'' [Text ''Stage '', Text (pf_id plan)]],
                            divc ''col-xs-8'' [],
                            stage_menu allStages]]],
                         elc ''hr'' ''h3-hr'' [],
                         divc ''row'' [divc ''col-xs-12'' [stageOperatorGraph]]]) }) }))"

text \<open>
  Rendering the page renders the header, and mounts or updates the operator graph.
\<close>

fun sg_child_renders :: "sg_child \<Rightarrow> bool" where
  "sg_child_renders (SgQueryHeader q) \<longleftrightarrow> header_renders q"
| "sg_child_renders (StageOperatorGraph stage) \<longleftrightarrow>
    (updateD3Graph (Some stage) :: ((unit, unit) vnode graph_call list \<times> bool) option throws) \<noteq> None"

definition sg_renders :: "stage_detail \<Rightarrow> bool" where
  "sg_renders s \<longleftrightarrow> (case StageDetail_render s of None \<Rightarrow> False | Some v \<Rightarrow> list_all sg_child_renders (children v))"

section \<open>Refreshing\<close>

definition sg_resetTimer :: "stage_detail \<Rightarrow> stage_detail" where
  "sg_resetTimer s =
    (let t = clearTimeout (sg_timeout s)
     in s\<lparr> sg_timeout := (if sg_query s = None \<or> \<not> sg_ended s then setTimeout 1000 t else t) \<rparr>)"

definition sg_refreshLoop :: "string \<Rightarrow> stage_detail \<Rightarrow> stage_detail" where
  "sg_refreshLoop search s =
    (let queryString = split_char (CHR ''.'') (getFirstParameter search);
         queryId = hd queryString;
         selectedStageId = (case sg_selectedStageId s of
           Some sel \<Rightarrow> sel
         | None \<Rightarrow> SelNum (if 1 < length queryString then parse_int (queryString ! 1) else Fin 0))
     in s\<lparr> sg_timeout := clearTimeout (sg_timeout s), sg_requests := sg_requests s @ [(''/v1/query/'' @ queryId, selectedStageId)] \<rparr>)"

definition sg_setState :: "(stage_detail \<Rightarrow> stage_detail) \<Rightarrow> stage_detail \<Rightarrow> stage_detail + stage_detail" where
  "sg_setState f s =
    (if \<not> sg_mounted s then Inr s else if sg_renders (f s) then Inr (f s) else Inl ((f s)\<lparr> sg_mounted := False \<rparr>))"

text \<open>The handlers of the request; an exception leaves them before the timer is reset.\<close>

definition then_resetTimer :: "stage_detail + stage_detail \<Rightarrow> stage_detail" where
  "then_resetTimer r = (case r of Inl s \<Rightarrow> s | Inr s \<Rightarrow> sg_resetTimer s)"

definition sg_onSuccess :: "stage_selection \<Rightarrow> query_info \<Rightarrow> stage_detail \<Rightarrow> stage_detail" where
  "sg_onSuccess selectedStageId q s =
    then_resetTimer (sg_setState (\<lambda>s. s\<lparr> sg_initialized := True, sg_ended := qi_finalQueryInfo q,
      sg_selectedStageId := Some selectedStageId, sg_query := Some q \<rparr>) s)"

definition sg_onError :: "stage_detail \<Rightarrow> stage_detail" where
  "sg_onError s = then_resetTimer (sg_setState (\<lambda>s. s\<lparr> sg_initialized := True \<rparr>) s)"

definition StageDetail_mount :: "string \<Rightarrow> stage_detail" where
  "StageDetail_mount search = sg_refreshLoop search StageDetail_init"

text \<open>
  The click on an entry of the stage menu.  The menu is on the page once a query with stages is; the runs below
  allow the click, with any text, as long as the page is there, and so include all that the menu can cause.
\<close>

definition select_stage :: "string \<Rightarrow> stage_detail \<Rightarrow> stage_detail" where
  "select_stage stageId s =
    (case sg_setState (\<lambda>s. s\<lparr> sg_selectedStageId := Some (SelText stageId) \<rparr>) s of Inl s' \<Rightarrow> s' | Inr s' \<Rightarrow> s')"

definition drop_request :: "nat \<Rightarrow> stage_detail \<Rightarrow> stage_detail" where
  "drop_request i s = s\<lparr> sg_requests := take i (sg_requests s) @ drop (Suc i) (sg_requests s) \<rparr>"

fun sg_exec :: "string \<Rightarrow> sg_event \<Rightarrow> stage_detail \<Rightarrow> stage_detail option" where
  "sg_exec search (StageTimer i) s = do { t \<leftarrow> fireTimeout i (sg_timeout s); Some (sg_refreshLoop search (s\<lparr> sg_timeout := t \<rparr>)) }"
| "sg_exec search (StageSuccess i q) s =
    (if i < length (sg_requests s) then Some (sg_onSuccess (snd (sg_requests s ! i)) q (drop_request i s)) else None)"
| "sg_exec search (StageError i) s =
    (if i < length (sg_requests s) then Some (sg_onError (drop_request i s)) else None)"
| "sg_exec search (SelectStage stageId) s = (if sg_mounted s then Some (select_stage stageId s) else None)"

section \<open>Laws\<close>

declare findStage.simps [simp del] getAllStageIds.simps [simp del]

subsection \<open>Stages\<close>

lemma first_some_find: "first_some (\<lambda>x. List.find P (g x)) xs = List.find P (concat (map g xs))"
  by (induction xs) (simp_all add: find_append split: option.split)

lemma findStage_find: "findStage (Some i) s = List.find (\<lambda>t. st_stageId t = i) (stage_list s)"
proof (induction s rule: measure_induct_rule[where f = size])
  case (less s)
  have "first_some (findStage (Some i)) (st_subStages s) =
      first_some (\<lambda>t. List.find (\<lambda>t. st_stageId t = i) (stage_list t)) (st_subStages s)"
    by (rule first_some_cong) (auto intro: less.IH size_subStages)
  then show ?case by (subst stage_list_eq) (simp add: findStage.simps first_some_find)
qed

lemma getAllStageIds_mapM:
  "getAllStageIds r s = map_option (\<lambda>ids. r @ ids) (mapM (\<lambda>t. map_option pf_id (st_plan t)) (stage_list s))"
proof (induction s arbitrary: r rule: measure_induct_rule[where f = size])
  case (less s)
  let ?ids = "mapM (\<lambda>t. map_option pf_id (st_plan t))"
  have sub: "foldM getAllStageIds r ts = map_option (\<lambda>ids. r @ ids) (?ids (concat (map stage_list ts)))"
    if "set ts \<subseteq> set (st_subStages s)" for r ts
    using that
  proof (induction ts arbitrary: r)
    case (Cons t ts)
    then have "getAllStageIds r t = map_option (\<lambda>ids. r @ ids) (?ids (stage_list t))"
      by (intro less.IH size_subStages) simp
    then show ?case using Cons by (cases "?ids (stage_list t)"; cases "?ids (concat (map stage_list ts))") (simp_all add: mapM_append)
  qed simp
  show ?case
    by (subst stage_list_eq) (use sub[of "st_subStages s" "r @ [pf_id (the (st_plan s))]"] in
      \<open>cases "st_plan s"; cases "?ids (concat (map stage_list (st_subStages s)))"; simp add: getAllStageIds.simps\<close>)
qed

text \<open>
  The stages of a query as the server numbers them: each has a plan, its id is the id of the query
  followed by the id of its plan fragment, and no two stages have the same id.
\<close>

definition numbered_stages :: "query_info \<Rightarrow> stage_info \<Rightarrow> bool" where
  "numbered_stages q outputStage \<longleftrightarrow>
     list_all (\<lambda>t. case st_plan t of None \<Rightarrow> False | Some plan \<Rightarrow> st_stageId t = queryId q @ ''.'' @ pf_id plan) (stage_list outputStage)
   \<and> distinct (map st_stageId (stage_list outputStage))"

lemma find_unique:
  "x \<in> set xs \<Longrightarrow> distinct (map f xs) \<Longrightarrow> List.find (\<lambda>y. f y = f x) xs = Some x"
  by (induction xs) auto

lemma findStage_numbered:
  assumes "numbered_stages q outputStage" "t \<in> set (stage_list outputStage)" "st_plan t = Some plan"
  shows "findStage (Some (queryId q @ ''.'' @ pf_id plan)) outputStage = Some t"
proof -
  have "st_stageId t = queryId q @ ''.'' @ pf_id plan" "distinct (map st_stageId (stage_list outputStage))"
    using assms by (auto simp: numbered_stages_def list_all_iff)
  then show ?thesis using find_unique[OF assms(2), of st_stageId] by (simp add: findStage_find)
qed

lemma all_ids_numbered:
  "numbered_stages q outputStage \<Longrightarrow>
    getAllStageIds [] outputStage = Some (map (\<lambda>t. pf_id (the (st_plan t))) (stage_list outputStage))"
  by (subst getAllStageIds_mapM, subst mapM_pure[where g = "\<lambda>t. pf_id (the (st_plan t))"])
    (auto simp: numbered_stages_def list_all_iff split: option.splits)

lemma render_found:
  assumes "sg_query s = Some q" "qi_outputStage q = Some outputStage" "getAllStageIds [] outputStage = Some ids"
    and "findStage (Some (queryId q @ ''.'' @ show_selection (sg_selectedStageId s))) outputStage = Some t" "st_plan t = Some plan"
  shows "\<exists>n. StageDetail_render s = Some n
    \<and> children n = SgQueryHeader q # (if isQueryEnded q then [StageOperatorGraph t] else []) \<and> handlers n = map SelectStage ids"
proof -
  have [simp]: "concat (map (\<lambda>x. children (f x)) xs) = []" "concat (map (\<lambda>x. handlers (f x)) xs) = map g xs"
    if "\<And>x. children (f x) = []" "\<And>x. handlers (f x) = [g x]" for f :: "string \<Rightarrow> (sg_event, sg_child) vnode" and g xs
    by (simp_all add: that concat_map_singleton)
  show ?thesis using assms by (auto simp: StageDetail_render_def stage_menu_def sg_message_def comp_def)
qed

lemma render_selected:
  assumes "sg_query s = Some q" "qi_outputStage q = Some outputStage" "numbered_stages q outputStage"
    and "t \<in> set (stage_list outputStage)" "st_plan t = Some plan" "show_selection (sg_selectedStageId s) = pf_id plan"
  shows "\<exists>n. StageDetail_render s = Some n
    \<and> children n = SgQueryHeader q # (if isQueryEnded q then [StageOperatorGraph t] else [])
    \<and> handlers n = map (\<lambda>t. SelectStage (pf_id (the (st_plan t)))) (stage_list outputStage)"
  using render_found[OF assms(1,2) all_ids_numbered[OF assms(3)] _ assms(5)] findStage_numbered[OF assms(3-5)] assms(6) by (simp add: comp_def)

text \<open>The page renders in every state except where some stage of the tree has no plan.\<close>

lemma StageDetail_render_throws_iff:
  "StageDetail_render s = None \<longleftrightarrow>
    (\<exists>q outputStage t. sg_query s = Some q \<and> qi_outputStage q = Some outputStage \<and> t \<in> set (stage_list outputStage) \<and> st_plan t = None)"
proof -
  have plan: "findStage (Some i) o' = Some t \<Longrightarrow> t \<in> set (stage_list o')" for i o' t
    by (auto simp: findStage_find find_Some_iff)
  have ids: "getAllStageIds [] o' = None \<longleftrightarrow> (\<exists>t \<in> set (stage_list o'). st_plan t = None)" for o'
    by (simp add: getAllStageIds_mapM mapM_eq_None)
  show ?thesis
    unfolding StageDetail_render_def
    by (cases "sg_query s") (auto simp: ids Let_def split: option.splits, blast dest: plan)
qed

text \<open>
  The answers the page can show whatever stage is selected: every stage has a plan, the header renders, and
  once the query has ended the operator graph of every stage can be built.
\<close>

definition sg_presentable :: "query_info \<Rightarrow> bool" where
  "sg_presentable q \<longleftrightarrow>
    (case qi_outputStage q of
       None \<Rightarrow> True
     | Some outputStage \<Rightarrow> header_renders q
         \<and> list_all (\<lambda>t. st_plan t \<noteq> None \<and> (isQueryEnded q \<longrightarrow> sg_child_renders (StageOperatorGraph t))) (stage_list outputStage))"

lemma sg_renders_presentable:
  assumes "pred_option sg_presentable (sg_query s)"
  shows "sg_renders s"
proof (cases "sg_query s")
  case None
  then show ?thesis by (simp add: sg_renders_def StageDetail_render_def sg_message_def)
next
  case (Some q)
  show ?thesis
  proof (cases "qi_outputStage q")
    case None
    then show ?thesis using Some by (simp add: sg_renders_def StageDetail_render_def sg_message_def)
  next
    case o: (Some outputStage)
    have p: "header_renders q" "\<And>t. t \<in> set (stage_list outputStage) \<Longrightarrow> st_plan t \<noteq> None \<and> (isQueryEnded q \<longrightarrow> sg_child_renders (StageOperatorGraph t))"
      using assms Some o by (auto simp: sg_presentable_def list_all_iff)
    have "StageDetail_render s \<noteq> None" by (simp add: StageDetail_render_throws_iff Some o) (use p(2) in blast)
    then obtain n where n: "StageDetail_render s = Some n" by blast
    let ?find = "findStage (Some (queryId q @ ''.'' @ show_selection (sg_selectedStageId s))) outputStage"
    show ?thesis
    proof (cases ?find)
      case None
      then show ?thesis using n Some o by (auto simp: sg_renders_def StageDetail_render_def sg_message_def split: bind_splits)
    next
      case f: (Some t)
      then have t: "t \<in> set (stage_list outputStage)" by (auto simp: findStage_find find_Some_iff)
      obtain plan where plan: "st_plan t = Some plan" using p(2)[OF t] by blast
      obtain ids where ids: "getAllStageIds [] outputStage = Some ids" using n Some o by (auto simp: StageDetail_render_def split: bind_splits)
      from render_found[OF Some o ids f plan] show ?thesis using p(1) p(2)[OF t] by (auto simp: sg_renders_def)
    qed
  qed
qed

lemma sg_renders_cong:
  assumes "sg_query s' = sg_query s" "sg_selectedStageId s' = sg_selectedStageId s" "sg_initialized s' = sg_initialized s"
  shows "sg_renders s' = sg_renders s"
  unfolding sg_renders_def StageDetail_render_def assms ..

text \<open>
  C20. Selecting a stage in the menu shows that stage.  On a query whose stages are numbered as the
  server numbers them, and which the page can show, the click on the entry of any stage keeps the page up and
  makes it render that stage, with its operator graph once the query has ended, and the menu offers one entry
  for every stage, in the order of the tree.
\<close>

theorem select_stage_shows:
  assumes "sg_mounted s" "sg_query s = Some q" "sg_presentable q" "qi_outputStage q = Some outputStage" "numbered_stages q outputStage"
    and "t \<in> set (stage_list outputStage)" "st_plan t = Some plan"
  shows "\<exists>s' n. sg_exec search (SelectStage (pf_id plan)) s = Some s' \<and> sg_mounted s' \<and> StageDetail_render s' = Some n
    \<and> children n = SgQueryHeader q # (if isQueryEnded q then [StageOperatorGraph t] else [])
    \<and> handlers n = map (\<lambda>t. SelectStage (pf_id (the (st_plan t)))) (stage_list outputStage)"
proof -
  let ?s = "s\<lparr> sg_selectedStageId := Some (SelText (pf_id plan)) \<rparr>"
  have "sg_renders ?s" using assms(2,3) by (intro sg_renders_presentable) simp
  then have "sg_exec search (SelectStage (pf_id plan)) s = Some ?s" using assms(1) by (simp add: select_stage_def sg_setState_def)
  then show ?thesis using render_selected[of ?s q outputStage t plan] assms by auto
qed

definition example_stages :: stage_info where
  "example_stages =
    StageInfo ''q.0'' ''RUNNING'' (Some \<lparr> pf_id = ''0'', pf_root = example_root, pf_jsonRepresentation = None \<rparr>) example_stats []
      [StageInfo ''q.1'' ''RUNNING'' (Some \<lparr> pf_id = ''1'', pf_root = example_root, pf_jsonRepresentation = None \<rparr>) example_stats [] []]"

lemma example_stage_graph:
  assumes "st_plan t = Some \<lparr> pf_id = i, pf_root = example_root, pf_jsonRepresentation = None \<rparr>" "st_stageStats t = example_stats"
  shows "sg_child_renders (StageOperatorGraph t)"
proof -
  have o: "ss_operatorSummaries (st_stageStats t) = example_operators" by (simp add: assms(2) example_stats_def)
  have "distinct (map pn_id example_nodes)" unfolding example_graph(2) by simp
  then show ?thesis
    using updateD3Graph_defined[OF assms(1), of example_nodes, where 'h = unit and 'c = unit] example_graph(1,3,4) unfolding o by simp
qed

lemma example_presentable:
  assumes "error_consistent (example_query_info st (Some example_stages) final)"
  shows "sg_presentable (example_query_info st (Some example_stages) final)"
proof -
  have q: "qi_outputStage (example_query_info st (Some example_stages) final) = Some example_stages"
    by (simp add: example_query_info_def query.defs query_info.defs)
  have "list_all (\<lambda>t. st_plan t \<noteq> None \<and> sg_child_renders (StageOperatorGraph t)) (stage_list example_stages)"
    using example_stage_graph by (simp add: example_stages_def)
  then show ?thesis using header_renders_consistent[OF assms] by (auto simp: sg_presentable_def q list_all_iff)
qed

theorem select_stage_shows_witness:
  "\<exists>s' n. sg_exec [] (SelectStage ''1'') (StageDetail_init\<lparr> sg_query := Some (example_query_info ''FINISHED'' (Some example_stages) True) \<rparr>) = Some s'
    \<and> StageDetail_render s' = Some n
    \<and> children n = [SgQueryHeader (example_query_info ''FINISHED'' (Some example_stages) True), StageOperatorGraph (hd (st_subStages example_stages))]
    \<and> handlers n = [SelectStage ''0'', SelectStage ''1'']"
proof -
  let ?q = "example_query_info ''FINISHED'' (Some example_stages) True" and ?t = "hd (st_subStages example_stages)"
  have t: "?t \<in> set (stage_list example_stages)" "st_plan ?t = Some \<lparr> pf_id = ''1'', pf_root = example_root, pf_jsonRepresentation = None \<rparr>"
    by (simp_all add: example_stages_def)
  have m: "sg_mounted (StageDetail_init\<lparr> sg_query := Some ?q \<rparr>)" "sg_query (StageDetail_init\<lparr> sg_query := Some ?q \<rparr>) = Some ?q"
    by (simp_all add: StageDetail_init_def)
  have q: "qi_outputStage ?q = Some example_stages" by (simp add: example_query_info_def query.defs query_info.defs)
  have h: "numbered_stages ?q example_stages" "isQueryEnded ?q"
    "map (\<lambda>t. SelectStage (pf_id (the (st_plan t)))) (stage_list example_stages) = [SelectStage ''0'', SelectStage ''1'']"
    by code_simp+
  have c: "error_consistent ?q" by code_simp
  show ?thesis using select_stage_shows[OF m example_presentable[OF c] q h(1) t, of "[]", unfolded h(3)] h(2) by (auto simp del: sg_exec.simps)
qed

subsection \<open>Polling\<close>

fun sg_kind :: "sg_event \<Rightarrow> poll_kind" where
  "sg_kind (StageTimer i) = Fires i"
| "sg_kind (SelectStage t) = Quiet"
| "sg_kind _ = Answers"

text \<open>
  When the page polls: on the page, until it has the final information; off the page, as long as a request or
  a timeout is left.
\<close>

definition sg_polling :: "stage_detail \<Rightarrow> bool" where
  "sg_polling s \<longleftrightarrow> (if sg_mounted s then sg_query s = None \<or> \<not> sg_ended s else sg_requests s \<noteq> [] \<or> t_armed (sg_timeout s) \<noteq> [])"

lemma clearTimeout_idle: "t_armed t = [] \<Longrightarrow> clearTimeout t = t"
  by (simp add: clearTimeout_def)

lemma sg_reset [simp]:
  "sg_requests (sg_resetTimer s) = sg_requests s" "sg_mounted (sg_resetTimer s) = sg_mounted s" "sg_query (sg_resetTimer s) = sg_query s"
  "sg_ended (sg_resetTimer s) = sg_ended s" "sg_selectedStageId (sg_resetTimer s) = sg_selectedStageId s" "sg_initialized (sg_resetTimer s) = sg_initialized s"
  "sg_timeout (sg_resetTimer s) =
     (if sg_query s = None \<or> \<not> sg_ended s then setTimeout 1000 (clearTimeout (sg_timeout s)) else clearTimeout (sg_timeout s))"
  by (simp_all add: sg_resetTimer_def Let_def)

text \<open>The end of a request: what \<open>setState\<close> does to the page, and what that means for the timer.\<close>

lemma sg_answer:
  assumes "one_series (sg_timeout s) (length (sg_requests s)) (sg_polling s)" "i < length (sg_requests s)"
    and f: "\<And>t. sg_timeout (f t) = sg_timeout t" "\<And>t. sg_requests (f t) = sg_requests t" "\<And>t. sg_mounted (f t) = sg_mounted t"
    and s': "s' = then_resetTimer (sg_setState f (drop_request i s))"
  shows "length (sg_requests s) = Suc (length (sg_requests s')) \<and> sg_timeout s' =
      (if sg_polling s' then setTimeout 1000 (clearTimeout (sg_timeout s)) else clearTimeout (sg_timeout s))"
proof -
  have "length (sg_requests s) + length (t_armed (sg_timeout s)) \<le> 1" using assms(1) by (simp add: one_series_def)
  then have "length (sg_requests s) = 1" "length (t_armed (sg_timeout s)) = 0" using assms(2) by linarith+
  then have l: "length (sg_requests s) = 1" "t_armed (sg_timeout s) = []" by simp_all
  then have d: "drop_request i s = s\<lparr> sg_requests := [] \<rparr>" using assms(2) by (simp add: drop_request_def)
  note c = clearTimeout_idle[OF l(2)]
  consider "\<not> sg_mounted s" | "sg_mounted s" "sg_renders (f (drop_request i s))" | "sg_mounted s" "\<not> sg_renders (f (drop_request i s))" by blast
  then show ?thesis
  proof cases
    case 1
    then have s': "s' = sg_resetTimer (s\<lparr> sg_requests := [] \<rparr>)" using s' d by (simp add: then_resetTimer_def sg_setState_def)
    show ?thesis using 1 l unfolding s' by (simp add: sg_polling_def c)
  next
    case 2
    then have s': "s' = sg_resetTimer (f (s\<lparr> sg_requests := [] \<rparr>))" using s' d by (simp add: then_resetTimer_def sg_setState_def)
    show ?thesis using 2 l f unfolding s' by (simp add: sg_polling_def c)
  next
    case 3
    then have s': "s' = (f (s\<lparr> sg_requests := [] \<rparr>))\<lparr> sg_mounted := False \<rparr>" using s' d by (simp add: then_resetTimer_def sg_setState_def)
    show ?thesis using l f unfolding s' by (simp add: sg_polling_def c)
  qed
qed

interpretation sg_loop: polled "sg_exec search" sg_kind "\<lambda>_. True" sg_timeout "\<lambda>s. length (sg_requests s)" sg_polling "\<lambda>_. 1000"
  "\<lambda>s. s = StageDetail_mount search" "\<lambda>_. True" for search
proof
  fix s s' :: stage_detail and e i
  show "sg_exec search e s = Some s' \<Longrightarrow> sg_kind e = Fires i \<Longrightarrow>
      (\<exists>t. fireTimeout i (sg_timeout s) = Some t \<and> sg_timeout s' = clearTimeout t)
      \<and> length (sg_requests s') = Suc (length (sg_requests s)) \<and> sg_polling s' = sg_polling s"
    by (cases e) (auto simp: sg_refreshLoop_def Let_def sg_polling_def fireTimeout_def split: if_splits)
  assume one: "one_series (sg_timeout s) (length (sg_requests s)) (sg_polling s)"
  show "sg_exec search e s = Some s' \<Longrightarrow> sg_kind e = Answers \<Longrightarrow>
      length (sg_requests s) = Suc (length (sg_requests s')) \<and> sg_timeout s' =
      (if sg_polling s' then setTimeout 1000 (clearTimeout (sg_timeout s)) else clearTimeout (sg_timeout s))"
  proof (cases e)
    case (StageSuccess j q)
    assume "sg_exec search e s = Some s'"
    with StageSuccess show ?thesis
      by (intro sg_answer[OF one, where i = j and f = "\<lambda>t. t\<lparr> sg_initialized := True, sg_ended := qi_finalQueryInfo q,
          sg_selectedStageId := Some (snd (sg_requests s ! j)), sg_query := Some q \<rparr>"]) (auto simp: sg_onSuccess_def split: if_splits)
  next
    case (StageError j)
    assume "sg_exec search e s = Some s'"
    with StageError show ?thesis
      by (intro sg_answer[OF one, where i = j and f = "\<lambda>t. t\<lparr> sg_initialized := True \<rparr>"]) (auto simp: sg_onError_def split: if_splits)
  qed auto
  show "sg_exec search e s = Some s' \<Longrightarrow> sg_kind e = Quiet \<Longrightarrow>
      sg_timeout s' = sg_timeout s \<and> length (sg_requests s') = length (sg_requests s) \<and> sg_polling s' = sg_polling s"
    using one by (cases e) (auto simp: select_stage_def sg_setState_def sg_polling_def one_series_def split: if_splits)
next
  fix s :: stage_detail and i
  show "fireTimeout i (sg_timeout s) \<noteq> None \<Longrightarrow> \<exists>e. True \<and> sg_kind e = Fires i \<and> sg_exec search e s \<noteq> None"
    by (rule exI[of _ "StageTimer i"]) auto
  show "0 < length (sg_requests s) \<Longrightarrow> \<exists>e. True \<and> sg_kind e = Answers \<and> sg_exec search e s \<noteq> None"
    by (rule exI[of _ "StageError 0"]) auto
qed (auto simp: StageDetail_mount_def sg_refreshLoop_def StageDetail_init_def Let_def sg_polling_def)

text \<open>The queries received, oldest first.\<close>

fun stage_responses :: "sg_event list \<Rightarrow> query_info list" where
  "stage_responses [] = []"
| "stage_responses (StageSuccess i q # es) = q # stage_responses es"
| "stage_responses (_ # es) = stage_responses es"

text \<open>
  What a page has after the answers \<open>qs\<close>: as long as it is up, the last of them; it is up exactly when the
  state it has can be rendered, and certainly when all answers can be shown.
\<close>

definition sg_shows :: "query_info list \<Rightarrow> stage_detail \<Rightarrow> bool" where
  "sg_shows qs s \<longleftrightarrow> (sg_mounted s \<longleftrightarrow> sg_renders s)
    \<and> (sg_mounted s \<longrightarrow> sg_query s = (if qs = [] then None else Some (last qs)) \<and> (qs \<noteq> [] \<longrightarrow> sg_ended s = qi_finalQueryInfo (last qs)))
    \<and> (list_all sg_presentable qs \<longrightarrow> sg_mounted s)"

lemma sg_setState_shows:
  assumes "sg_shows qs s" "sg_setState f s = Inl s' \<or> sg_setState f s = Inr s'" "\<And>t. sg_mounted (f t) = sg_mounted t"
    and "sg_mounted s \<Longrightarrow> sg_query (f s) = (if rs = [] then sg_query s else Some (last rs)) \<and> sg_ended (f s) = (if rs = [] then sg_ended s else qi_finalQueryInfo (last rs))"
  shows "sg_shows (qs @ rs) s'"
proof (cases "sg_mounted s")
  case False
  then have "s' = s" using assms(2) by (simp add: sg_setState_def)
  then show ?thesis using False assms(1) by (simp add: sg_shows_def)
next
  case True
  note f = assms(4)[OF True] and q = assms(1)[unfolded sg_shows_def]
  have m: "sg_renders (f s) \<Longrightarrow> s' = f s" "\<not> sg_renders (f s) \<Longrightarrow> s' = (f s)\<lparr> sg_mounted := False \<rparr>"
    using assms(2) True by (auto simp: sg_setState_def)
  have "sg_renders ((f s)\<lparr> sg_mounted := False \<rparr>) = sg_renders (f s)" by (rule sg_renders_cong) simp_all
  then have r: "sg_renders s' = sg_renders (f s)" using m by (cases "sg_renders (f s)") simp_all
  have p: "sg_renders (f s)" if "list_all sg_presentable (qs @ rs)"
    using that f q True by (intro sg_renders_presentable) (auto simp: list_all_iff)
  show ?thesis using m r p f q True assms(3) by (cases "sg_renders (f s)") (auto simp: sg_shows_def)
qed

lemma sg_shows_cong:
  assumes "sg_query s' = sg_query s" "sg_selectedStageId s' = sg_selectedStageId s" "sg_initialized s' = sg_initialized s"
    "sg_mounted s' = sg_mounted s" "sg_ended s' = sg_ended s" "sg_shows qs s"
  shows "sg_shows qs s'"
  using assms(6) sg_renders_cong[OF assms(1-3)] by (auto simp: sg_shows_def assms)

lemma sg_answer_shows:
  assumes "sg_shows qs s" "s' = then_resetTimer (sg_setState f (drop_request i s))" "\<And>t. sg_mounted (f t) = sg_mounted t"
    and "\<And>t. sg_query (f t) = (if rs = [] then sg_query t else Some (last rs))" "\<And>t. sg_ended (f t) = (if rs = [] then sg_ended t else qi_finalQueryInfo (last rs))"
  shows "sg_shows (qs @ rs) s'"
proof -
  have d: "sg_shows qs (drop_request i s)" by (rule sg_shows_cong[OF _ _ _ _ _ assms(1)]) (simp_all add: drop_request_def)
  show ?thesis
  proof (cases "sg_setState f (drop_request i s)")
    case (Inl t)
    then show ?thesis using assms(2-5) sg_setState_shows[OF d, of f t rs] by (simp add: then_resetTimer_def)
  next
    case (Inr t)
    then have "sg_shows (qs @ rs) t" using assms(2-5) sg_setState_shows[OF d, of f t rs] by simp
    then show ?thesis by (rule sg_shows_cong[rotated 5]) (use Inr assms(2) in \<open>simp_all add: then_resetTimer_def\<close>)
  qed
qed

lemma sg_shows_step:
  assumes "sg_shows qs s" "sg_exec search e s = Some s'"
  shows "sg_shows (qs @ stage_responses [e]) s'"
proof (cases e)
  case (StageTimer i)
  then have "sg_shows qs s'" using assms by (intro sg_shows_cong[OF _ _ _ _ _ assms(1)]) (auto simp: sg_refreshLoop_def Let_def)
  then show ?thesis using StageTimer by simp
next
  case (StageSuccess i q)
  let ?f = "\<lambda>t. t\<lparr> sg_initialized := True, sg_ended := qi_finalQueryInfo q, sg_selectedStageId := Some (snd (sg_requests s ! i)), sg_query := Some q \<rparr>"
  show ?thesis using StageSuccess assms
    by (intro sg_answer_shows[OF assms(1), where f = ?f and i = i]) (auto simp: sg_onSuccess_def split: if_splits)
next
  case (StageError i)
  then show ?thesis using assms
    by (intro sg_answer_shows[OF assms(1), where f = "\<lambda>t. t\<lparr> sg_initialized := True \<rparr>" and i = i]) (auto simp: sg_onError_def split: if_splits)
next
  case (SelectStage t)
  let ?f = "\<lambda>s. s\<lparr> sg_selectedStageId := Some (SelText t) \<rparr>"
  have "sg_setState ?f s = Inl s' \<or> sg_setState ?f s = Inr s'"
    using SelectStage assms(2) by (auto simp: select_stage_def split: if_splits sum.splits)
  from sg_setState_shows[OF assms(1) this, of "[]"] show ?thesis using SelectStage by simp
qed

lemma stage_responses_append: "stage_responses (es @ fs) = stage_responses es @ stage_responses fs"
  by (induction es rule: stage_responses.induct) auto

lemma sg_shows_run:
  "exec_all (sg_exec search) es s = Some s' \<Longrightarrow> sg_shows qs s \<Longrightarrow> sg_shows (qs @ stage_responses es) s'"
proof (induction es arbitrary: s qs)
  case (Cons e es)
  then obtain s1 where s1: "sg_exec search e s = Some s1" "exec_all (sg_exec search) es s1 = Some s'" by auto
  from Cons.IH[OF s1(2) sg_shows_step[OF Cons.prems(2) s1(1)]] show ?case
    using stage_responses_append[of "[e]" es] by simp
qed simp

lemma sg_run:
  assumes "exec_all (sg_exec search) es (StageDetail_mount search) = Some s"
  shows "sg_shows (stage_responses es) s" "one_series (sg_timeout s) (length (sg_requests s)) (sg_polling s)"
    "sg_polling s \<Longrightarrow> \<exists>e. sg_kind e \<noteq> Quiet \<and> sg_exec search e s \<noteq> None"
proof -
  have "sg_shows [] (StageDetail_mount search)"
    by (simp add: sg_shows_def StageDetail_mount_def sg_refreshLoop_def StageDetail_init_def Let_def sg_renders_def StageDetail_render_def sg_message_def)
  from sg_shows_run[OF assms this] show "sg_shows (stage_responses es) s" by simp
  have ok: "list_all (\<lambda>_. True) es" by (simp add: list_all_iff)
  show "one_series (sg_timeout s) (length (sg_requests s)) (sg_polling s)" by (rule sg_loop.one_series_run[OF refl assms ok])
  show "sg_polling s \<Longrightarrow> \<exists>e. sg_kind e \<noteq> Quiet \<and> sg_exec search e s \<noteq> None" using sg_loop.never_stuck[OF refl assms ok] by blast
qed

text \<open>
  C9. The stage page after any run of timers, answers, failures and clicks.  It is up as long as all answers
  can be shown, and when it is not up, the state it was left in cannot be rendered.  While it is up it renders
  and has the query of the last successful answer; while that is not the final information of the query, one
  series of refreshes goes on and its next event can happen; once it is, no request is on its way and no
  timer is armed, so that the page has stopped asking.
\<close>

theorem stage_detail_run:
  assumes "exec_all (sg_exec search) es (StageDetail_mount search) = Some s"
  shows "(list_all sg_presentable (stage_responses es) \<longrightarrow> sg_mounted s) \<and> (sg_mounted s \<longleftrightarrow> sg_renders s)
    \<and> (sg_mounted s \<longrightarrow> sg_query s = (if stage_responses es = [] then None else Some (last (stage_responses es)))
      \<and> (if stage_responses es \<noteq> [] \<and> qi_finalQueryInfo (last (stage_responses es))
         then sg_requests s = [] \<and> t_armed (sg_timeout s) = []
         else one_series (sg_timeout s) (length (sg_requests s)) True \<and> (\<exists>e. sg_kind e \<noteq> Quiet \<and> sg_exec search e s \<noteq> None)))"
proof -
  note r = sg_run[OF assms]
  have "sg_polling s \<longleftrightarrow> \<not> (stage_responses es \<noteq> [] \<and> qi_finalQueryInfo (last (stage_responses es)))" if "sg_mounted s"
    using r(1) that by (auto simp: sg_shows_def sg_polling_def)
  then show ?thesis using r by (auto simp: sg_shows_def one_series_def)
qed

theorem stage_detail_run_witness:
  "\<exists>s. exec_all (sg_exec ''?q.1'') [StageError 0, StageTimer 0, StageSuccess 0 (example_query_info ''FINISHED'' (Some example_stages) True)]
        (StageDetail_mount ''?q.1'') = Some s
     \<and> sg_mounted s \<and> sg_query s = Some (example_query_info ''FINISHED'' (Some example_stages) True) \<and> sg_requests s = [] \<and> t_armed (sg_timeout s) = []"
proof -
  let ?q = "example_query_info ''FINISHED'' (Some example_stages) True"
  let ?es = "[StageError 0, StageTimer 0, StageSuccess 0 ?q]"
  have "case exec_all (sg_exec ''?q.1'') [StageError 0, StageTimer 0] (StageDetail_mount ''?q.1'') of None \<Rightarrow> False | Some s \<Rightarrow> length (sg_requests s) = 1"
    by code_simp
  then obtain s1 where s1: "exec_all (sg_exec ''?q.1'') [StageError 0, StageTimer 0] (StageDetail_mount ''?q.1'') = Some s1" "length (sg_requests s1) = 1"
    by (auto split: option.splits)
  have "exec_all (sg_exec ''?q.1'') ([StageError 0, StageTimer 0] @ [StageSuccess 0 ?q]) (StageDetail_mount ''?q.1'') \<noteq> None"
    unfolding exec_all_append s1(1) using s1(2) by simp
  then have "exec_all (sg_exec ''?q.1'') ?es (StageDetail_mount ''?q.1'') \<noteq> None" unfolding append.simps .
  then obtain s where s: "exec_all (sg_exec ''?q.1'') ?es (StageDetail_mount ''?q.1'') = Some s" by blast
  have f: "qi_finalQueryInfo ?q" "error_consistent ?q" by code_simp+
  from f(2) have "sg_presentable ?q" by (rule example_presentable)
  with f(1) have "sg_mounted s \<and> sg_query s = Some ?q \<and> sg_requests s = [] \<and> t_armed (sg_timeout s) = []" using stage_detail_run[OF s] by simp
  with s show ?thesis by blast
qed

text \<open>
  C39. A selection made while a request is on its way is lost: the answer sets the selection back to
  the one read when the request was sent.  A selection made when no request is on its way is carried by
  the next request and stays.  This is so on a page that is up, for answers it can show.
\<close>

theorem selection_race:
  assumes "sg_mounted s" "pred_option sg_presentable (sg_query s)" "sg_presentable q"
  shows "(i < length (sg_requests s) \<longrightarrow>
      map_option sg_selectedStageId (exec_all (sg_exec search) [SelectStage t, StageSuccess i q] s) = Some (Some (snd (sg_requests s ! i))))
   \<and> (sg_requests s = [] \<and> fireTimeout j (sg_timeout s) \<noteq> None \<longrightarrow>
      map_option sg_selectedStageId (exec_all (sg_exec search) [SelectStage t, StageTimer j, StageSuccess 0 q] s) = Some (Some (SelText t)))"
proof -
  have r: "sg_renders s'" if "sg_query s' = sg_query s \<or> sg_query s' = Some q" for s'
    using that assms(2,3) by (intro sg_renders_presentable) auto
  have sel: "select_stage t s = s\<lparr> sg_selectedStageId := Some (SelText t) \<rparr>"
    using assms(1) by (simp add: select_stage_def sg_setState_def r)
  have ans: "sg_selectedStageId (sg_onSuccess sel q s') = Some sel" if "sg_mounted s'" for sel s'
    using that by (simp add: sg_onSuccess_def sg_setState_def then_resetTimer_def r)
  show ?thesis
  proof (intro conjI impI)
    assume "i < length (sg_requests s)"
    then show "map_option sg_selectedStageId (exec_all (sg_exec search) [SelectStage t, StageSuccess i q] s) = Some (Some (snd (sg_requests s ! i)))"
      using assms(1) by (simp add: sel ans drop_request_def)
  next
    assume "sg_requests s = [] \<and> fireTimeout j (sg_timeout s) \<noteq> None"
    then obtain y where "sg_requests s = []" "fireTimeout j (sg_timeout s) = Some y" by blast
    then show "map_option sg_selectedStageId (exec_all (sg_exec search) [SelectStage t, StageTimer j, StageSuccess 0 q] s) = Some (Some (SelText t))"
      using assms(1) by (simp add: sel ans drop_request_def sg_refreshLoop_def Let_def)
  qed
qed

theorem selection_race_witness:
  "map_option sg_selectedStageId
     (exec_all (sg_exec ''?q.0'') [SelectStage ''1'', StageSuccess 0 (example_query_info ''RUNNING'' (Some example_stages) False)] (StageDetail_mount ''?q.0''))
   = Some (Some (SelNum (Fin 0)))"
proof -
  let ?q = "example_query_info ''RUNNING'' (Some example_stages) False"
  have m: "sg_mounted (StageDetail_mount ''?q.0'')" "pred_option sg_presentable (sg_query (StageDetail_mount ''?q.0''))"
    by (simp_all add: StageDetail_mount_def StageDetail_init_def sg_refreshLoop_def Let_def)
  have r: "0 < length (sg_requests (StageDetail_mount ''?q.0''))" "snd (sg_requests (StageDetail_mount ''?q.0'') ! 0) = SelNum (Fin 0)"
    by code_simp+
  have c: "error_consistent ?q" by code_simp
  show ?thesis using selection_race[OF m example_presentable[OF c], THEN conjunct1, rule_format, OF r(1)] r(2) by metis
qed

text \<open>
  C29. An answer with a stage that has no plan takes the page down for good: rendering reads the plan of every
  stage and throws, the handler of the answer is left before it resets the timer, and after that no event
  of the page can happen any more.  The message of the operator graph for such a stage is never seen.
\<close>

theorem stage_without_plan_ends_page:
  assumes "exec_all (sg_exec search) es (StageDetail_mount search) = Some s" "sg_mounted s"
    and "qi_outputStage q = Some outputStage" "t \<in> set (stage_list outputStage)" "st_plan t = None"
    and "sg_exec search (StageSuccess i q) s = Some s'"
  shows "\<not> sg_mounted s' \<and> sg_query s' = Some q \<and> sg_requests s' = [] \<and> t_armed (sg_timeout s') = [] \<and> (\<forall>e. sg_exec search e s' = None)"
proof -
  define u where "u = (drop_request i s)\<lparr> sg_initialized := True, sg_ended := qi_finalQueryInfo q,
    sg_selectedStageId := Some (snd (sg_requests s ! i)), sg_query := Some q \<rparr>"
  have "StageDetail_render u = None" using assms(3-5) by (auto simp: StageDetail_render_throws_iff u_def)
  then have "\<not> sg_renders u" by (simp add: sg_renders_def)
  then have s': "s' = u\<lparr> sg_mounted := False \<rparr>" and i: "i < length (sg_requests s)"
    using assms(2,6) by (auto simp: sg_onSuccess_def sg_setState_def then_resetTimer_def drop_request_def u_def split: if_splits)
  have "length (sg_requests s) + length (t_armed (sg_timeout s)) \<le> 1" using sg_run(2)[OF assms(1)] by (simp add: one_series_def)
  then have "length (sg_requests s) = 1" "length (t_armed (sg_timeout s)) = 0" using i by linarith+
  then have r: "\<not> sg_mounted s'" "sg_query s' = Some q" "sg_requests s' = []" "t_armed (sg_timeout s') = []"
    using i by (simp_all add: s' u_def drop_request_def)
  have "sg_exec search e s' = None" for e using r by (cases e) (simp_all add: fireTimeout_def)
  with r show ?thesis by blast
qed

theorem stage_without_plan_ends_page_witness:
  "\<exists>s'. sg_exec ''?q.0'' (StageSuccess 0 (example_query_info ''RUNNING'' (Some (StageInfo ''q.0'' ''PLANNED'' None example_stats [] [])) False))
      (StageDetail_mount ''?q.0'') = Some s' \<and> \<not> sg_mounted s' \<and> (\<forall>e. sg_exec ''?q.0'' e s' = None)"
proof -
  let ?t = "StageInfo ''q.0'' ''PLANNED'' None example_stats [] []"
  let ?q = "example_query_info ''RUNNING'' (Some ?t) False"
  have m: "exec_all (sg_exec ''?q.0'') [] (StageDetail_mount ''?q.0'') = Some (StageDetail_mount ''?q.0'')" "sg_mounted (StageDetail_mount ''?q.0'')"
    by (simp_all add: StageDetail_mount_def StageDetail_init_def sg_refreshLoop_def Let_def)
  have q: "qi_outputStage ?q = Some ?t" by (simp add: example_query_info_def query.defs query_info.defs)
  have t: "?t \<in> set (stage_list ?t)" "st_plan ?t = None" by simp_all
  have "0 < length (sg_requests (StageDetail_mount ''?q.0''))" by code_simp
  then obtain s' where s': "sg_exec ''?q.0'' (StageSuccess 0 ?q) (StageDetail_mount ''?q.0'') = Some s'" by simp
  from stage_without_plan_ends_page[OF m q t s'] s' show ?thesis by blast
qed

end
