(* ===== verification/JsJson.thy ===== *)
theory JsJson
  imports JsArray
begin

text \<open>
  \<open>JSON.parse\<close>.  The result \<open>None\<close> is the exception on a text that is not JSON.  As everywhere, a
  string is a list of Latin-1 characters; an escape of a character beyond them is not read.

  The parser recurses with fuel: a value within a value costs two units and at least one character, so
  that twice the length of the text is enough; \<open>json_parse_fuel\<close> shows that more fuel changes nothing.
  \<open>json_parse_print\<close> shows that the texts \<open>json_print\<close> writes are read back to the value printed.
\<close>

datatype json = JsonNull | JsonBool bool | JsonNum jsnum | JsonStr string | JsonArr "json list" | JsonObj "(string \<times> json) list"

definition json_ws :: "char \<Rightarrow> bool" where
  "json_ws c \<longleftrightarrow> c \<in> {CHR '' '', CHR 0x09, CHR 0x0A, CHR 0x0D}"

definition skip_ws :: "string \<Rightarrow> string" where
  "skip_ws s = dropWhile json_ws s"

text \<open>The hexadecimal digits of \<open>\u\<close>, as a character code below 256.\<close>

definition hex_char :: "char \<Rightarrow> char \<Rightarrow> char \<Rightarrow> char \<Rightarrow> char option" where
  "hex_char a b c d =
    do { w \<leftarrow> hex_val a; x \<leftarrow> hex_val b; y \<leftarrow> hex_val c; z \<leftarrow> hex_val d;
         if w = 0 \<and> x = 0 then Some (char_of (nat (16 * y + z))) else None }"

definition escape_char :: "char \<Rightarrow> char option" where
  "escape_char e = map_of
    [(CHR 0x22, CHR 0x22), (CHR 0x5C, CHR 0x5C), (CHR ''/'', CHR ''/''), (CHR ''b'', CHR 0x08), (CHR ''f'', CHR 0x0C),
     (CHR ''n'', CHR 0x0A), (CHR ''r'', CHR 0x0D), (CHR ''t'', CHR 0x09)] e"

definition hd_is :: "char \<Rightarrow> string \<Rightarrow> bool" where
  "hd_is c s \<longleftrightarrow> s \<noteq> [] \<and> hd s = c"

text \<open>The rest of a string after its opening quote.\<close>

function parse_str :: "string \<Rightarrow> (string \<times> string) option" where
  "parse_str s =
    (case s of
       [] \<Rightarrow> None
     | c # t \<Rightarrow>
         if c = CHR 0x22 then Some ([], t)
         else if c = CHR 0x5C then
           (case t of
              [] \<Rightarrow> None
            | e # u \<Rightarrow>
                if e = CHR ''u'' then
                  (if length u < 4 then None
                   else do { x \<leftarrow> hex_char (u ! 0) (u ! 1) (u ! 2) (u ! 3); (r, rest) \<leftarrow> parse_str (drop 4 u); Some (x # r, rest) })
                else do { x \<leftarrow> escape_char e; (r, rest) \<leftarrow> parse_str u; Some (x # r, rest) })
         else if of_char c < (32 :: int) then None
         else do { (r, rest) \<leftarrow> parse_str t; Some (c # r, rest) })"
  by pat_completeness auto
termination
  by (relation "measure length") auto

text \<open>A number: sign, integer part without leading zeros, fraction, exponent.\<close>

definition parse_exp :: "string \<Rightarrow> (int \<times> string) option" where
  "parse_exp s =
    (if hd_is (CHR ''e'') s \<or> hd_is (CHR ''E'') s then
       let t = tl s; neg = hd_is (CHR ''-'') t;
           u = (if hd_is (CHR ''-'') t \<or> hd_is (CHR ''+'') t then tl t else t);
           ds = takeWhile is_digit u
       in if ds = [] then None else Some ((if neg then - digits_val ds else digits_val ds), dropWhile is_digit u)
     else Some (0, s))"

definition parse_num :: "string \<Rightarrow> (jsnum \<times> string) option" where
  "parse_num s =
    (let neg = hd_is (CHR ''-'') s; t = (if neg then tl s else s);
         ip = takeWhile is_digit t; u = dropWhile is_digit t;
         frac = hd_is (CHR ''.'') u;
         fp = (if frac then takeWhile is_digit (tl u) else []);
         v = (if frac then dropWhile is_digit (tl u) else u)
     in if ip = [] \<or> (1 < length ip \<and> hd ip = CHR ''0'') \<or> (frac \<and> fp = []) then None
        else do { (e, rest) \<leftarrow> parse_exp v;
                  let x = decimal_val ip fp * 10 powi e;
                  Some (fl (if neg then - x else x), rest) })"

text \<open>The text after a literal.\<close>

definition literal :: "string \<Rightarrow> string \<Rightarrow> string option" where
  "literal w s = (if take (length w) s = w then Some (drop (length w) s) else None)"

text \<open>A value, the elements of an array after \<open>[\<close> and the members of an object after \<open>{\<close>.\<close>

fun parse_value :: "nat \<Rightarrow> string \<Rightarrow> (json \<times> string) option"
  and parse_elems :: "nat \<Rightarrow> string \<Rightarrow> (json list \<times> string) option"
  and parse_members :: "nat \<Rightarrow> string \<Rightarrow> ((string \<times> json) list \<times> string) option" where
  "parse_value 0 s = None"
| "parse_value (Suc n) s =
    (let t = skip_ws s in
     if t = [] then None
     else if hd t = CHR 0x22 then do { (r, rest) \<leftarrow> parse_str (tl t); Some (JsonStr r, rest) }
     else if hd t = CHR ''['' then
       (let u = skip_ws (tl t)
        in if hd_is (CHR '']'') u then Some (JsonArr [], tl u)
           else do { (vs, rest) \<leftarrow> parse_elems n u; Some (JsonArr vs, rest) })
     else if hd t = CHR ''{'' then
       (let u = skip_ws (tl t)
        in if hd_is (CHR ''}'') u then Some (JsonObj [], tl u)
           else do { (ms, rest) \<leftarrow> parse_members n u; Some (JsonObj (foldl (\<lambda>m (k, v). map_set k v m) [] ms), rest) })
     else if hd t = CHR ''t'' then do { rest \<leftarrow> literal ''true'' t; Some (JsonBool True, rest) }
     else if hd t = CHR ''f'' then do { rest \<leftarrow> literal ''false'' t; Some (JsonBool False, rest) }
     else if hd t = CHR ''n'' then do { rest \<leftarrow> literal ''null'' t; Some (JsonNull, rest) }
     else do { (x, rest) \<leftarrow> parse_num t; Some (JsonNum x, rest) })"
| "parse_elems 0 s = None"
| "parse_elems (Suc n) s =
    do {
      (v, rest) \<leftarrow> parse_value n s;
      let t = skip_ws rest;
      if hd_is (CHR '','') t then do { (vs, rest') \<leftarrow> parse_elems n (tl t); Some (v # vs, rest') }
      else if hd_is (CHR '']'') t then Some ([v], tl t)
      else None }"
| "parse_members 0 s = None"
| "parse_members (Suc n) s =
    (let t = skip_ws s in
     if \<not> hd_is (CHR 0x22) t then None
     else do {
       (k, rest) \<leftarrow> parse_str (tl t);
       let u = skip_ws rest;
       if \<not> hd_is (CHR '':'') u then None
       else do {
         (v, rest') \<leftarrow> parse_value n (tl u);
         let w = skip_ws rest';
         if hd_is (CHR '','') w then do { (ms, rest'') \<leftarrow> parse_members n (tl w); Some ((k, v) # ms, rest'') }
         else if hd_is (CHR ''}'') w then Some ([(k, v)], tl w)
         else None } })"

definition json_parse :: "string \<Rightarrow> json option" where
  "json_parse s =
    do { (v, rest) \<leftarrow> parse_value (Suc (2 * length s)) s; if skip_ws rest = [] then Some v else None }"

section \<open>Reading a value\<close>

fun json_str :: "json \<Rightarrow> string option" where
  "json_str (JsonStr s) = Some s"
| "json_str _ = None"

fun json_arr :: "json \<Rightarrow> json list option" where
  "json_arr (JsonArr vs) = Some vs"
| "json_arr _ = None"

fun json_field :: "string \<Rightarrow> json \<Rightarrow> json option" where
  "json_field k (JsonObj m) = map_get m k"
| "json_field k _ = None"

text \<open>What \<open>for (name in v)\<close> visits, with \<open>v[name]\<close>, and the text of a value in a concatenation.\<close>

definition index_text :: "nat \<Rightarrow> string" where
  "index_text i = num_to_string (num_int (int i))"

fun for_in :: "json \<Rightarrow> (string \<times> json) list" where
  "for_in (JsonObj m) = map (\<lambda>k. (k, the (map_get m k))) (own_keys m)"
| "for_in (JsonArr vs) = zip (map index_text [0..<length vs]) vs"
| "for_in (JsonStr s) = zip (map index_text [0..<length s]) (map (\<lambda>c. JsonStr [c]) s)"
| "for_in _ = []"

primrec js_text :: "json \<Rightarrow> string" where
  "js_text JsonNull = ''null''"
| "js_text (JsonBool b) = (if b then ''true'' else ''false'')"
| "js_text (JsonNum x) = num_to_string x"
| "js_text (JsonStr s) = s"
| "js_text (JsonArr vs) = join '','' (map (\<lambda>(v, t). if v = JsonNull then [] else t) (zip vs (map js_text vs)))"
| "js_text (JsonObj m) = ''[object Object]''"

section \<open>Printed values are read back\<close>

text \<open>
  \<open>JSON.stringify\<close>: quotes, backslashes and control characters are escaped, a number that is not finite
  is \<open>null\<close>, and the members of an object come in the order of its keys.
\<close>

definition hex_digit :: "int \<Rightarrow> char" where
  "hex_digit n = ''0123456789abcdef'' ! nat n"

definition print_char :: "char \<Rightarrow> string" where
  "print_char c =
    (case map_of [(CHR 0x22, CHR 0x22), (CHR 0x5C, CHR 0x5C), (CHR 0x08, CHR ''b''), (CHR 0x0C, CHR ''f''),
        (CHR 0x0A, CHR ''n''), (CHR 0x0D, CHR ''r''), (CHR 0x09, CHR ''t'')] c of
       Some e \<Rightarrow> [CHR 0x5C, e]
     | None \<Rightarrow> let code = of_char c :: int
               in if code < 32 then [CHR 0x5C, CHR ''u'', CHR ''0'', CHR ''0'', hex_digit (code div 16), hex_digit (code mod 16)] else [c])"

definition print_str :: "string \<Rightarrow> string" where
  "print_str s = CHR 0x22 # concat (map print_char s) @ [CHR 0x22]"

primrec json_print :: "json \<Rightarrow> string" where
  "json_print JsonNull = ''null''"
| "json_print (JsonBool b) = (if b then ''true'' else ''false'')"
| "json_print (JsonNum x) = (case x of Fin r \<Rightarrow> num_to_string x | _ \<Rightarrow> ''null'')"
| "json_print (JsonStr t) = print_str t"
| "json_print (JsonArr vs) = CHR ''['' # join '','' (map json_print vs) @ '']''"
| "json_print (JsonObj ms) =
    (let ps = map (map_prod id json_print) ms
     in CHR ''{'' # join '','' (map (\<lambda>k. print_str k @ '':'' @ the (map_of ps k)) (own_keys ps)) @ ''}'')"

text \<open>Values without numbers whose objects have distinct keys, none of them an array index.\<close>

primrec plain_json :: "json \<Rightarrow> bool" where
  "plain_json JsonNull = True"
| "plain_json (JsonBool b) = True"
| "plain_json (JsonNum x) = False"
| "plain_json (JsonStr t) = True"
| "plain_json (JsonArr vs) = list_all id (map plain_json vs)"
| "plain_json (JsonObj ms) = (distinct (map fst ms) \<and> list_all (\<lambda>(k, b). \<not> is_array_index k \<and> b) (map (map_prod id plain_json) ms))"

declare parse_str.simps [simp del]

lemma hex_val_digit: "0 \<le> n \<Longrightarrow> n < 16 \<Longrightarrow> hex_val (hex_digit n) = Some n"
proof -
  have "list_all (\<lambda>n. hex_val (hex_digit n) = Some n) [0..15]" by code_simp
  moreover assume "0 \<le> n" "n < 16"
  ultimately show ?thesis by (simp add: list_all_iff)
qed

lemma hex_char_print:
  assumes "of_char c < (32 :: int)"
  shows "hex_char (CHR ''0'') (CHR ''0'') (hex_digit (of_char c div 16)) (hex_digit (of_char c mod 16)) = Some c"
proof -
  have "0 \<le> (of_char c :: int)" by (metis of_nat_0_le_iff of_nat_of_char)
  then have "hex_val (hex_digit (of_char c div 16)) = Some (of_char c div 16)" "hex_val (hex_digit (of_char c mod 16)) = Some (of_char c mod 16)"
    using assms by (simp_all add: hex_val_digit)
  moreover have "hex_val (CHR ''0'') = Some 0" by code_simp
  moreover have "nat (of_char c) = of_char c" by (metis nat_int of_nat_of_char)
  ultimately show ?thesis by (simp add: hex_char_def)
qed

text \<open>One printed character is read back.\<close>

lemma parse_print_char:
  assumes "parse_str t = Some (r, rest)"
  shows "parse_str (print_char c @ t) = Some (c # r, rest)"
proof (cases "c \<in> {CHR 0x22, CHR 0x5C, CHR 0x08, CHR 0x0C, CHR 0x0A, CHR 0x0D, CHR 0x09}")
  case True
  then show ?thesis using assms by (subst parse_str.simps) (auto simp: print_char_def escape_char_def)
next
  case n: False
  show ?thesis
  proof (cases "of_char c < (32 :: int)")
    case True
    then have "print_char c @ t = CHR 0x5C # CHR ''u'' # CHR ''0'' # CHR ''0'' # hex_digit (of_char c div 16) # hex_digit (of_char c mod 16) # t"
      using n by (simp add: print_char_def Let_def)
    then show ?thesis using assms hex_char_print[OF True] by (subst parse_str.simps) (simp add: numeral_2_eq_2 numeral_3_eq_3)
  next
    case False
    then show ?thesis using n assms by (subst parse_str.simps) (simp add: print_char_def)
  qed
qed

lemma parse_print_str: "parse_str (concat (map print_char t) @ CHR 0x22 # rest) = Some (t, rest)"
proof (induction t)
  case Nil
  show ?case by (subst parse_str.simps) simp
next
  case (Cons c t)
  then show ?case using parse_print_char[OF Cons] by simp
qed

lemma skip_ws_not: "s \<noteq> [] \<Longrightarrow> \<not> json_ws (hd s) \<Longrightarrow> skip_ws s = s"
  by (cases s) (simp_all add: skip_ws_def)

lemma print_first:
  "plain_json v \<Longrightarrow> json_print v \<noteq> [] \<and> \<not> json_ws (hd (json_print v)) \<and> hd (json_print v) \<noteq> CHR '']''"
  by (cases v) (auto simp: print_str_def json_ws_def Let_def)

lemma literal_self: "literal w (w @ rest) = Some rest"
  by (simp add: literal_def)

lemma foldl_map_set: "distinct (map fst acc @ map fst ms) \<Longrightarrow> foldl (\<lambda>m (k, v). map_set k v m) acc ms = acc @ ms"
proof (induction ms arbitrary: acc)
  case (Cons x ms)
  obtain k v where x: "x = (k, v)" by (cases x)
  then have "k \<notin> fst ` set acc" using Cons.prems by auto
  then have "map_set k v acc = acc @ [(k, v)]" by (induction acc) auto
  then show ?case using Cons.IH[of "acc @ [(k, v)]"] Cons.prems x by simp
qed simp

lemma parse_elems_print:
  assumes "\<And>v n rest. v \<in> set vs \<Longrightarrow> length (json_print v) \<le> n \<Longrightarrow> parse_value n (json_print v @ rest) = Some (v, rest)"
    and "vs \<noteq> []" "length (join '','' (map json_print vs)) < n"
  shows "parse_elems n (join '','' (map json_print vs) @ CHR '']'' # rest) = Some (vs, rest)"
  using assms
proof (induction vs arbitrary: n)
  case (Cons v vs)
  obtain m where m: "n = Suc m" using Cons.prems(3) by (cases n) auto
  show ?case
  proof (cases "vs = []")
    case True
    then show ?thesis using Cons.prems(1)[of v m "CHR '']'' # rest"] Cons.prems(3) m by (simp add: skip_ws_def json_ws_def hd_is_def)
  next
    case False
    then have j: "join '','' (map json_print (v # vs)) = json_print v @ CHR '','' # join '','' (map json_print vs)"
      by (cases vs) simp_all
    have "parse_elems m (join '','' (map json_print vs) @ CHR '']'' # rest) = Some (vs, rest)"
      using Cons.prems(3) m j False by (intro Cons.IH Cons.prems(1)) auto
    moreover have "parse_value m (json_print v @ CHR '','' # join '','' (map json_print vs) @ CHR '']'' # rest) =
        Some (v, CHR '','' # join '','' (map json_print vs) @ CHR '']'' # rest)"
      using Cons.prems(3) m j by (intro Cons.prems(1)) auto
    ultimately show ?thesis unfolding j m by (simp add: skip_ws_def json_ws_def hd_is_def)
  qed
qed simp

definition print_member :: "string \<times> json \<Rightarrow> string" where
  "print_member m = print_str (fst m) @ '':'' @ json_print (snd m)"

lemma print_obj:
  assumes "distinct (map fst ms)" "list_all (\<lambda>m. \<not> is_array_index (fst m)) ms"
  shows "json_print (JsonObj ms) = CHR ''{'' # join '','' (map print_member ms) @ ''}''"
proof -
  have "own_keys (map (map_prod id json_print) ms) = map fst ms"
    using assms(2) own_keys_no_index[of "map (map_prod id json_print) ms"] by (auto simp: list_all_iff comp_def)
  moreover have "map_of (map (map_prod id json_print) ms) (fst m) = Some (json_print (snd m))" if "m \<in> set ms" for m
    using that assms(1) by (cases m) (auto simp: map_prod_def map_of_map comp_def case_prod_unfold)
  ultimately have "map (\<lambda>k. print_str k @ '':'' @ the (map_of (map (map_prod id json_print) ms) k)) (own_keys (map (map_prod id json_print) ms))
      = map print_member ms"
    by (simp add: print_member_def)
  then show ?thesis by (simp add: Let_def)
qed

lemma parse_members_print:
  assumes "\<And>k v n rest. (k, v) \<in> set ms \<Longrightarrow> length (json_print v) \<le> n \<Longrightarrow> parse_value n (json_print v @ rest) = Some (v, rest)"
    and "ms \<noteq> []" "length (join '','' (map print_member ms)) < n"
  shows "parse_members n (join '','' (map print_member ms) @ CHR ''}'' # rest) = Some (ms, rest)"
  using assms
proof (induction ms arbitrary: n)
  case (Cons x ms)
  obtain k v where x: "x = (k, v)" by (cases x)
  obtain m where m: "n = Suc m" using Cons.prems(3) by (cases n) auto
  have key: "parse_members (Suc m) (print_member x @ more) =
      do { (v', rest') \<leftarrow> parse_value m (json_print v @ more);
           let w = skip_ws rest';
           if hd_is (CHR '','') w then do { (ms, rest'') \<leftarrow> parse_members m (tl w); Some ((k, v') # ms, rest'') }
           else if hd_is (CHR ''}'') w then Some ([(k, v')], tl w) else None }" for more
    using parse_print_str[of k "CHR '':'' # json_print v @ more"]
    by (simp add: print_member_def x print_str_def skip_ws_def json_ws_def hd_is_def)
  show ?case
  proof (cases "ms = []")
    case True
    then show ?thesis using Cons.prems(1)[of k v m "CHR ''}'' # rest"] Cons.prems(3) m x key[of "CHR ''}'' # rest"]
      by (simp add: skip_ws_def json_ws_def hd_is_def print_member_def)
  next
    case False
    then have j: "join '','' (map print_member (x # ms)) = print_member x @ CHR '','' # join '','' (map print_member ms)"
      by (cases ms) simp_all
    have "parse_members m (join '','' (map print_member ms) @ CHR ''}'' # rest) = Some (ms, rest)"
      using Cons.prems(3) m j False by (intro Cons.IH Cons.prems(1)) auto
    moreover have "parse_value m (json_print v @ CHR '','' # join '','' (map print_member ms) @ CHR ''}'' # rest) =
        Some (v, CHR '','' # join '','' (map print_member ms) @ CHR ''}'' # rest)"
      using Cons.prems(3)[unfolded j m] x by (intro Cons.prems(1)[of k]) (auto simp: print_member_def)
    ultimately show ?thesis unfolding j m append_assoc key by (simp add: x skip_ws_def json_ws_def hd_is_def)
  qed
qed simp

lemma join_first:
  "xs \<noteq> [] \<Longrightarrow> hd xs \<noteq> [] \<Longrightarrow> join sep xs \<noteq> [] \<and> hd (join sep xs) = hd (hd xs)"
  by (cases xs; cases "tl xs") simp_all

lemma parse_value_print:
  "plain_json v \<Longrightarrow> length (json_print v) \<le> n \<Longrightarrow> parse_value n (json_print v @ rest) = Some (v, rest)"
proof (induction v arbitrary: n rest)
  case (JsonArr vs)
  obtain m where m: "n = Suc m" using JsonArr.prems(2) by (cases n) auto
  show ?case
  proof (cases "vs = []")
    case False
    have "plain_json (hd vs)" using False JsonArr.prems(1) by (cases vs) simp_all
    then have f: "join '','' (map json_print vs) \<noteq> []" "hd (join '','' (map json_print vs)) = hd (json_print (hd vs))"
      "\<not> json_ws (hd (json_print (hd vs)))" "hd (json_print (hd vs)) \<noteq> CHR '']''"
      using print_first[of "hd vs"] join_first[of "map json_print vs" "'',''"] False by (auto simp: hd_map)
    have "parse_elems m (join '','' (map json_print vs) @ CHR '']'' # rest) = Some (vs, rest)"
      using JsonArr m False by (intro parse_elems_print) (auto simp: list_all_iff)
    then show ?thesis using f by (simp add: m skip_ws_not json_ws_def[of "CHR ''[''"] hd_is_def)
  qed (simp add: m skip_ws_def json_ws_def hd_is_def)
next
  case (JsonObj ms)
  obtain m where m: "n = Suc m" using JsonObj.prems(2) by (cases n) (auto simp: Let_def)
  have pr: "json_print (JsonObj ms) = CHR ''{'' # join '','' (map print_member ms) @ ''}''"
    using JsonObj.prems(1) by (intro print_obj) (auto simp: list_all_iff)
  show ?case
  proof (cases "ms = []")
    case False
    have f: "join '','' (map print_member ms) \<noteq> []" "hd (join '','' (map print_member ms)) = CHR 0x22"
      using join_first[of "map print_member ms" "'',''"] False by (auto simp: hd_map print_member_def print_str_def)
    have "parse_members m (join '','' (map print_member ms) @ CHR ''}'' # rest) = Some (ms, rest)"
    proof (rule parse_members_print)
      fix k v n rest
      assume "(k, v) \<in> set ms" "length (json_print v) \<le> n"
      then show "parse_value n (json_print v @ rest) = Some (v, rest)"
        using JsonObj.IH[of "(k, v)" v n rest] JsonObj.prems(1) by (auto simp: list_all_iff)
    qed (use False JsonObj.prems(2) m pr in simp_all)
    moreover have "foldl (\<lambda>m (k, v). map_set k v m) [] ms = ms" using JsonObj.prems(1) foldl_map_set[of "[]" ms] by simp
    ultimately show ?thesis unfolding pr m
      using f by (simp add: skip_ws_not json_ws_def[of "CHR ''{''"] json_ws_def[of "CHR 0x22"] hd_is_def)
  qed (simp add: m skip_ws_def json_ws_def hd_is_def own_keys_def Let_def)
next
  case (JsonStr t)
  then obtain m where "n = Suc m" by (cases n) (auto simp: print_str_def)
  then show ?case using JsonStr.prems(1) by (simp add: print_str_def skip_ws_def json_ws_def parse_print_str)
next
  case (JsonBool b)
  then obtain m where "n = Suc m" by (cases n) (auto split: if_splits)
  then show ?case by (simp add: skip_ws_def json_ws_def literal_def)
next
  case JsonNull
  then obtain m where "n = Suc m" by (cases n) auto
  then show ?case by (simp add: skip_ws_def json_ws_def literal_def)
qed simp

theorem json_parse_print: "plain_json v \<Longrightarrow> json_parse (json_print v) = Some v"
  using parse_value_print[of v "Suc (2 * length (json_print v))" "[]"] by (simp add: json_parse_def skip_ws_def del: parse_value.simps)

section \<open>The fuel is enough\<close>

text \<open>What a parser leaves is shorter than what it was given.\<close>

lemma skip_ws_length: "length (skip_ws s) \<le> length s"
  by (simp add: skip_ws_def length_dropWhile_le)

lemma parse_str_length: "parse_str s = Some (r, rest) \<Longrightarrow> length rest < length s"
proof (induction s arbitrary: r rest rule: measure_induct_rule[where f = length])
  case (less s)
  have shorter: "length rest < length s" if "parse_str t = Some (r', rest)" "length t < length s" for t r'
    using less.IH[OF that(2,1)] that(2) by simp
  show ?case
  proof (cases s)
    case Nil
    then show ?thesis using less.prems by (simp add: parse_str.simps)
  next
    case (Cons c t)
    note p = less.prems[unfolded Cons parse_str.simps[of "c # t"]]
    consider "c = CHR 0x22" | "c = CHR 0x5C" | "c \<noteq> CHR 0x22" "c \<noteq> CHR 0x5C" by blast
    then show ?thesis
    proof cases
      case 1
      then show ?thesis using p Cons by simp
    next
      case 2
      then obtain e u where t: "t = e # u" using p by (cases t) auto
      show ?thesis
      proof (cases "e = CHR ''u''")
        case True
        then obtain r' where "parse_str (drop 4 u) = Some (r', rest)"
          using p 2 t by (auto split: if_splits bind_splits)
        then show ?thesis by (rule shorter) (simp add: Cons t)
      next
        case False
        then obtain r' where "parse_str u = Some (r', rest)"
          using p 2 t by (auto split: bind_splits)
        then show ?thesis by (rule shorter) (simp add: Cons t)
      qed
    next
      case 3
      then obtain r' where "parse_str t = Some (r', rest)"
        using p by (auto split: if_splits bind_splits)
      then show ?thesis by (rule shorter) (simp add: Cons)
    qed
  qed
qed

lemma parse_num_length: "parse_num s = Some (x, rest) \<Longrightarrow> length rest < length s"
proof -
  assume p: "parse_num s = Some (x, rest)"
  define t where "t = (if hd_is (CHR ''-'') s then tl s else s)"
  define u where "u = dropWhile is_digit t"
  define v where "v = (if hd_is (CHR ''.'') u then dropWhile is_digit (tl u) else u)"
  have "takeWhile is_digit t \<noteq> []" and e: "\<exists>n. parse_exp v = Some (n, rest)"
    using p by (auto simp: parse_num_def t_def u_def v_def Let_def split: if_splits bind_splits)
  then have "length u < length t" unfolding u_def by (metis length_append length_greater_0_conv less_add_same_cancel2 takeWhile_dropWhile_id)
  moreover have "length t \<le> length s" by (simp add: t_def)
  moreover have "length v \<le> length u"
    using order_trans[OF length_dropWhile_le[of is_digit "tl u"], of "length u"] by (simp add: v_def)
  moreover have "length rest \<le> length v"
  proof -
    have "length (dropWhile is_digit w) \<le> length w" for w by (rule length_dropWhile_le)
    note d = this[of "tl v"] this[of "tl (tl v)"]
    show ?thesis using e d by (auto simp: parse_exp_def Let_def split: if_splits)
  qed
  ultimately show ?thesis by linarith
qed

lemma literal_length: "literal w s = Some rest \<Longrightarrow> w \<noteq> [] \<Longrightarrow> s \<noteq> [] \<Longrightarrow> length rest < length s"
  by (auto simp: literal_def split: if_splits)

lemma hd_is_tl: "hd_is c s \<Longrightarrow> length (tl s) < length s"
  by (simp add: hd_is_def)

lemma parse_length:
  "(\<forall>s v rest. parse_value n s = Some (v, rest) \<longrightarrow> length rest < length s)
   \<and> (\<forall>s vs rest. parse_elems n s = Some (vs, rest) \<longrightarrow> length rest < length s)
   \<and> (\<forall>s ms rest. parse_members n s = Some (ms, rest) \<longrightarrow> length rest < length s)"
proof (induction n)
  case (Suc n)
  have IH: "parse_value n s = Some (v, rest) \<Longrightarrow> length rest < length s" "parse_elems n s = Some (vs, rest) \<Longrightarrow> length rest < length s"
    "parse_members n s = Some (ms, rest) \<Longrightarrow> length rest < length s" for s v vs ms rest using Suc by blast+
  have ws: "length (skip_ws x) < length y" if "length x < length y" for x y using that skip_ws_length[of x] by simp
  have val: "length rest < length s" if p: "parse_value (Suc n) s = Some (v, rest)" for s v rest
  proof -
    define t where "t = skip_ws s"
    have t: "t \<noteq> []" using p by (auto simp: t_def[symmetric] Let_def)
    define u where "u = skip_ws (tl t)"
    have u: "length u < length t" using t by (auto simp: u_def intro: ws)
    have "length rest < length t"
      using p t u by (auto simp: t_def[symmetric] u_def[symmetric] Let_def split: if_splits bind_splits
        dest!: parse_str_length parse_num_length literal_length IH dest: less_trans)
    then show ?thesis using skip_ws_length[of s] by (simp add: t_def)
  qed
  have elems: "length rest < length s" if p: "parse_elems (Suc n) s = Some (vs, rest)" for s vs rest
  proof -
    obtain v r where v: "parse_value n s = Some (v, r)" using p by (auto split: bind_splits)
    have "length (skip_ws r) < length s" by (rule ws[OF IH(1)[OF v]])
    then show ?thesis using p v by (auto simp: Let_def split: if_splits bind_splits dest!: IH)
  qed
  have members: "length rest < length s" if p: "parse_members (Suc n) s = Some (ms, rest)" for s ms rest
  proof -
    define t where "t = skip_ws s"
    have t: "hd_is (CHR 0x22) t" using p by (auto simp: t_def Let_def split: if_splits)
    obtain k r where k: "parse_str (tl t) = Some (k, r)" using p t by (auto simp: t_def Let_def split: bind_splits)
    define u where "u = skip_ws r"
    have u: "hd_is (CHR '':'') u" using p t k by (auto simp: t_def u_def Let_def split: if_splits)
    obtain v r' where v: "parse_value n (tl u) = Some (v, r')" using p t k u by (auto simp: t_def u_def Let_def split: bind_splits)
    have "length (skip_ws r') < length s"
      using ws[OF IH(1)[OF v]] skip_ws_length[of r] parse_str_length[OF k] skip_ws_length[of s] by (simp add: u_def t_def)
    then show ?thesis using p t k u v by (auto simp: t_def u_def Let_def split: if_splits bind_splits dest!: IH)
  qed
  from val elems members show ?case by blast
qed simp

lemmas parse_value_length = parse_length[THEN conjunct1, rule_format]

text \<open>Any two amounts of fuel that are large enough give the same result.\<close>

lemma parse_fuel:
  "(2 * length s < n \<and> 2 * length s < m \<longrightarrow> parse_value n s = parse_value m s)
   \<and> (2 * length s + 1 < n \<and> 2 * length s + 1 < m \<longrightarrow> parse_elems n s = parse_elems m s)
   \<and> (2 * length s + 1 < n \<and> 2 * length s + 1 < m \<longrightarrow> parse_members n s = parse_members m s)"
proof (induction s arbitrary: n m rule: measure_induct_rule[where f = length])
  case (less s)
  have val: "parse_value n s = parse_value m s" if b: "2 * length s < n" "2 * length s < m" for n m
  proof -
    obtain n' m' where n: "n = Suc n'" "m = Suc m'" using b by (cases n; cases m) auto
    define t where "t = skip_ws s"
    define u where "u = skip_ws (tl t)"
    show ?thesis
    proof (cases "t = []")
      case False
      then have l: "length u < length s" using skip_ws_length[of s] skip_ws_length[of "tl t"] by (cases t) (simp_all add: u_def t_def)
      then have "2 * length u + 1 < n'" "2 * length u + 1 < m'" using b n by linarith+
      then have "parse_elems n' u = parse_elems m' u" "parse_members n' u = parse_members m' u" using less.IH[OF l] by blast+
      then show ?thesis by (simp add: n t_def[symmetric] u_def[symmetric] Let_def)
    qed (simp add: n t_def)
  qed
  have later: "parse_elems n (tl (skip_ws r)) = parse_elems m (tl (skip_ws r)) \<and> parse_members n (tl (skip_ws r)) = parse_members m (tl (skip_ws r))"
    if "length r < length s" "hd_is c (skip_ws r)" "2 * length s < n" "2 * length s < m" for r c n m
  proof -
    have l: "length (tl (skip_ws r)) < length s" using that(1) skip_ws_length[of r] by simp
    then have "2 * length (tl (skip_ws r)) + 1 < n" "2 * length (tl (skip_ws r)) + 1 < m" using that by linarith+
    then show ?thesis using less.IH[OF l] by blast
  qed
  have elems: "parse_elems n s = parse_elems m s" if b: "2 * length s + 1 < n" "2 * length s + 1 < m" for n m
  proof -
    obtain n' m' where n: "n = Suc n'" "m = Suc m'" using b by (cases n; cases m) auto
    have v: "parse_value n' s = parse_value m' s" by (rule val) (use b n in simp_all)
    show ?thesis
    proof (cases "parse_value m' s")
      case (Some p)
      obtain x r where p: "p = (x, r)" by fastforce
      have "hd_is (CHR '','') (skip_ws r) \<Longrightarrow> parse_elems n' (tl (skip_ws r)) = parse_elems m' (tl (skip_ws r))"
        using later[of r _ n' m'] parse_value_length[of m' s x r] Some p b n by simp
      then show ?thesis by (simp add: n v Some p Let_def)
    qed (simp add: n v)
  qed
  have members: "parse_members n s = parse_members m s" if b: "2 * length s + 1 < n" "2 * length s + 1 < m" for n m
  proof -
    obtain n' m' where n: "n = Suc n'" "m = Suc m'" using b by (cases n; cases m) auto
    define t where "t = skip_ws s"
    show ?thesis
    proof (cases "hd_is (CHR 0x22) t \<and> parse_str (tl t) \<noteq> None")
      case True
      then obtain k r where k: "parse_str (tl t) = Some (k, r)" by auto
      define u where "u = skip_ws r"
      have l: "length (tl u) < length s"
        using parse_str_length[OF k] skip_ws_length[of r] skip_ws_length[of s] by (simp add: u_def t_def)
      have v: "parse_value n' (tl u) = parse_value m' (tl u)" using less.IH[OF l, of n' m'] l b n by simp
      show ?thesis
      proof (cases "parse_value m' (tl u)")
        case (Some p)
        obtain x r' where p: "p = (x, r')" by fastforce
        have "hd_is (CHR '','') (skip_ws r') \<Longrightarrow> parse_members n' (tl (skip_ws r')) = parse_members m' (tl (skip_ws r'))"
          using later[of r' _ n' m'] parse_value_length[of m' "tl u" x r'] Some p l b n by simp
        then show ?thesis using True by (simp add: n t_def[symmetric] k u_def[symmetric] v Some p Let_def)
      qed (use True in \<open>simp add: n t_def[symmetric] k u_def[symmetric] v Let_def\<close>)
    next
      case False
      then show ?thesis by (cases "parse_str (tl t)") (auto simp: n t_def[symmetric] Let_def)
    qed
  qed
  from val elems members show ?case by blast
qed

text \<open>
  \<open>json_parse\<close> never fails for want of fuel: with any larger amount it gives the same result.
\<close>

theorem json_parse_fuel:
  "2 * length s < n \<Longrightarrow> json_parse s = do { (v, rest) \<leftarrow> parse_value n s; if skip_ws rest = [] then Some v else None }"
  using parse_fuel[of s "Suc (2 * length s)" n] by (simp add: json_parse_def)

end
