(* ===== verification/PlanLayout.thy ===== *)
theory PlanLayout
  imports JsString
begin

text \<open>
  \<^verbatim>\<open>src/components/LivePlan.jsx\<close>, the end of \<open>updateD3Graph\<close>: the size of the canvas and, once the query has
  ended, the initial scale and position of the plan.  The size of the container is the text the browser
  gives for a CSS length; the size of the graph is what the library \<open>dagre\<close> computed for it.
\<close>

section \<open>Definitions\<close>

text \<open>\<open>s.replace(/px/, "")\<close>.\<close>

fun remove_px :: "string \<Rightarrow> string" where
  "remove_px [] = []"
| "remove_px (c # s) = (if prefix ''px'' (c # s) then drop 2 (c # s) else c # remove_px s)"

definition container_size :: "string \<Rightarrow> jsnum" where
  "container_size css = js_sub (parse_int (remove_px css)) (Fin 50)"

definition initialScale :: "jsnum \<Rightarrow> jsnum \<Rightarrow> jsnum \<Rightarrow> jsnum \<Rightarrow> jsnum" where
  "initialScale width height graphWidth graphHeight = math_min (js_div width graphWidth) (js_div height graphHeight)"

text \<open>The scale extent, the translation and the scale given to the zoom behaviour, if it is installed.\<close>

record canvas_size =
  cl_height :: jsnum
  cl_width :: jsnum
  cl_zoom :: "((jsnum \<times> jsnum) \<times> (jsnum \<times> jsnum) \<times> jsnum) option"

definition canvas_layout :: "bool \<Rightarrow> string \<Rightarrow> string \<Rightarrow> jsnum \<Rightarrow> jsnum \<Rightarrow> canvas_size" where
  "canvas_layout ended cssWidth cssHeight graph_width graph_height =
    (let width = container_size cssWidth; height = container_size cssHeight;
         graphHeight = js_add graph_height (Fin 100); graphWidth = js_add graph_width (Fin 100);
         scale = initialScale width height graphWidth graphHeight
     in if ended
        then \<lparr> cl_height = height, cl_width = width,
               cl_zoom = Some ((scale, Fin 1), (js_div (js_sub width (js_mul graph_width scale)) (Fin 2), Fin 20), scale) \<rparr>
        else \<lparr> cl_height = graphHeight, cl_width = graphWidth, cl_zoom = None \<rparr>)"

text \<open>What the browser and the library say when the plan is drawn, and what that makes of the canvas.\<close>

record layout =
  ly_cssWidth :: string
  ly_cssHeight :: string
  ly_graphWidth :: jsnum
  ly_graphHeight :: jsnum

text \<open>The zoom behaviour stays on the canvas once it is installed.\<close>

definition resize_canvas :: "bool \<Rightarrow> layout \<Rightarrow> canvas_size option \<Rightarrow> canvas_size" where
  "resize_canvas ended ly old =
    (let new = canvas_layout ended (ly_cssWidth ly) (ly_cssHeight ly) (ly_graphWidth ly) (ly_graphHeight ly)
     in if ended then new else new\<lparr> cl_zoom := old \<bind> cl_zoom \<rparr>)"

section \<open>Laws\<close>

lemma remove_px_length: "list_all is_digit s \<Longrightarrow> remove_px (s @ ''px'') = s"
proof (induction s)
  case (Cons c s)
  then have "c \<noteq> CHR ''p''" by (auto simp: is_digit_def)
  then show ?case using Cons by simp
qed simp

lemma container_size_px: "0 \<le> n \<Longrightarrow> n \<le> 2 ^ 52 \<Longrightarrow> container_size (show_nat n @ ''px'') = num_int (n - 50)"
  by (simp add: container_size_def remove_px_length show_nat_digits parse_int_show_nat js_sub_int[of n 50, simplified] del: js_sub_def)

text \<open>A division of sizes; its rounding errs by at most one part in \<open>2 ^ 53\<close>.\<close>

lemma scaled_fits:
  assumes "1 \<le> w" "w \<le> 2 ^ 40" "1 \<le> g" "g \<le> 2 ^ 40"
  shows "\<exists>s. js_div (Fin w) (Fin g) = Fin s \<and> 0 < s \<and> s * g \<le> w * (1 + 1 / 2 ^ 53)"
proof -
  have "(2 :: rat) powi (- 1022) * 2 ^ 40 \<le> 1" by (simp add: power_int_minus)
  then have "2 powi (- 1022) * g \<le> 1" using assms(4) powi_pos[of "- 1022"] by (meson less_imp_le mult_left_mono order_trans)
  then have "2 powi (- 1022) * g \<le> w" using assms(1) by linarith
  then have "2 powi (- 1022) \<le> w / g" using assms(3) by (simp add: field_simps)
  then have e: "\<bar>rnd (w / g) - w / g\<bar> \<le> (w / g) / 2 ^ 53" by (rule rnd_relative)
  have q: "0 < w / g" using assms by simp
  have "w \<le> 2 ^ 40 * g" using mult_mono[of w "2 ^ 40" 1 g] assms by simp
  then have "w / g \<le> 2 ^ 40" using assms(3) by (simp add: field_simps)
  then have "rnd (w / g) \<le> 2 ^ 40" using rnd_le_dbl[of "w / g" "2 ^ 40"] dbl_of_int[of "2 ^ 40"] by simp
  also have "\<dots> < huge" using power_less_huge[of 40] by simp
  finally have h: "rnd (w / g) < huge" .
  have l: "rnd (w / g) \<le> (w / g) * (1 + 1 / 2 ^ 53)" using e by (simp add: algebra_simps)
  have p: "0 < rnd (w / g)" using e q by (simp add: abs_le_iff)
  have "js_div (Fin w) (Fin g) = Fin (rnd (w / g))" using assms(3) h p huge_pos by (simp add: fl_def Let_def)
  moreover have "rnd (w / g) * g \<le> w * (1 + 1 / 2 ^ 53)" using mult_right_mono[OF l, of g] assms(3) by simp
  ultimately show ?thesis using p by blast
qed

text \<open>
  Once the query has ended, the canvas takes the size of the container and the plan is drawn at a scale at
  which it fits into it, but for one rounding; the same scale is the smallest the user can zoom to.
\<close>

theorem canvas_layout_fits:
  assumes "container_size cssWidth = Fin w" "1 \<le> w" "w \<le> 2 ^ 40" "container_size cssHeight = Fin h" "1 \<le> h" "h \<le> 2 ^ 40"
    and "js_add graph_width (Fin 100) = Fin gw" "1 \<le> gw" "gw \<le> 2 ^ 40" "js_add graph_height (Fin 100) = Fin gh" "1 \<le> gh" "gh \<le> 2 ^ 40"
  shows "\<exists>s t. canvas_layout True cssWidth cssHeight graph_width graph_height =
      \<lparr> cl_height = Fin h, cl_width = Fin w, cl_zoom = Some ((Fin s, Fin 1), t, Fin s) \<rparr>
    \<and> 0 < s \<and> s * gw \<le> w * (1 + 1 / 2 ^ 53) \<and> s * gh \<le> h * (1 + 1 / 2 ^ 53)"
proof -
  obtain a where a: "js_div (Fin w) (Fin gw) = Fin a" "0 < a" "a * gw \<le> w * (1 + 1 / 2 ^ 53)" using scaled_fits assms by blast
  obtain b where b: "js_div (Fin h) (Fin gh) = Fin b" "0 < b" "b * gh \<le> h * (1 + 1 / 2 ^ 53)" using scaled_fits assms by blast
  have "initialScale (Fin w) (Fin h) (Fin gw) (Fin gh) = Fin (min a b)"
    using a(1) b(1) by (auto simp: initialScale_def math_min_def min_def simp del: js_div.simps)
  moreover have "min a b * gw \<le> w * (1 + 1 / 2 ^ 53)"
    by (rule order_trans[OF mult_right_mono a(3)]) (use assms in simp_all)
  moreover have "min a b * gh \<le> h * (1 + 1 / 2 ^ 53)"
    by (rule order_trans[OF mult_right_mono b(3)]) (use assms in simp_all)
  moreover have "0 < min a b" using a(2) b(2) by simp
  ultimately show ?thesis
    by (intro exI[of _ "min a b"]) (simp add: canvas_layout_def assms(1,4,7,10) Let_def del: js_div.simps js_mul.simps)
qed

end
