(* ===== verification/LivePlan.thy ===== *)
theory LivePlan
  imports QueryInfo JsJson QueryHeader Polling PlanLayout
begin

text \<open>
  \<^verbatim>\<open>src/components/LivePlan.jsx\<close>: the plan of a query as a graph, one cluster per stage, which is
  updated as the query runs.

  The graph of the component is the object of the library \<open>dagre\<close> that every update adds to; it is
  modelled by the calls made on it.  The library's layout is not modelled; the size of the drawing is in
  \<open>PlanLayout\<close>.

  An exception in \<open>render\<close> or \<open>componentDidUpdate\<close> makes React take the component off the page and leaves
  \<open>setState\<close> as an exception; from then on \<open>setState\<close> does nothing.  A function that may be left this way
  returns \<open>Inl\<close> of the state then, and \<open>Inr\<close> of it otherwise.
\<close>

section \<open>The plan in JSON\<close>

text \<open>
  The plan of a fragment as its \<open>jsonRepresentation\<close> has it, with the fields the server's renderer always
  writes; a text of another shape is treated as one \<open>JSON.parse\<close> rejects.
\<close>

datatype plan_json = PlanJson
  (pj_id: string) (pj_name: string) (pj_identifier: string) (pj_details: string)
  (pj_children: "plan_json list") (pj_remoteSources: "string list")

lemma size_json_member: "(k, v) \<in> set m \<Longrightarrow> size v < size (JsonObj m)"
  by (induction m) auto

lemma size_json_elem: "c \<in> set vs \<Longrightarrow> size c < size (JsonArr vs)"
  by (induction vs) auto

lemma size_json_children:
  "json_field k v = Some a \<Longrightarrow> json_arr a = Some vs \<Longrightarrow> c \<in> set vs \<Longrightarrow> size c < size v"
  by (cases v; cases a) (auto dest!: map_of_SomeD size_json_member size_json_elem)

function read_plan :: "json \<Rightarrow> plan_json option" where
  "read_plan v =
    do {
      i \<leftarrow> json_field ''id'' v \<bind> json_str;
      name \<leftarrow> json_field ''name'' v \<bind> json_str;
      identifier \<leftarrow> json_field ''identifier'' v \<bind> json_str;
      details \<leftarrow> json_field ''details'' v \<bind> json_str;
      sources \<leftarrow> json_field ''remoteSources'' v \<bind> json_arr;
      remoteSources \<leftarrow> mapM json_str sources;
      (case json_field ''children'' v of
         None \<Rightarrow> None
       | Some a \<Rightarrow>
           (case json_arr a of
              None \<Rightarrow> None
            | Some cs \<Rightarrow> do { children \<leftarrow> mapM read_plan cs; Some (PlanJson i name identifier details children remoteSources) })) }"
  by pat_completeness auto
termination
  by (relation "measure size") (auto dest: size_json_children)

declare read_plan.simps [simp del]

definition parse_plan :: "string option \<Rightarrow> plan_json throws" where
  "parse_plan jsonRepresentation = do { text \<leftarrow> jsonRepresentation; v \<leftarrow> json_parse text; read_plan v }"

section \<open>Flattening\<close>

record plan_node_props =
  pp_id :: string
  pp_name :: string
  pp_identifier :: string
  pp_details :: string
  pp_sources :: "string list"
  pp_remoteSources :: "string list"

type_synonym plan_nodes_map = "(string, plan_node_props) jsmap"

text \<open>The field \<open>distribution\<close> is never read.\<close>

record stage_node_info =
  sn_stageId :: string
  sn_id :: string
  sn_root :: string
  sn_stageStats :: stage_stats
  sn_state :: string
  sn_nodes :: plan_nodes_map

definition node_props :: "plan_json \<Rightarrow> plan_node_props" where
  "node_props node =
    \<lparr> pp_id = pj_id node, pp_name = pj_name node, pp_identifier = pj_identifier node, pp_details = pj_details node,
      pp_sources = map pj_id (pj_children node), pp_remoteSources = pj_remoteSources node \<rparr>"

function flattenNode :: "plan_json \<Rightarrow> plan_nodes_map \<Rightarrow> plan_nodes_map" where
  "flattenNode node result =
    foldl (\<lambda>result child. flattenNode child result) (map_set (pj_id node) (node_props node) result) (pj_children node)"
  by pat_completeness auto
termination
proof (relation "measure (\<lambda>(n, r). size n)")
  fix node result and child :: plan_json
  assume "child \<in> set (pj_children node)"
  then show "((child, x), (node, result)) \<in> measure (\<lambda>(n, r). size n)" for x
    by (cases node) (auto simp: less_Suc_eq_le size_list_estimation' trans_le_add2)
qed simp

declare flattenNode.simps [simp del]

text \<open>
  The plan of a stage is read after its sub-stages; a stage without a plan or with a plan that cannot
  be parsed makes the update throw, and so does a query without an output stage.
\<close>

function flattenStage :: "stage_info \<Rightarrow> (string, stage_node_info) jsmap \<Rightarrow> (string, stage_node_info) jsmap throws" where
  "flattenStage stageInfo result =
    do {
      result' \<leftarrow> foldM (\<lambda>result stage. flattenStage stage result) result (st_subStages stageInfo);
      plan \<leftarrow> st_plan stageInfo;
      node \<leftarrow> parse_plan (pf_jsonRepresentation plan);
      Some (map_set (pf_id plan)
        \<lparr> sn_stageId = st_stageId stageInfo, sn_id = pf_id plan, sn_root = pn_id (pf_root plan),
          sn_stageStats = st_stageStats stageInfo, sn_state = st_state stageInfo, sn_nodes = flattenNode node [] \<rparr> result') }"
  by pat_completeness auto
termination
  by (relation "measure (\<lambda>(s, r). size s)") (auto dest: size_subStages)

declare flattenStage.simps [simp del]

definition getStages :: "query_info \<Rightarrow> (string, stage_node_info) jsmap throws" where
  "getStages queryInfo = do { outputStage \<leftarrow> qi_outputStage queryInfo; flattenStage outputStage [] }"

section \<open>Labels of the graph\<close>

definition StageStatistics_render :: "stage_node_info \<Rightarrow> ('h, 'c) vnode throws" where
  "StageStatistics_render stage =
    (let stats = sn_stageStats stage in
     do {
       rows \<leftarrow> formatRows (JNum (ss_rawInputPositions stats));
       Some (el ''div'' [el ''div''
         [elc ''h3'' ''margin-top: 0'' [Text ''Stage '', Text (sn_id stage)],
          Text (sn_state stage),
          el ''hr'' [],
          Text ''CPU: '', Text (ss_totalCpuTime stats), el ''br'' [],
          Text ''Buffered: '', Text (ss_bufferedDataSize stats), el ''br'' [],
          (if ss_fullyBlocked stats
           then Elem ''div'' [style_attr [(''color'', ''#ff0000'')]] [Text ''Blocked: '', Text (ss_totalBlockedTime stats), Text '' '']
           else el ''div'' [Text ''Blocked: '', Text (ss_totalBlockedTime stats), Text '' '']),
          Text ''Memory: '', Text (ss_userMemoryReservation stats),
          el ''br'' [],
          Text ''Splits: '',
          Text (''Q:'' @ num_to_string (ss_queuedDrivers stats) @ '', R:'' @ num_to_string (ss_runningDrivers stats)
                @ '', F:'' @ num_to_string (ss_completedDrivers stats)),
          el ''hr'' [],
          Text ''Input: '', Text (ss_rawInputDataSize stats @ '' / '' @ rows)]]) })"

definition PlanNode_render :: "plan_node_props \<Rightarrow> ('h, 'c) vnode" where
  "PlanNode_render props =
    Elem ''div'' [style_attr [(''color'', ''#000'')], attr ''data-toggle'' ''tooltip'', attr ''data-placement'' ''bottom'',
        attr ''data-container'' ''body'', attr ''data-html'' ''true'', attr ''title'' (''<h4>'' @ pp_name props @ ''</h4>'' @ pp_identifier props)]
      [el ''strong'' [Text (pp_name props)],
       el ''div'' [Text (truncateString (pp_identifier props) 35)]]"

section \<open>Updating the graph\<close>

type_synonym plan_call = "(unit, unit) vnode graph_call"

definition stageRootNodeId :: "string \<Rightarrow> string" where
  "stageRootNodeId i = ''stage-'' @ i @ ''-root''"

definition planNodeId :: "string \<Rightarrow> string" where
  "planNodeId i = ''node-'' @ i"

definition plan_edge :: "(string \<times> string) list" where
  "plan_edge = [(''class'', ''plan-edge''), (''arrowheadClass'', ''plan-arrowhead'')]"

definition remote_edge :: "(string, stage_node_info) jsmap \<Rightarrow> string \<Rightarrow> string \<Rightarrow> plan_call list throws" where
  "remote_edge allStages nodeId sourceId =
    (case map_get allStages sourceId of
       None \<Rightarrow> Some []
     | Some source \<Rightarrow>
         do {
           rows \<leftarrow> formatRows (JNum (ss_outputPositions (sn_stageStats source)));
           Some [SetEdge (stageRootNodeId sourceId) nodeId
             (plan_edge @ [(''style'', ''stroke-width: 4px''), (''label'', ss_outputDataSize (sn_stageStats source) @ '' / '' @ rows),
               (''labelStyle'', ''color: #fff; font-weight: bold; font-size: 24px;''), (''labelType'', ''html'')])] })"

definition node_calls :: "(string, stage_node_info) jsmap \<Rightarrow> string \<Rightarrow> plan_node_props \<Rightarrow> plan_call list throws" where
  "node_calls allStages clusterId node =
    (let nodeId = planNodeId (pp_id node);
         local = [SetNode nodeId [(''style'', ''fill: #fff''), (''labelType'', ''html'')] (Some (PlanNode_render node)), SetParent nodeId clusterId]
                 @ map (\<lambda>source. SetEdge (planNodeId source) nodeId plan_edge) (pp_sources node)
     in if 0 < length (pp_remoteSources node)
        then do {
          remote \<leftarrow> mapM (remote_edge allStages nodeId) (pp_remoteSources node);
          Some (local @ [SetNode nodeId [(''label'', []), (''shape'', ''circle'')] None] @ concat remote) }
        else Some local)"

definition updateD3Stage :: "stage_node_info \<Rightarrow> (string, stage_node_info) jsmap \<Rightarrow> plan_call list throws" where
  "updateD3Stage stage allStages =
    (let clusterId = sn_stageId stage;
         root = stageRootNodeId (sn_id stage);
         color = getStageStateColor (sn_state stage) (Some (ss_fullyBlocked (sn_stageStats stage)))
     in do {
       html \<leftarrow> StageStatistics_render stage;
       nodes \<leftarrow> mapM (\<lambda>(k, node). node_calls allStages clusterId node) (sn_nodes stage);
       Some ([SetNode clusterId [(''style'', ''fill: '' @ color), (''labelStyle'', ''fill: #fff'')] None,
              SetNode root [(''class'', ''stage-stats''), (''labelType'', ''html'')] (Some html),
              SetParent root clusterId,
              SetEdge (planNodeId (sn_root stage)) root [(''style'', ''visibility: hidden'')]]
             @ concat nodes) })"

definition plan_calls :: "query_info \<Rightarrow> plan_call list throws" where
  "plan_calls q =
    do { stages \<leftarrow> getStages q; css \<leftarrow> mapM (\<lambda>(k, stage). updateD3Stage stage stages) stages; Some (concat css) }"

section \<open>State\<close>

text \<open>
  \<open>lp_svg\<close> is \<open>this.state.svg\<close>, the selection of the element \<open>#plan-canvas\<close> made when the component first
  updated: whether the element was on the page then.  \<open>lp_canvas\<close> is the size the canvas has been given, and
  \<open>lp_mounted\<close> tells that the component is on the page.
\<close>

record live_plan =
  lp_initialized :: bool
  lp_ended :: bool
  lp_query :: "query_info option"
  lp_graph :: "plan_call list"
  lp_svg :: "bool option"
  lp_canvas :: "canvas_size option"
  lp_mounted :: bool
  lp_timeout :: timer
  lp_requests :: nat

definition LivePlan_init :: live_plan where
  "LivePlan_init =
    \<lparr> lp_initialized = False, lp_ended = False, lp_query = None, lp_graph = initializeGraph, lp_svg = None, lp_canvas = None, lp_mounted = True,
      lp_timeout = no_timer, lp_requests = 0 \<rparr>"

definition lp_resetTimer :: "live_plan \<Rightarrow> live_plan" where
  "lp_resetTimer s =
    (let t = clearTimeout (lp_timeout s)
     in s\<lparr> lp_timeout := (if lp_query s = None \<or> \<not> lp_ended s then setTimeout 1000 t else t) \<rparr>)"

definition lp_refreshLoop :: "live_plan \<Rightarrow> live_plan" where
  "lp_refreshLoop s = s\<lparr> lp_timeout := clearTimeout (lp_timeout s), lp_requests := Suc (lp_requests s) \<rparr>"

section \<open>View\<close>

datatype lp_child = LpQueryHeader query_info

definition lp_error :: "('h, 'c) vnode list \<Rightarrow> ('h, 'c) vnode" where
  "lp_error label = divc ''row error-message'' [divc ''col-xs-12'' label]"

definition LivePlan_render :: "bool \<Rightarrow> live_plan \<Rightarrow> (unit, lp_child) vnode" where
  "LivePlan_render isEmbedded s =
    (case (lp_query s, lp_initialized s) of
       (Some q, True) \<Rightarrow>
         (let loadingMessage = (if qi_outputStage q = None
                then lp_error [el ''h4'' [Text ''Live plan graph will appear automatically when query starts running.''],
                       divc ''loader'' [Text ''Loading...'']]
                else Nothing);
              queryHeader = (if isEmbedded then Nothing else Comp (LpQueryHeader q))
          in el ''div''
            [queryHeader,
             divc ''row'' [divc ''col-xs-12''
               [loadingMessage,
                Elem ''div'' [attr ''id'' ''live-plan'', className ''graph-container'']
                  [divc ''pull-right''
                    [Text (if lp_ended s then ''Scroll to zoom.'' else ''Zoom disabled while query is running.''),
                     Text '' Click stage to view additional statistics''],
                   Elem ''svg'' [attr ''id'' ''plan-canvas''] []]]]])
     | _ \<Rightarrow> lp_error [el ''h4'' [if lp_initialized s then Text ''Query not found'' else divc ''loader'' [Text ''Loading...'']]])"

text \<open>Rendering the page renders its children.\<close>

fun lp_child_renders :: "lp_child \<Rightarrow> bool" where
  "lp_child_renders (LpQueryHeader q) \<longleftrightarrow> header_renders q"

definition lp_renders :: "bool \<Rightarrow> live_plan \<Rightarrow> bool" where
  "lp_renders isEmbedded s \<longleftrightarrow> list_all lp_child_renders (children (LivePlan_render isEmbedded s))"

section \<open>Updates and events\<close>

text \<open>The part of \<open>updateD3Graph\<close> after the canvas is selected; nothing is drawn on an empty selection.\<close>

definition drawD3Graph :: "layout \<Rightarrow> live_plan \<Rightarrow> live_plan + live_plan" where
  "drawD3Graph ly s =
    (case lp_query s of
       None \<Rightarrow> Inr s
     | Some q \<Rightarrow>
         (case plan_calls q of
            None \<Rightarrow> Inl s
          | Some calls \<Rightarrow>
              Inr (s\<lparr> lp_graph := lp_graph s @ calls,
                     lp_canvas := (if lp_svg s = Some True then Some (resize_canvas (lp_ended s) ly (lp_canvas s)) else lp_canvas s) \<rparr>)))"

text \<open>The first update selects the canvas; setting that state updates the component once more.\<close>

definition lp_updateD3Graph :: "bool \<Rightarrow> layout \<Rightarrow> live_plan \<Rightarrow> live_plan + live_plan" where
  "lp_updateD3Graph isEmbedded ly s =
    (if lp_svg s = None then drawD3Graph ly (s\<lparr> lp_svg := Some (initializeSvg ''#plan-canvas'' (LivePlan_render isEmbedded s)) \<rparr>)
     else drawD3Graph ly s)"

definition lp_setState :: "bool \<Rightarrow> layout \<Rightarrow> (live_plan \<Rightarrow> live_plan) \<Rightarrow> live_plan \<Rightarrow> live_plan + live_plan" where
  "lp_setState isEmbedded ly f s =
    (if \<not> lp_mounted s then Inr s
     else case (if lp_renders isEmbedded (f s) then lp_updateD3Graph isEmbedded ly (f s) else Inl (f s)) of
            Inl s' \<Rightarrow> Inl (s'\<lparr> lp_mounted := False \<rparr>)
          | Inr s' \<Rightarrow> Inr s')"

text \<open>The handler of \<open>catch\<close>, which also runs when the handler of an answer is left by an exception.\<close>

definition lp_onFailure :: "bool \<Rightarrow> layout \<Rightarrow> live_plan \<Rightarrow> live_plan" where
  "lp_onFailure isEmbedded ly s = (case lp_setState isEmbedded ly (\<lambda>s. s\<lparr> lp_initialized := True \<rparr>) s of Inl s' \<Rightarrow> s' | Inr s' \<Rightarrow> lp_resetTimer s')"

definition lp_onQuery :: "bool \<Rightarrow> layout \<Rightarrow> query_info \<Rightarrow> live_plan \<Rightarrow> live_plan" where
  "lp_onQuery isEmbedded ly q s =
    (case lp_setState isEmbedded ly (\<lambda>s. s\<lparr> lp_query := Some q, lp_initialized := True, lp_ended := qi_finalQueryInfo q \<rparr>) s of
       Inl s' \<Rightarrow> lp_onFailure isEmbedded ly s'
     | Inr s' \<Rightarrow> lp_resetTimer s')"

definition LivePlan_mount :: live_plan where
  "LivePlan_mount = lp_refreshLoop LivePlan_init"

definition live_plan_url :: "string \<Rightarrow> string" where
  "live_plan_url props_queryId = ''/v1/query/'' @ props_queryId"

text \<open>The click on the cluster of a stage opens the page of the stage.\<close>

definition handleStageClick :: "string \<Rightarrow> string" where
  "handleStageClick stageCssId = ''stage.html?'' @ stageCssId"

text \<open>An answer comes with the layout the browser and the library have when the update that follows draws the plan.\<close>

datatype lp_event = PlanTimer nat | PlanQuery layout query_info | PlanFailure layout

fun lp_exec :: "bool \<Rightarrow> lp_event \<Rightarrow> live_plan \<Rightarrow> live_plan option" where
  "lp_exec isEmbedded (PlanTimer i) s = do { t \<leftarrow> fireTimeout i (lp_timeout s); Some (lp_refreshLoop (s\<lparr> lp_timeout := t \<rparr>)) }"
| "lp_exec isEmbedded (PlanQuery ly q) s =
    (if 0 < lp_requests s then Some (lp_onQuery isEmbedded ly q (s\<lparr> lp_requests := lp_requests s - 1 \<rparr>)) else None)"
| "lp_exec isEmbedded (PlanFailure ly) s =
    (if 0 < lp_requests s then Some (lp_onFailure isEmbedded ly (s\<lparr> lp_requests := lp_requests s - 1 \<rparr>)) else None)"

section \<open>Laws\<close>

subsection \<open>Flattening\<close>

text \<open>The nodes of a plan, a node before its children, and the stages of a tree, a stage after its sub-stages.\<close>

primrec plan_list :: "plan_json \<Rightarrow> plan_json list" where
  "plan_list (PlanJson i na idf de cs rs) = PlanJson i na idf de cs rs # concat (map plan_list cs)"

primrec stage_post :: "stage_info \<Rightarrow> stage_info list" where
  "stage_post (StageInfo i st pl ss ts subs) = concat (map stage_post subs) @ [StageInfo i st pl ss ts subs]"

lemma plan_list_eq: "plan_list n = n # concat (map plan_list (pj_children n))"
  by (cases n) simp

lemma stage_post_eq: "stage_post s = concat (map stage_post (st_subStages s)) @ [s]"
  by (cases s) simp

lemma mset_stage_post: "mset (stage_post s) = mset (stage_list s)"
proof (induction s)
  case (StageInfo i st pl ss ts subs)
  then have "mset (concat (map stage_post subs)) = mset (concat (map stage_list subs))" by (induction subs) auto
  then show ?case by simp
qed

lemma size_pj_children: "c \<in> set (pj_children n) \<Longrightarrow> size c < size n"
  by (cases n) (auto simp: less_Suc_eq_le size_list_estimation' trans_le_add2)

lemma flattenNode_fold:
  "flattenNode n r = foldl (\<lambda>r m. map_set (pj_id m) (node_props m) r) r (plan_list n)"
proof (induction n arbitrary: r rule: measure_induct_rule[where f = size])
  case (less n)
  have sub: "foldl (\<lambda>r c. flattenNode c r) r cs = foldl (\<lambda>r m. map_set (pj_id m) (node_props m) r) r (concat (map plan_list cs))"
    if "set cs \<subseteq> set (pj_children n)" for r cs
    using that by (induction cs arbitrary: r) (simp_all add: less.IH size_pj_children)
  show ?case unfolding flattenNode.simps[of n] by (subst plan_list_eq) (simp add: sub)
qed

lemma foldl_set_distinct:
  "distinct (map f xs) \<Longrightarrow> foldl (\<lambda>r x. map_set (f x) (g x) r) [] xs = map (\<lambda>x. (f x, g x)) xs"
  using foldl_map_set[of "[]" "map (\<lambda>x. (f x, g x)) xs"] by (simp add: foldl_map comp_def)

lemma flattenNode_distinct:
  "distinct (map pj_id (plan_list n)) \<Longrightarrow> flattenNode n [] = map (\<lambda>m. (pj_id m, node_props m)) (plan_list n)"
  unfolding flattenNode_fold by (rule foldl_set_distinct)

text \<open>The fragment and the plan in JSON of a stage that has them.\<close>

definition fragment :: "stage_info \<Rightarrow> plan_fragment" where
  "fragment t = the (st_plan t)"

definition json_plan :: "stage_info \<Rightarrow> plan_json" where
  "json_plan t = the (parse_plan (pf_jsonRepresentation (fragment t)))"

text \<open>A stage as the server sends it while the query runs.\<close>

definition plan_known :: "stage_info \<Rightarrow> bool" where
  "plan_known t \<longleftrightarrow>
     st_plan t \<noteq> None \<and> parse_plan (pf_jsonRepresentation (fragment t)) \<noteq> None
   \<and> pn_id (pf_root (fragment t)) = pj_id (json_plan t) \<and> distinct (map pj_id (plan_list (json_plan t)))"

definition stage_entry :: "stage_info \<Rightarrow> stage_node_info" where
  "stage_entry t =
    \<lparr> sn_stageId = st_stageId t, sn_id = pf_id (fragment t), sn_root = pn_id (pf_root (fragment t)), sn_stageStats = st_stageStats t,
      sn_state = st_state t, sn_nodes = flattenNode (json_plan t) [] \<rparr>"

lemma flattenStage_fold:
  "list_all plan_known (stage_list s) \<Longrightarrow>
    flattenStage s r = Some (foldl (\<lambda>r t. map_set (pf_id (fragment t)) (stage_entry t) r) r (stage_post s))"
proof (induction s arbitrary: r rule: measure_induct_rule[where f = size])
  case (less s)
  have known: "plan_known s" "t \<in> set (st_subStages s) \<Longrightarrow> list_all plan_known (stage_list t)" for t
    using less.prems stage_list_eq[of s] by (auto simp: list_all_iff)
  have sub: "foldM (\<lambda>r t. flattenStage t r) r ts =
      Some (foldl (\<lambda>r t. map_set (pf_id (fragment t)) (stage_entry t) r) r (concat (map stage_post ts)))"
    if "set ts \<subseteq> set (st_subStages s)" for r ts
    using that by (induction ts arbitrary: r) (simp_all add: less.IH size_subStages known)
  obtain plan n where "st_plan s = Some plan" "parse_plan (pf_jsonRepresentation plan) = Some n"
    using known(1) by (auto simp: plan_known_def fragment_def)
  then show ?case unfolding flattenStage.simps[of s]
    by (subst stage_post_eq) (simp add: sub stage_entry_def fragment_def json_plan_def)
qed

lemma getStages_known:
  assumes "qi_outputStage q = Some outputStage" "list_all plan_known (stage_list outputStage)"
    and "distinct (map (\<lambda>t. pf_id (fragment t)) (stage_list outputStage))"
  shows "getStages q = Some (map (\<lambda>t. (pf_id (fragment t), stage_entry t)) (stage_post outputStage))"
proof -
  have "distinct (map (\<lambda>t. pf_id (fragment t)) (stage_post outputStage))"
    using assms(3) distinct_map_mset[OF mset_stage_post] by metis
  then show ?thesis using assms(1,2) by (simp add: getStages_def flattenStage_fold foldl_set_distinct)
qed

lemma formatRows_num: "\<exists>t. formatRows (JNum x) = Some t"
  using formatCount_num[of x] by (auto simp: formatRows_def)

lemma StageStatistics_defined: "\<exists>n. (StageStatistics_render stage :: ('h, 'c) vnode throws) = Some n"
  using formatRows_num by (simp add: StageStatistics_render_def Let_def)

subsection \<open>The graph\<close>

text \<open>A list of calls sets exactly the nodes \<open>N\<close> and the edges \<open>E\<close>.\<close>

definition draws :: "plan_call list throws \<Rightarrow> string set \<Rightarrow> (string \<times> string) set \<Rightarrow> bool" where
  "draws c N E \<longleftrightarrow> (\<exists>cs. c = Some cs \<and> set (graph_nodes cs) = N \<and> set (graph_edges cs) = E)"

lemma draws_mapM:
  assumes "\<And>x. x \<in> set xs \<Longrightarrow> draws (f x) (N x) (E x)"
  shows "draws (map_option concat (mapM f xs)) (\<Union>x \<in> set xs. N x) (\<Union>x \<in> set xs. E x)"
  using assms
proof (induction xs)
  case (Cons x xs)
  obtain c where c: "f x = Some c" "set (graph_nodes c) = N x" "set (graph_edges c) = E x"
    using Cons.prems[of x] by (auto simp: draws_def)
  obtain cs where cs: "mapM f xs = Some cs" "set (graph_nodes (concat cs)) = (\<Union>x \<in> set xs. N x)"
    "set (graph_edges (concat cs)) = (\<Union>x \<in> set xs. E x)"
    using Cons by (auto simp: draws_def)
  show ?case unfolding draws_def using c cs by (intro exI[of _ "c @ concat cs"]) simp
qed (simp add: draws_def)

lemma draws_remote_edge:
  "draws (remote_edge allStages n src) {} (if map_has allStages src then {(stageRootNodeId src, n)} else {})"
proof (cases "map_get allStages src")
  case (Some st)
  obtain t where "formatRows (JNum (ss_outputPositions (sn_stageStats st))) = Some t" using formatRows_num by blast
  then show ?thesis using Some by (simp add: draws_def remote_edge_def)
qed (simp add: draws_def remote_edge_def)

definition node_edges :: "string set \<Rightarrow> plan_node_props \<Rightarrow> (string \<times> string) set" where
  "node_edges ids node =
    {(planNodeId source, planNodeId (pp_id node)) | source. source \<in> set (pp_sources node)}
    \<union> {(stageRootNodeId src, planNodeId (pp_id node)) | src. src \<in> set (pp_remoteSources node) \<and> src \<in> ids}"

lemma draws_node_calls:
  "draws (node_calls allStages c node) {planNodeId (pp_id node)} (node_edges (fst ` set allStages) node)"
proof -
  let ?n = "planNodeId (pp_id node)"
  have local: "graph_nodes (map (\<lambda>source. SetEdge (planNodeId source) ?n plan_edge) ss :: plan_call list) = []"
    "graph_edges (map (\<lambda>source. SetEdge (planNodeId source) ?n plan_edge) ss :: plan_call list) = map (\<lambda>source. (planNodeId source, ?n)) ss" for ss
    by (induction ss) simp_all
  have "draws (map_option concat (mapM (remote_edge allStages ?n) (pp_remoteSources node))) {}
      {(stageRootNodeId src, ?n) | src. src \<in> set (pp_remoteSources node) \<and> src \<in> fst ` set allStages}"
  proof -
    have mem: "map_has allStages src \<longleftrightarrow> src \<in> fst ` set allStages" for src by (simp add: map_of_eq_None_iff)
    have "(\<Union>src \<in> set (pp_remoteSources node). if map_has allStages src then {(stageRootNodeId src, ?n)} else {}) =
        {(stageRootNodeId src, ?n) | src. src \<in> set (pp_remoteSources node) \<and> src \<in> fst ` set allStages}"
      unfolding mem by auto
    moreover have "draws (map_option concat (mapM (remote_edge allStages ?n) (pp_remoteSources node))) (\<Union>src \<in> set (pp_remoteSources node). {})
        (\<Union>src \<in> set (pp_remoteSources node). if map_has allStages src then {(stageRootNodeId src, ?n)} else {})"
      by (rule draws_mapM) (rule draws_remote_edge)
    ultimately show ?thesis by simp
  qed
  then obtain rs where "mapM (remote_edge allStages ?n) (pp_remoteSources node) = Some rs" "graph_nodes (concat rs) = []"
    "set (graph_edges (concat rs)) = {(stageRootNodeId src, ?n) | src. src \<in> set (pp_remoteSources node) \<and> src \<in> fst ` set allStages}"
    by (auto simp: draws_def)
  then show ?thesis unfolding draws_def
    by (cases "pp_remoteSources node = []") (auto simp: node_calls_def Let_def local node_edges_def)
qed

definition stage_edges :: "string set \<Rightarrow> stage_node_info \<Rightarrow> (string \<times> string) set" where
  "stage_edges ids stage =
    {(planNodeId (sn_root stage), stageRootNodeId (sn_id stage))} \<union> (\<Union>(k, node) \<in> set (sn_nodes stage). node_edges ids node)"

lemma draws_updateD3Stage:
  "draws (updateD3Stage stage allStages)
    ({sn_stageId stage, stageRootNodeId (sn_id stage)} \<union> (\<lambda>(k, node). planNodeId (pp_id node)) ` set (sn_nodes stage))
    (stage_edges (fst ` set allStages) stage)"
proof -
  obtain n :: "(unit, unit) vnode" where n: "StageStatistics_render stage = Some n" using StageStatistics_defined by blast
  have "draws (map_option concat (mapM (\<lambda>(k, node). node_calls allStages (sn_stageId stage) node) (sn_nodes stage)))
     (\<Union>x \<in> set (sn_nodes stage). (case x of (k, node) \<Rightarrow> {planNodeId (pp_id node)}))
     (\<Union>x \<in> set (sn_nodes stage). (case x of (k, node) \<Rightarrow> node_edges (fst ` set allStages) node))"
    by (rule draws_mapM) (auto simp: draws_node_calls split: prod.split)
  then obtain cs where "mapM (\<lambda>(k, node). node_calls allStages (sn_stageId stage) node) (sn_nodes stage) = Some cs"
    "set (graph_nodes (concat cs)) = (\<Union>x \<in> set (sn_nodes stage). (case x of (k, node) \<Rightarrow> {planNodeId (pp_id node)}))"
    "set (graph_edges (concat cs)) = (\<Union>x \<in> set (sn_nodes stage). (case x of (k, node) \<Rightarrow> node_edges (fst ` set allStages) node))"
    by (auto simp: draws_def)
  then show ?thesis using n unfolding draws_def by (auto simp: updateD3Stage_def Let_def stage_edges_def)
qed

text \<open>What the plan of a stage contributes to the graph.\<close>

definition plan_ids :: "stage_info \<Rightarrow> string set" where
  "plan_ids outputStage = (\<lambda>t. pf_id (fragment t)) ` set (stage_list outputStage)"

definition stage_nodes :: "stage_info \<Rightarrow> string set" where
  "stage_nodes t = {st_stageId t, stageRootNodeId (pf_id (fragment t))} \<union> (\<lambda>m. planNodeId (pj_id m)) ` set (plan_list (json_plan t))"

definition plan_edges :: "string set \<Rightarrow> plan_json \<Rightarrow> (string \<times> string) set" where
  "plan_edges ids m =
    {(planNodeId (pj_id c), planNodeId (pj_id m)) | c. c \<in> set (pj_children m)}
    \<union> {(stageRootNodeId src, planNodeId (pj_id m)) | src. src \<in> set (pj_remoteSources m) \<and> src \<in> ids}"

lemma pj_children_list: "c \<in> set (pj_children m) \<Longrightarrow> m \<in> set (plan_list n) \<Longrightarrow> c \<in> set (plan_list n)"
proof (induction n)
  case (PlanJson i na idf de cs rs)
  have self: "c \<in> set (plan_list c)" by (subst plan_list_eq) simp
  show ?case using PlanJson self by auto
qed

lemma node_edges_props: "node_edges ids (node_props m) = plan_edges ids m"
  by (auto simp: node_edges_def node_props_def plan_edges_def)

lemma set_stage_post [simp]: "set (stage_post s) = set (stage_list s)"
  by (metis mset_stage_post set_mset_mset)

lemma stage_entry_draws:
  assumes "plan_known t"
  shows "{sn_stageId (stage_entry t), stageRootNodeId (sn_id (stage_entry t))} \<union> (\<lambda>(k, node). planNodeId (pp_id node)) ` set (sn_nodes (stage_entry t)) = stage_nodes t"
    "stage_edges ids (stage_entry t) =
      insert (planNodeId (pj_id (json_plan t)), stageRootNodeId (pf_id (fragment t))) (\<Union>m \<in> set (plan_list (json_plan t)). plan_edges ids m)"
proof -
  have n: "sn_nodes (stage_entry t) = map (\<lambda>m. (pj_id m, node_props m)) (plan_list (json_plan t))"
    using assms by (simp add: stage_entry_def flattenNode_distinct plan_known_def)
  show "{sn_stageId (stage_entry t), stageRootNodeId (sn_id (stage_entry t))} \<union> (\<lambda>(k, node). planNodeId (pp_id node)) ` set (sn_nodes (stage_entry t)) = stage_nodes t"
    unfolding n by (simp add: stage_entry_def stage_nodes_def image_image node_props_def)
  show "stage_edges ids (stage_entry t) =
      insert (planNodeId (pj_id (json_plan t)), stageRootNodeId (pf_id (fragment t))) (\<Union>m \<in> set (plan_list (json_plan t)). plan_edges ids m)"
    unfolding stage_edges_def n using assms by (simp add: node_edges_props) (simp add: stage_entry_def plan_known_def)
qed

lemma plan_calls_known:
  assumes out: "qi_outputStage q = Some outputStage" and known: "list_all plan_known (stage_list outputStage)"
    and dist: "distinct (map (\<lambda>t. pf_id (fragment t)) (stage_list outputStage))"
  obtains calls where "plan_calls q = Some calls" "set (graph_nodes calls) = (\<Union>t \<in> set (stage_list outputStage). stage_nodes t)"
    "set (graph_edges calls) = (\<Union>t \<in> set (stage_list outputStage).
        insert (planNodeId (pj_id (json_plan t)), stageRootNodeId (pf_id (fragment t)))
          (\<Union>m \<in> set (plan_list (json_plan t)). plan_edges (plan_ids outputStage) m))"
proof -
  let ?S = "set (stage_list outputStage)" and ?m = "map (\<lambda>t. (pf_id (fragment t), stage_entry t)) (stage_post outputStage)"
  have k: "plan_known t" if "t \<in> ?S" for t using known that by (simp add: list_all_iff)
  have ids: "fst ` set ?m = plan_ids outputStage" by (simp add: image_image plan_ids_def)
  have d: "draws (map_option concat (mapM (\<lambda>t. updateD3Stage (stage_entry t) ?m) (stage_post outputStage)))
      (\<Union>t \<in> set (stage_post outputStage). stage_nodes t) (\<Union>t \<in> set (stage_post outputStage).
        insert (planNodeId (pj_id (json_plan t)), stageRootNodeId (pf_id (fragment t)))
          (\<Union>m \<in> set (plan_list (json_plan t)). plan_edges (plan_ids outputStage) m))"
  proof (rule draws_mapM)
    fix t assume "t \<in> set (stage_post outputStage)"
    then show "draws (updateD3Stage (stage_entry t) ?m) (stage_nodes t)
        (insert (planNodeId (pj_id (json_plan t)), stageRootNodeId (pf_id (fragment t)))
          (\<Union>m \<in> set (plan_list (json_plan t)). plan_edges (plan_ids outputStage) m))"
      using draws_updateD3Stage[of "stage_entry t" ?m] stage_entry_draws(1)[OF k[of t]] stage_entry_draws(2)[OF k[of t], of "plan_ids outputStage"] ids by simp
  qed
  have m: "mapM (\<lambda>(k, stage). updateD3Stage stage ?m) ?m = mapM (\<lambda>t. updateD3Stage (stage_entry t) ?m) (stage_post outputStage)"
    by (simp add: mapM_map)
  show ?thesis using d getStages_known[OF out known dist] m by (auto simp: draws_def plan_calls_def intro: that)
qed

text \<open>
  C7. The graph of a plan is complete and closed.  For a query whose stages all have a plan that can
  be read, with distinct node ids in a plan and distinct ids of the plans, an update draws exactly the
  cluster and the statistics node of every stage and one node for every plan node; the edges are those
  from the root of a plan to the statistics of its stage, from a plan node to its parent, and from the
  statistics of a stage to the nodes that read from it; and no edge has an end that is not drawn.
\<close>

theorem live_plan_graph:
  assumes out: "qi_outputStage q = Some outputStage" and known: "list_all plan_known (stage_list outputStage)"
    and dist: "distinct (map (\<lambda>t. pf_id (fragment t)) (stage_list outputStage))"
  shows "\<exists>calls. plan_calls q = Some calls
    \<and> set (graph_nodes calls) = (\<Union>t \<in> set (stage_list outputStage). stage_nodes t)
    \<and> set (graph_edges calls) = (\<Union>t \<in> set (stage_list outputStage).
        insert (planNodeId (pj_id (json_plan t)), stageRootNodeId (pf_id (fragment t)))
          (\<Union>m \<in> set (plan_list (json_plan t)). plan_edges (plan_ids outputStage) m))
    \<and> (\<forall>(a, b) \<in> set (graph_edges calls). a \<in> set (graph_nodes calls) \<and> b \<in> set (graph_nodes calls))"
proof -
  let ?S = "set (stage_list outputStage)"
  obtain calls where calls: "plan_calls q = Some calls" "set (graph_nodes calls) = (\<Union>t \<in> ?S. stage_nodes t)"
    "set (graph_edges calls) = (\<Union>t \<in> ?S. insert (planNodeId (pj_id (json_plan t)), stageRootNodeId (pf_id (fragment t)))
          (\<Union>m \<in> set (plan_list (json_plan t)). plan_edges (plan_ids outputStage) m))"
    by (rule plan_calls_known[OF assms])
  have root: "planNodeId (pj_id n) \<in> (\<lambda>m. planNodeId (pj_id m)) ` set (plan_list n)" for n
    by (subst plan_list_eq) simp
  have "a \<in> (\<Union>t \<in> ?S. stage_nodes t) \<and> b \<in> (\<Union>t \<in> ?S. stage_nodes t)" if e: "(a, b) \<in> set (graph_edges calls)" for a b
    using e unfolding calls(3)
    by (auto simp: plan_edges_def plan_ids_def stage_nodes_def dest: pj_children_list) (use root in blast)
  then have "\<forall>(a, b) \<in> set (graph_edges calls). a \<in> set (graph_nodes calls) \<and> b \<in> set (graph_nodes calls)"
    unfolding calls(2) by blast
  with calls show ?thesis by blast
qed

definition example_plan_json :: "string \<Rightarrow> string \<Rightarrow> json list \<Rightarrow> string list \<Rightarrow> json" where
  "example_plan_json i name cs rs =
    JsonObj [(''id'', JsonStr i), (''name'', JsonStr name), (''identifier'', JsonStr ''[x]''), (''details'', JsonStr []),
      (''children'', JsonArr cs), (''remoteSources'', JsonArr (map JsonStr rs))]"

definition example_plan_stage :: "string \<Rightarrow> string \<Rightarrow> plan_node \<Rightarrow> json \<Rightarrow> stage_info list \<Rightarrow> stage_info" where
  "example_plan_stage stageId i rt v subs =
    StageInfo stageId ''RUNNING'' (Some \<lparr> pf_id = i, pf_root = rt, pf_jsonRepresentation = Some (json_print v) \<rparr>)
      \<lparr> ss_totalScheduledTime = ''1.00s'', ss_totalBlockedTime = ''1.50s'', ss_totalCpuTime = ''500.00ms'', ss_cumulativeUserMemory = Fin 0,
        ss_userMemoryReservation = ''0B'', ss_peakUserMemoryReservation = ''1MB'', ss_bufferedDataSize = ''0B'', ss_fullyBlocked = False,
        ss_queuedDrivers = Fin 0, ss_runningDrivers = Fin 4, ss_completedDrivers = Fin 0, ss_rawInputDataSize = ''1MB'',
        ss_rawInputPositions = Fin 1000, ss_outputDataSize = ''90B'', ss_outputPositions = Fin 10, ss_operatorSummaries = [] \<rparr> [] subs"

definition example_plan_stages :: stage_info where
  "example_plan_stages =
    example_plan_stage ''q.0'' ''0'' (PlanNode ''output'' ''4'' None None None None None None None)
      (example_plan_json ''4'' ''Output'' [example_plan_json ''3'' ''RemoteSource'' [] [''1'']] [])
      [example_plan_stage ''q.1'' ''1'' (PlanNode ''tablescan'' ''1'' None None None None None None None)
        (example_plan_json ''1'' ''TableScan'' [] []) []]"

lemma example_plan_known:
  "list_all plan_known (stage_list example_plan_stages) \<and> distinct (map (\<lambda>t. pf_id (fragment t)) (stage_list example_plan_stages))"
  by code_simp

theorem live_plan_graph_witness:
  "\<exists>calls. plan_calls (example_query_info ''RUNNING'' (Some example_plan_stages) False) = Some calls
    \<and> (''stage-1-root'', ''node-3'') \<in> set (graph_edges calls) \<and> ''node-3'' \<in> set (graph_nodes calls)"
proof -
  let ?q = "example_query_info ''RUNNING'' (Some example_plan_stages) False"
  have out: "qi_outputStage ?q = Some example_plan_stages" by (simp add: example_query_info_def query.defs query_info.defs)
  have known: "list_all plan_known (stage_list example_plan_stages)" "distinct (map (\<lambda>t. pf_id (fragment t)) (stage_list example_plan_stages))"
    using example_plan_known by blast+
  let ?m = "PlanJson ''3'' ''RemoteSource'' ''[x]'' [] [] [''1'']"
  have m: "json_plan example_plan_stages = PlanJson ''4'' ''Output'' ''[x]'' [] [?m] []" by code_simp
  obtain calls where calls: "plan_calls ?q = Some calls"
    "set (graph_edges calls) = (\<Union>t \<in> set (stage_list example_plan_stages).
        insert (planNodeId (pj_id (json_plan t)), stageRootNodeId (pf_id (fragment t)))
          (\<Union>m \<in> set (plan_list (json_plan t)). plan_edges (plan_ids example_plan_stages) m))"
    "\<forall>(a, b) \<in> set (graph_edges calls). a \<in> set (graph_nodes calls) \<and> b \<in> set (graph_nodes calls)"
    using live_plan_graph[OF out known] by blast
  have "(''stage-1-root'', ''node-3'') \<in> plan_edges (plan_ids example_plan_stages) ?m"
  proof -
    have "''1'' \<in> plan_ids example_plan_stages" by code_simp
    then show ?thesis by (auto simp: plan_edges_def stageRootNodeId_def planNodeId_def)
  qed
  moreover have "?m \<in> set (plan_list (json_plan example_plan_stages))" "example_plan_stages \<in> set (stage_list example_plan_stages)"
    unfolding m by (simp, subst stage_list_eq, simp)
  ultimately have "(''stage-1-root'', ''node-3'') \<in> set (graph_edges calls)" unfolding calls(2) by blast
  with calls(1,3) show ?thesis by blast
qed

subsection \<open>Runs\<close>

fun lp_kind :: "lp_event \<Rightarrow> poll_kind" where
  "lp_kind (PlanTimer i) = Fires i"
| "lp_kind _ = Answers"

definition lp_polling :: "live_plan \<Rightarrow> bool" where
  "lp_polling s \<longleftrightarrow> lp_query s = None \<or> \<not> lp_ended s"

text \<open>The answers the page can show: the header renders, unless the page is embedded, and the plan can be flattened.\<close>

definition presentable :: "bool \<Rightarrow> query_info \<Rightarrow> bool" where
  "presentable isEmbedded q \<longleftrightarrow> (isEmbedded \<or> header_renders q) \<and> plan_calls q \<noteq> None"

definition lp_wf :: "bool \<Rightarrow> live_plan \<Rightarrow> bool" where
  "lp_wf isEmbedded s \<longleftrightarrow> (lp_mounted s \<longrightarrow> pred_option (presentable isEmbedded) (lp_query s))"

text \<open>The canvas is on the page once a query is shown.\<close>

definition canvas_shown :: "live_plan \<Rightarrow> bool" where
  "canvas_shown s \<longleftrightarrow> lp_query s \<noteq> None \<and> lp_initialized s"

lemma canvas_selected: "initializeSvg ''#plan-canvas'' (LivePlan_render isEmbedded s) = canvas_shown s"
proof -
  have "element_ids (LivePlan_render isEmbedded s) = (if canvas_shown s then [''live-plan'', ''plan-canvas''] else [])"
    by (auto simp: attr_ids_def LivePlan_render_def lp_error_def canvas_shown_def Let_def split: option.split bool.split)
  then show ?thesis by (simp add: initializeSvg_def selects_def)
qed

lemma lp_renders_iff:
  "lp_renders isEmbedded s \<longleftrightarrow> (\<forall>q. lp_query s = Some q \<and> lp_initialized s \<longrightarrow> isEmbedded \<or> header_renders q)"
  by (auto simp: lp_renders_def LivePlan_render_def lp_error_def Let_def split: option.split bool.split)

text \<open>
  An update.  It ends normally exactly when the query can be shown, and then leaves everything but the graph
  and the canvas as it is; otherwise the component is taken off the page.
\<close>

definition same_but_drawing :: "live_plan \<Rightarrow> live_plan \<Rightarrow> bool" where
  "same_but_drawing s s' \<longleftrightarrow> lp_timeout s' = lp_timeout s \<and> lp_requests s' = lp_requests s \<and> lp_query s' = lp_query s \<and> lp_ended s' = lp_ended s
    \<and> lp_initialized s' = lp_initialized s"

lemma updateD3Graph_draws:
  assumes "pred_option (\<lambda>q. plan_calls q \<noteq> None) (lp_query s)"
  shows "\<exists>s'. lp_updateD3Graph isEmbedded ly s = Inr s' \<and> same_but_drawing s s' \<and> lp_mounted s' = lp_mounted s
    \<and> lp_svg s' = Some (case lp_svg s of None \<Rightarrow> canvas_shown s | Some b \<Rightarrow> b)
    \<and> lp_canvas s' = (if lp_query s \<noteq> None \<and> lp_svg s' = Some True then Some (resize_canvas (lp_ended s) ly (lp_canvas s)) else lp_canvas s)
    \<and> lp_graph s' = lp_graph s @ (case lp_query s of None \<Rightarrow> [] | Some q \<Rightarrow> the (plan_calls q))"
proof (cases "lp_query s")
  case None
  then show ?thesis by (cases "lp_svg s") (simp_all add: lp_updateD3Graph_def canvas_selected drawD3Graph_def same_but_drawing_def)
next
  case (Some q)
  then obtain calls where "plan_calls q = Some calls" using assms by auto
  then show ?thesis using Some by (cases "lp_svg s") (simp_all add: lp_updateD3Graph_def canvas_selected drawD3Graph_def same_but_drawing_def)
qed

lemma updateD3Graph_throws:
  "lp_query s = Some q \<Longrightarrow> plan_calls q = None \<Longrightarrow> \<exists>s'. lp_updateD3Graph isEmbedded ly s = Inl s' \<and> same_but_drawing s s'"
  by (cases "lp_svg s") (simp_all add: lp_updateD3Graph_def canvas_selected drawD3Graph_def same_but_drawing_def)

lemma lp_setState_shows:
  assumes "lp_mounted s" "lp_initialized (f s)" "pred_option (presentable isEmbedded) (lp_query (f s))"
  shows "\<exists>s'. lp_setState isEmbedded ly f s = Inr s' \<and> same_but_drawing (f s) s' \<and> lp_mounted s' = lp_mounted (f s)
    \<and> lp_svg s' = Some (case lp_svg (f s) of None \<Rightarrow> canvas_shown (f s) | Some b \<Rightarrow> b)
    \<and> lp_canvas s' = (if lp_query (f s) \<noteq> None \<and> lp_svg s' = Some True then Some (resize_canvas (lp_ended (f s)) ly (lp_canvas (f s))) else lp_canvas (f s))
    \<and> lp_graph s' = lp_graph (f s) @ (case lp_query (f s) of None \<Rightarrow> [] | Some q \<Rightarrow> the (plan_calls q))"
proof -
  have "lp_renders isEmbedded (f s)" "pred_option (\<lambda>q. plan_calls q \<noteq> None) (lp_query (f s))"
    using assms(3) by (cases "lp_query (f s)"; auto simp: lp_renders_iff presentable_def)+
  then show ?thesis using assms(1) updateD3Graph_draws[of "f s" isEmbedded ly] by (auto simp: lp_setState_def)
qed

lemma lp_setState_throws:
  assumes "lp_mounted s" "lp_initialized (f s)" "lp_query (f s) = Some q" "\<not> presentable isEmbedded q"
  shows "\<exists>s'. lp_setState isEmbedded ly f s = Inl s' \<and> same_but_drawing (f s) s' \<and> \<not> lp_mounted s'"
proof (cases "lp_renders isEmbedded (f s)")
  case True
  then have "plan_calls q = None" using assms by (auto simp: lp_renders_iff presentable_def)
  from updateD3Graph_throws[OF assms(3) this] obtain s' where "lp_updateD3Graph isEmbedded ly (f s) = Inl s'" "same_but_drawing (f s) s'" by blast
  then show ?thesis using True assms(1) by (simp add: lp_setState_def same_but_drawing_def)
qed (use assms(1) in \<open>simp add: lp_setState_def same_but_drawing_def\<close>)

lemma lp_setState_unmounted: "\<not> lp_mounted s \<Longrightarrow> lp_setState isEmbedded ly f s = Inr s"
  by (simp add: lp_setState_def)

text \<open>
  What an answer or a failure does: nothing but to count the request off when the component is off the page,
  and otherwise to show the query, or to take the component off the page with it; in any case the
  timer is reset.
\<close>

fun lp_answer_of :: "lp_event \<Rightarrow> query_info option" where
  "lp_answer_of (PlanQuery ly q) = Some q"
| "lp_answer_of _ = None"

definition lp_next_query :: "lp_event \<Rightarrow> live_plan \<Rightarrow> query_info option" where
  "lp_next_query e s = (if lp_mounted s \<and> lp_answer_of e \<noteq> None then lp_answer_of e else lp_query s)"

definition lp_next_ended :: "lp_event \<Rightarrow> live_plan \<Rightarrow> bool" where
  "lp_next_ended e s = (case lp_answer_of e of Some q \<Rightarrow> if lp_mounted s then qi_finalQueryInfo q else lp_ended s | None \<Rightarrow> lp_ended s)"

lemma lp_reset [simp]:
  "lp_requests (lp_resetTimer s) = lp_requests s" "lp_mounted (lp_resetTimer s) = lp_mounted s" "lp_query (lp_resetTimer s) = lp_query s"
  "lp_polling (lp_resetTimer s) = lp_polling s" "lp_svg (lp_resetTimer s) = lp_svg s" "lp_ended (lp_resetTimer s) = lp_ended s"
  "lp_canvas (lp_resetTimer s) = lp_canvas s" "lp_graph (lp_resetTimer s) = lp_graph s"
  "lp_timeout (lp_resetTimer s) =
     (if lp_polling s then setTimeout 1000 (clearTimeout (lp_timeout s)) else clearTimeout (lp_timeout s))"
  by (simp_all add: lp_resetTimer_def lp_polling_def Let_def)

lemma lp_answer_step:
  assumes "lp_wf isEmbedded s" "lp_exec isEmbedded e s = Some s'" "lp_kind e = Answers"
  shows "\<exists>u. s' = lp_resetTimer u \<and> lp_timeout u = lp_timeout s \<and> lp_requests s = Suc (lp_requests u)
    \<and> lp_query u = lp_next_query e s \<and> lp_ended u = lp_next_ended e s
    \<and> (lp_mounted u \<longleftrightarrow> lp_mounted s \<and> pred_option (presentable isEmbedded) (lp_answer_of e))"
proof (cases e)
  case (PlanTimer i)
  then show ?thesis using assms(3) by simp
next
  case (PlanFailure ly)
  let ?s = "s\<lparr> lp_requests := lp_requests s - 1 \<rparr>" and ?f = "\<lambda>s. s\<lparr> lp_initialized := True \<rparr>"
  have r: "0 < lp_requests s" "s' = lp_onFailure isEmbedded ly ?s" using assms(2) PlanFailure by (auto split: if_splits)
  show ?thesis
  proof (cases "lp_mounted s")
    case True
    then obtain u where "lp_setState isEmbedded ly ?f ?s = Inr u" "same_but_drawing (?f ?s) u" "lp_mounted u"
      using lp_setState_shows[of ?s ?f isEmbedded ly] assms(1) by (auto simp: lp_wf_def)
    then show ?thesis using r True PlanFailure
      by (intro exI[of _ u]) (simp add: lp_onFailure_def same_but_drawing_def lp_next_query_def lp_next_ended_def)
  next
    case False
    then show ?thesis using r PlanFailure
      by (intro exI[of _ ?s]) (simp add: lp_onFailure_def lp_setState_unmounted lp_next_query_def lp_next_ended_def)
  qed
next
  case (PlanQuery ly q)
  let ?s = "s\<lparr> lp_requests := lp_requests s - 1 \<rparr>"
  let ?f = "\<lambda>s. s\<lparr> lp_query := Some q, lp_initialized := True, lp_ended := qi_finalQueryInfo q \<rparr>"
  have r: "0 < lp_requests s" "s' = lp_onQuery isEmbedded ly q ?s" using assms(2) PlanQuery by (auto split: if_splits)
  consider "\<not> lp_mounted s" | "lp_mounted s" "presentable isEmbedded q" | "lp_mounted s" "\<not> presentable isEmbedded q" by blast
  then show ?thesis
  proof cases
    case 1
    then show ?thesis using r PlanQuery
      by (intro exI[of _ ?s]) (simp add: lp_onQuery_def lp_setState_unmounted lp_next_query_def lp_next_ended_def)
  next
    case 2
    then obtain u where "lp_setState isEmbedded ly ?f ?s = Inr u" "same_but_drawing (?f ?s) u" "lp_mounted u"
      using lp_setState_shows[of ?s ?f isEmbedded ly] by auto
    then show ?thesis using r 2 PlanQuery
      by (intro exI[of _ u]) (simp add: lp_onQuery_def same_but_drawing_def lp_next_query_def lp_next_ended_def)
  next
    case 3
    then obtain u where "lp_setState isEmbedded ly ?f ?s = Inl u" "same_but_drawing (?f ?s) u" "\<not> lp_mounted u"
      using lp_setState_throws[of ?s ?f q isEmbedded ly] by auto
    then show ?thesis using r 3 PlanQuery
      by (intro exI[of _ u]) (simp add: lp_onQuery_def lp_onFailure_def lp_setState_unmounted same_but_drawing_def lp_next_query_def lp_next_ended_def)
  qed
qed

lemma lp_timer_step:
  assumes "lp_exec isEmbedded (PlanTimer i) s = Some s'"
  shows "lp_query s' = lp_query s" "lp_ended s' = lp_ended s" "lp_mounted s' = lp_mounted s" "lp_svg s' = lp_svg s" "lp_canvas s' = lp_canvas s"
  using assms by (auto simp: lp_refreshLoop_def)

lemma lp_step_cases:
  assumes "lp_exec isEmbedded e s = Some s'"
  obtains i where "e = PlanTimer i" | "lp_kind e = Answers"
  by (cases e) (use that in auto)

lemma lp_wf_step: "lp_wf isEmbedded s \<Longrightarrow> lp_exec isEmbedded e s = Some s' \<Longrightarrow> lp_wf isEmbedded s'"
proof -
  assume w: "lp_wf isEmbedded s" and x: "lp_exec isEmbedded e s = Some s'"
  from x show ?thesis
  proof (cases rule: lp_step_cases)
    case (1 i)
    then show ?thesis using w x lp_timer_step[of isEmbedded i s s'] by (simp add: lp_wf_def)
  next
    case 2
    from lp_answer_step[OF w x 2] obtain u where u: "s' = lp_resetTimer u" "lp_query u = lp_next_query e s"
      "lp_mounted u \<longleftrightarrow> lp_mounted s \<and> pred_option (presentable isEmbedded) (lp_answer_of e)" by blast
    show ?thesis
    proof (cases "lp_answer_of e")
      case None
      then have "lp_query s' = lp_query s" "lp_mounted s' = lp_mounted s" using u by (simp_all add: lp_next_query_def)
      then show ?thesis using w by (simp add: lp_wf_def)
    next
      case (Some q)
      then show ?thesis using u by (auto simp: lp_wf_def lp_next_query_def)
    qed
  qed
qed

interpretation lp_loop: polled "lp_exec isEmbedded" lp_kind "\<lambda>_. True" lp_timeout lp_requests lp_polling "\<lambda>_. 1000"
  "\<lambda>s. s = LivePlan_mount" "lp_wf isEmbedded"
proof
  fix s s' :: live_plan and e i
  show "lp_exec isEmbedded e s = Some s' \<Longrightarrow> lp_kind e = Fires i \<Longrightarrow>
      (\<exists>t. fireTimeout i (lp_timeout s) = Some t \<and> lp_timeout s' = clearTimeout t)
      \<and> lp_requests s' = Suc (lp_requests s) \<and> lp_polling s' = lp_polling s"
    by (cases e) (auto simp: lp_refreshLoop_def lp_polling_def)
  show "fireTimeout i (lp_timeout s) \<noteq> None \<Longrightarrow> \<exists>e. True \<and> lp_kind e = Fires i \<and> lp_exec isEmbedded e s \<noteq> None"
    by (rule exI[of _ "PlanTimer i"]) auto
  show "0 < lp_requests s \<Longrightarrow> \<exists>e. True \<and> lp_kind e = Answers \<and> lp_exec isEmbedded e s \<noteq> None"
    by (rule exI[of _ "PlanFailure undefined"]) simp
  show "lp_exec isEmbedded e s = Some s' \<Longrightarrow> lp_kind e = Quiet \<Longrightarrow>
      lp_timeout s' = lp_timeout s \<and> lp_requests s' = lp_requests s \<and> lp_polling s' = lp_polling s"
    by (cases e) auto
  show "lp_wf isEmbedded s \<Longrightarrow> lp_exec isEmbedded e s = Some s' \<Longrightarrow> lp_kind e = Answers \<Longrightarrow>
      lp_requests s = Suc (lp_requests s') \<and> lp_timeout s' =
      (if lp_polling s' then setTimeout 1000 (clearTimeout (lp_timeout s)) else clearTimeout (lp_timeout s))"
    using lp_answer_step[of isEmbedded s e s'] by auto
  show "lp_wf isEmbedded s \<Longrightarrow> lp_exec isEmbedded e s = Some s' \<Longrightarrow> lp_wf isEmbedded s'" by (rule lp_wf_step)
qed (auto simp: LivePlan_mount_def lp_refreshLoop_def LivePlan_init_def lp_polling_def lp_wf_def)

fun plan_responses :: "lp_event list \<Rightarrow> query_info list" where
  "plan_responses [] = []"
| "plan_responses (PlanQuery ly q # es) = q # plan_responses es"
| "plan_responses (_ # es) = plan_responses es"

text \<open>The answers the page takes over: up to and including the first it cannot show.\<close>

fun taken :: "bool \<Rightarrow> query_info list \<Rightarrow> query_info list" where
  "taken isEmbedded [] = []"
| "taken isEmbedded (q # qs) = q # (if presentable isEmbedded q then taken isEmbedded qs else [])"

lemma taken_append:
  "taken isEmbedded (qs @ rs) = (if list_all (presentable isEmbedded) qs then qs @ taken isEmbedded rs else taken isEmbedded qs)"
  by (induction qs) auto

definition lp_shows :: "bool \<Rightarrow> query_info list \<Rightarrow> live_plan \<Rightarrow> bool" where
  "lp_shows isEmbedded qs s \<longleftrightarrow> lp_query s = (if qs = [] then None else Some (last (taken isEmbedded qs)))
    \<and> (qs \<noteq> [] \<longrightarrow> lp_ended s = qi_finalQueryInfo (last (taken isEmbedded qs))) \<and> (lp_mounted s \<longleftrightarrow> list_all (presentable isEmbedded) qs)"

lemma plan_responses_append: "plan_responses (es @ fs) = plan_responses es @ plan_responses fs"
  by (induction es rule: plan_responses.induct) auto

lemma plan_responses_single: "plan_responses [e] = (case lp_answer_of e of None \<Rightarrow> [] | Some q \<Rightarrow> [q])"
  by (cases e) simp_all

lemma lp_shows_step:
  assumes "lp_wf isEmbedded s" "lp_shows isEmbedded qs s" "lp_exec isEmbedded e s = Some s'"
  shows "lp_shows isEmbedded (qs @ plan_responses [e]) s'"
  using assms(3)
proof (cases rule: lp_step_cases)
  case (1 i)
  then show ?thesis using assms(2,3) lp_timer_step[of isEmbedded i s s'] by (simp add: lp_shows_def)
next
  case 2
  from lp_answer_step[OF assms(1,3) 2] obtain u where u: "s' = lp_resetTimer u" "lp_query u = lp_next_query e s" "lp_ended u = lp_next_ended e s"
    "lp_mounted u \<longleftrightarrow> lp_mounted s \<and> pred_option (presentable isEmbedded) (lp_answer_of e)" by blast
  show ?thesis
  proof (cases "lp_answer_of e")
    case None
    then show ?thesis using u assms(2) by (simp add: lp_shows_def plan_responses_single lp_next_query_def lp_next_ended_def)
  next
    case (Some q)
    have "taken isEmbedded qs \<noteq> []" if "qs \<noteq> []" using that by (cases qs) simp_all
    then show ?thesis using Some u assms(2)
      by (auto simp: lp_shows_def plan_responses_single lp_next_query_def lp_next_ended_def taken_append)
  qed
qed

lemma lp_shows_run:
  "exec_all (lp_exec isEmbedded) es s = Some s' \<Longrightarrow> lp_wf isEmbedded s \<Longrightarrow> lp_shows isEmbedded qs s \<Longrightarrow> lp_shows isEmbedded (qs @ plan_responses es) s'"
proof (induction es arbitrary: s qs)
  case (Cons e es)
  then obtain s1 where s1: "lp_exec isEmbedded e s = Some s1" "exec_all (lp_exec isEmbedded) es s1 = Some s'" by auto
  from Cons.IH[OF s1(2) lp_wf_step[OF Cons.prems(2) s1(1)] lp_shows_step[OF Cons.prems(2,3) s1(1)]] show ?case
    using plan_responses_append[of "[e]" es] by simp
qed simp

lemma lp_run:
  assumes "exec_all (lp_exec isEmbedded) es LivePlan_mount = Some s"
  shows "lp_shows isEmbedded (plan_responses es) s" "one_series (lp_timeout s) (lp_requests s) (lp_polling s)"
    "lp_polling s \<Longrightarrow> \<exists>e. lp_kind e \<noteq> Quiet \<and> lp_exec isEmbedded e s \<noteq> None"
proof -
  have m: "lp_wf isEmbedded LivePlan_mount" "lp_shows isEmbedded [] LivePlan_mount"
    by (simp_all add: lp_shows_def lp_wf_def LivePlan_mount_def lp_refreshLoop_def LivePlan_init_def)
  from lp_shows_run[OF assms m] show "lp_shows isEmbedded (plan_responses es) s" by simp
  have ok: "list_all (\<lambda>_. True) es" by (simp add: list_all_iff)
  show "one_series (lp_timeout s) (lp_requests s) (lp_polling s)" by (rule lp_loop.one_series_run[OF refl assms ok])
  show "lp_polling s \<Longrightarrow> \<exists>e. lp_kind e \<noteq> Quiet \<and> lp_exec isEmbedded e s \<noteq> None" using lp_loop.never_stuck[OF refl assms ok] by blast
qed

text \<open>
  C8. The live plan after any run of timers, answers and failures.  It has the query of the last answer, or,
  once there was an answer it cannot show, of the first of these: that answer takes it off the page, and
  exactly then it is not on the page any more.  Until the query it has is final, one series of refreshes
  goes on and its next event can happen; after it, no request is on its way and no timer is armed.
\<close>

theorem live_plan_run:
  assumes "exec_all (lp_exec isEmbedded) es LivePlan_mount = Some s" and qs: "qs = taken isEmbedded (plan_responses es)"
  shows "lp_query s = (if qs = [] then None else Some (last qs))
    \<and> (lp_mounted s \<longleftrightarrow> list_all (presentable isEmbedded) (plan_responses es))
    \<and> (if qs \<noteq> [] \<and> qi_finalQueryInfo (last qs)
       then lp_requests s = 0 \<and> t_armed (lp_timeout s) = []
       else one_series (lp_timeout s) (lp_requests s) True \<and> (\<exists>e. lp_kind e \<noteq> Quiet \<and> lp_exec isEmbedded e s \<noteq> None))"
proof -
  have e: "qs = [] \<longleftrightarrow> plan_responses es = []" using qs by (cases "plan_responses es") simp_all
  note r = lp_run[OF assms(1)]
  from r(1) e qs have "lp_polling s \<longleftrightarrow> \<not> (qs \<noteq> [] \<and> qi_finalQueryInfo (last qs))" by (auto simp: lp_shows_def lp_polling_def)
  then show ?thesis using r e qs by (auto simp: lp_shows_def one_series_def)
qed

definition example_layout :: layout where
  "example_layout = \<lparr> ly_cssWidth = ''850px'', ly_cssHeight = ''450px'', ly_graphWidth = Fin 300, ly_graphHeight = Fin 700 \<rparr>"

theorem live_plan_run_witness:
  "\<exists>s. exec_all (lp_exec False) [PlanFailure example_layout, PlanTimer 0, PlanQuery example_layout (example_query_info ''QUEUED'' None False)] LivePlan_mount = Some s
     \<and> lp_query s = Some (example_query_info ''QUEUED'' None False) \<and> \<not> lp_mounted s \<and> one_series (lp_timeout s) (lp_requests s) True"
proof -
  let ?q = "example_query_info ''QUEUED'' None False"
  let ?es = "[PlanFailure example_layout, PlanTimer 0, PlanQuery example_layout ?q]"
  have "exec_all (lp_exec False) ?es LivePlan_mount \<noteq> None" by code_simp
  then obtain s where s: "exec_all (lp_exec False) ?es LivePlan_mount = Some s" by blast
  have q: "qi_outputStage ?q = None" "\<not> qi_finalQueryInfo ?q" by (simp_all add: example_query_info_def query.defs query_info.defs)
  then have "\<not> presentable False ?q" by (simp add: presentable_def plan_calls_def getStages_def)
  with q(2) have "lp_query s = Some ?q \<and> \<not> lp_mounted s \<and> one_series (lp_timeout s) (lp_requests s) True"
    using live_plan_run[OF s refl] by simp
  with s show ?thesis by blast
qed

text \<open>
  A query that has not started running has no output stage.  Rendering has a message for it, but the update of
  the graph that follows throws and takes the component off the page; whatever the later answers are, the
  page stays empty, with the query as it was.  When it was not final, the component goes on asking.
\<close>

lemma live_plan_queued_query:
  assumes "list_all (presentable isEmbedded) (plan_responses ds)" "qi_outputStage q = None"
    and "exec_all (lp_exec isEmbedded) (ds @ PlanQuery ly q # es) LivePlan_mount = Some s"
  shows "\<not> lp_mounted s \<and> lp_query s = Some q"
    "\<not> qi_finalQueryInfo q \<Longrightarrow> one_series (lp_timeout s) (lp_requests s) True \<and> (\<exists>e. lp_kind e \<noteq> Quiet \<and> lp_exec isEmbedded e s \<noteq> None)"
proof -
  have "\<not> presentable isEmbedded q" using assms(2) by (simp add: presentable_def plan_calls_def getStages_def)
  then have s: "\<not> lp_mounted s" "lp_query s = Some q" "lp_ended s = qi_finalQueryInfo q"
    using lp_run(1)[OF assms(3)] assms(1) by (simp_all add: lp_shows_def plan_responses_append taken_append)
  then show "\<not> lp_mounted s \<and> lp_query s = Some q" by simp
  show "one_series (lp_timeout s) (lp_requests s) True \<and> (\<exists>e. lp_kind e \<noteq> Quiet \<and> lp_exec isEmbedded e s \<noteq> None)" if "\<not> qi_finalQueryInfo q"
    using lp_run(2,3)[OF assms(3)] s that by (simp add: lp_polling_def)
qed

subsection \<open>What is drawn\<close>

text \<open>
  The drawings of a run, each with its layout and the query drawn: every answer is drawn, and every failure draws
  the query the page has once more, until an answer cannot be shown.
\<close>

fun drawings :: "bool \<Rightarrow> query_info option \<Rightarrow> lp_event list \<Rightarrow> (layout \<times> query_info) list" where
  "drawings isEmbedded shown [] = []"
| "drawings isEmbedded shown (PlanTimer i # es) = drawings isEmbedded shown es"
| "drawings isEmbedded shown (PlanQuery ly q # es) = (if presentable isEmbedded q then (ly, q) # drawings isEmbedded (Some q) es else [])"
| "drawings isEmbedded shown (PlanFailure ly # es) = (case shown of None \<Rightarrow> [] | Some q \<Rightarrow> [(ly, q)]) @ drawings isEmbedded shown es"

fun first_fails :: "lp_event list \<Rightarrow> bool" where
  "first_fails [] = False"
| "first_fails (PlanTimer i # es) = first_fails es"
| "first_fails (PlanQuery ly q # es) = False"
| "first_fails (PlanFailure ly # es) = True"

definition resized :: "canvas_size option \<Rightarrow> (layout \<times> query_info) list \<Rightarrow> canvas_size option" where
  "resized c ds = foldl (\<lambda>c (ly, q). Some (resize_canvas (qi_finalQueryInfo q) ly c)) c ds"

lemma resized_simps [simp]:
  "resized c [] = c" "resized c ((ly, q) # ds) = resized (Some (resize_canvas (qi_finalQueryInfo q) ly c)) ds"
  by (simp_all add: resized_def)

definition lp_drawn :: "live_plan \<Rightarrow> (layout \<times> query_info) list \<Rightarrow> bool \<Rightarrow> live_plan \<Rightarrow> bool" where
  "lp_drawn s ds selected s' \<longleftrightarrow> lp_graph s' = lp_graph s @ concat (map (\<lambda>(ly, q). the (plan_calls q)) ds)
    \<and> lp_canvas s' = (if selected then resized (lp_canvas s) ds else lp_canvas s)"

lemma unmounted_run:
  "exec_all (lp_exec isEmbedded) es s = Some s' \<Longrightarrow> \<not> lp_mounted s \<Longrightarrow> lp_graph s' = lp_graph s \<and> lp_canvas s' = lp_canvas s"
proof (induction es arbitrary: s)
  case (Cons e es)
  then obtain s1 where s1: "lp_exec isEmbedded e s = Some s1" "exec_all (lp_exec isEmbedded) es s1 = Some s'" by auto
  have "\<not> lp_mounted s1 \<and> lp_graph s1 = lp_graph s \<and> lp_canvas s1 = lp_canvas s"
    using s1(1) Cons.prems(2)
    by (cases e) (auto simp: lp_refreshLoop_def lp_onQuery_def lp_onFailure_def lp_setState_unmounted split: if_splits)
  then show ?case using Cons.IH[OF s1(2)] by simp
qed simp

text \<open>One event on a page that is up.\<close>

lemma drawing_timer:
  assumes "lp_exec isEmbedded (PlanTimer i) s = Some s1"
  shows "lp_graph s1 = lp_graph s" "lp_canvas s1 = lp_canvas s" "lp_svg s1 = lp_svg s" "lp_query s1 = lp_query s" "lp_ended s1 = lp_ended s"
    "lp_mounted s1 = lp_mounted s"
  using assms by (auto simp: lp_refreshLoop_def)

lemma drawing_failure:
  assumes "lp_exec isEmbedded (PlanFailure ly) s = Some s1" "lp_mounted s" "lp_wf isEmbedded s"
  shows "lp_mounted s1 \<and> lp_query s1 = lp_query s \<and> lp_ended s1 = lp_ended s
    \<and> lp_svg s1 = Some (case lp_svg s of None \<Rightarrow> lp_query s \<noteq> None | Some b \<Rightarrow> b)
    \<and> lp_canvas s1 = (if lp_query s \<noteq> None \<and> lp_svg s1 = Some True then Some (resize_canvas (lp_ended s) ly (lp_canvas s)) else lp_canvas s)
    \<and> lp_graph s1 = lp_graph s @ (case lp_query s of None \<Rightarrow> [] | Some q \<Rightarrow> the (plan_calls q))"
proof -
  let ?s = "s\<lparr> lp_requests := lp_requests s - 1 \<rparr>" and ?f = "\<lambda>s. s\<lparr> lp_initialized := True \<rparr>"
  have "s1 = lp_onFailure isEmbedded ly ?s" using assms(1) by (auto split: if_splits)
  then show ?thesis using lp_setState_shows[of ?s ?f isEmbedded ly] assms(2,3)
    by (cases "lp_svg s") (auto simp: lp_wf_def lp_onFailure_def same_but_drawing_def canvas_shown_def)
qed

lemma drawing_answer:
  assumes "lp_exec isEmbedded (PlanQuery ly q) s = Some s1" "lp_mounted s" "presentable isEmbedded q"
  shows "lp_mounted s1 \<and> lp_query s1 = Some q \<and> lp_ended s1 = qi_finalQueryInfo q
    \<and> lp_svg s1 = Some (case lp_svg s of None \<Rightarrow> True | Some b \<Rightarrow> b)
    \<and> lp_canvas s1 = (if lp_svg s1 = Some True then Some (resize_canvas (qi_finalQueryInfo q) ly (lp_canvas s)) else lp_canvas s)
    \<and> lp_graph s1 = lp_graph s @ the (plan_calls q)"
proof -
  let ?s = "s\<lparr> lp_requests := lp_requests s - 1 \<rparr>"
  let ?f = "\<lambda>s. s\<lparr> lp_query := Some q, lp_initialized := True, lp_ended := qi_finalQueryInfo q \<rparr>"
  have "s1 = lp_onQuery isEmbedded ly q ?s" using assms(1) by (auto split: if_splits)
  then show ?thesis using lp_setState_shows[of ?s ?f isEmbedded ly] assms(2,3)
    by (cases "lp_svg s") (auto simp: lp_onQuery_def same_but_drawing_def canvas_shown_def)
qed

lemma drawing_unshown:
  assumes "lp_exec isEmbedded (PlanQuery ly q) s = Some s1" "lp_mounted s" "\<not> presentable isEmbedded q"
  shows "\<not> lp_mounted s1 \<and> lp_graph s1 = lp_graph s \<and> lp_canvas s1 = lp_canvas s"
proof -
  let ?s = "s\<lparr> lp_requests := lp_requests s - 1 \<rparr>"
  let ?f = "\<lambda>s. s\<lparr> lp_query := Some q, lp_initialized := True, lp_ended := qi_finalQueryInfo q \<rparr>"
  have "plan_calls q = None" if "lp_renders isEmbedded (?f ?s)" using that assms(3) by (auto simp: lp_renders_iff presentable_def)
  then obtain u where "lp_setState isEmbedded ly ?f ?s = Inl u" "\<not> lp_mounted u" "lp_graph u = lp_graph s" "lp_canvas u = lp_canvas s"
    using assms(2) by (cases "lp_svg s"; cases "lp_renders isEmbedded (?f ?s)") (auto simp: lp_setState_def lp_updateD3Graph_def drawD3Graph_def)
  moreover have "s1 = lp_onQuery isEmbedded ly q ?s" using assms(1) by (auto split: if_splits)
  ultimately show ?thesis by (simp add: lp_onQuery_def lp_onFailure_def lp_setState_unmounted)
qed

text \<open>Whether the canvas is there to be drawn on: as it was when it was first looked for.\<close>

definition selected :: "live_plan \<Rightarrow> lp_event list \<Rightarrow> bool" where
  "selected s es \<longleftrightarrow> (case lp_svg s of Some b \<Rightarrow> b | None \<Rightarrow> \<not> first_fails es)"

definition lp_consistent :: "bool \<Rightarrow> live_plan \<Rightarrow> bool" where
  "lp_consistent isEmbedded s \<longleftrightarrow> lp_mounted s \<and> lp_wf isEmbedded s \<and> (lp_svg s = None \<longrightarrow> lp_query s = None)
    \<and> pred_option (\<lambda>q. lp_ended s = qi_finalQueryInfo q) (lp_query s)"

lemma drawing_run:
  "exec_all (lp_exec isEmbedded) es s = Some s' \<Longrightarrow> lp_consistent isEmbedded s \<Longrightarrow>
   lp_drawn s (drawings isEmbedded (lp_query s) es) (selected s es) s'"
proof (induction es arbitrary: s)
  case Nil
  then show ?case by (simp add: lp_drawn_def)
next
  case (Cons e es)
  then obtain s1 where s1: "lp_exec isEmbedded e s = Some s1" "exec_all (lp_exec isEmbedded) es s1 = Some s'" by auto
  note c = Cons.prems(2)[unfolded lp_consistent_def]
  have w: "lp_wf isEmbedded s1" using c s1(1) by (blast intro: lp_wf_step)
  show ?case
  proof (cases e)
    case (PlanTimer i)
    note t = drawing_timer[OF s1(1)[unfolded PlanTimer]]
    then have "lp_consistent isEmbedded s1" using c w by (simp add: lp_consistent_def)
    from Cons.IH[OF s1(2) this] show ?thesis by (cases "lp_svg s") (simp_all add: PlanTimer lp_drawn_def selected_def t)
  next
    case (PlanFailure ly)
    note t = drawing_failure[OF s1(1)[unfolded PlanFailure] conjunct1[OF c] conjunct1[OF conjunct2[OF c]]]
    have "lp_consistent isEmbedded s1" using c w t by (auto simp: lp_consistent_def)
    from Cons.IH[OF s1(2) this] show ?thesis using t c
      by (cases "lp_query s"; cases "lp_svg s") (auto simp: PlanFailure lp_drawn_def selected_def)
  next
    case (PlanQuery ly q)
    show ?thesis
    proof (cases "presentable isEmbedded q")
      case True
      note t = drawing_answer[OF s1(1)[unfolded PlanQuery] conjunct1[OF c] True]
      then have "lp_consistent isEmbedded s1" using w by (auto simp: lp_consistent_def)
      from Cons.IH[OF s1(2) this] show ?thesis using t True
        by (cases "lp_svg s") (auto simp: PlanQuery lp_drawn_def selected_def)
    next
      case False
      then show ?thesis using drawing_unshown[OF s1(1)[unfolded PlanQuery] conjunct1[OF c] False] unmounted_run[OF s1(2)]
        by (simp add: PlanQuery lp_drawn_def)
    qed
  qed
qed

text \<open>
  C28. What the live plan has drawn after any run of timers, answers and failures.  The graph has received the
  calls for every answer up to the first that cannot be shown, and for the query on the page once more at every
  failure.  The canvas is as these drawings resized it one after the other, each with the layout of its time.
  But when the first request failed, the canvas was looked for before it was on the page: it never gets a
  size, whatever the later answers are.
\<close>

theorem live_plan_drawing:
  assumes "exec_all (lp_exec isEmbedded) es LivePlan_mount = Some s" and ds: "ds = drawings isEmbedded None es"
  shows "lp_graph s = initializeGraph @ concat (map (\<lambda>(ly, q). the (plan_calls q)) ds)
    \<and> lp_canvas s = (if first_fails es then None else foldl (\<lambda>c (ly, q). Some (resize_canvas (qi_finalQueryInfo q) ly c)) None ds)"
proof -
  have m: "lp_query LivePlan_mount = None" "lp_svg LivePlan_mount = None" "lp_graph LivePlan_mount = initializeGraph" "lp_canvas LivePlan_mount = None"
    "lp_consistent isEmbedded LivePlan_mount"
    by (simp_all add: LivePlan_mount_def lp_refreshLoop_def LivePlan_init_def lp_consistent_def lp_wf_def)
  show ?thesis using drawing_run[OF assms(1) m(5)] unfolding lp_drawn_def selected_def resized_def m(1-4) ds by auto
qed

lemma example_drawing_runs:
  assumes "\<not> qi_finalQueryInfo q" "plan_calls q = Some calls"
  shows "\<exists>s. exec_all (lp_exec True) [PlanQuery ly q, PlanTimer 0, PlanFailure ly] LivePlan_mount = Some s"
    "\<exists>s. exec_all (lp_exec True) [PlanFailure ly, PlanTimer 0, PlanQuery ly q] LivePlan_mount = Some s"
  using assms
  by (simp_all add: LivePlan_mount_def LivePlan_init_def lp_refreshLoop_def lp_onQuery_def lp_onFailure_def lp_setState_def lp_renders_iff
      lp_updateD3Graph_def canvas_selected drawD3Graph_def lp_resetTimer_def no_timer_def setTimeout_def clearTimeout_def fireTimeout_def Let_def)

theorem live_plan_drawing_witness:
  "\<exists>s s' calls. plan_calls (example_query_info ''RUNNING'' (Some example_plan_stages) False) = Some calls
     \<and> exec_all (lp_exec True) [PlanQuery example_layout (example_query_info ''RUNNING'' (Some example_plan_stages) False), PlanTimer 0,
          PlanFailure example_layout] LivePlan_mount = Some s
     \<and> lp_graph s = initializeGraph @ calls @ calls \<and> lp_canvas s = Some \<lparr> cl_height = Fin 800, cl_width = Fin 400, cl_zoom = None \<rparr>
     \<and> exec_all (lp_exec True) [PlanFailure example_layout, PlanTimer 0,
          PlanQuery example_layout (example_query_info ''RUNNING'' (Some example_plan_stages) False)] LivePlan_mount = Some s'
     \<and> lp_graph s' = initializeGraph @ calls \<and> lp_canvas s' = None"
proof -
  let ?q = "example_query_info ''RUNNING'' (Some example_plan_stages) False" and ?l = example_layout
  let ?es = "[PlanQuery ?l ?q, PlanTimer 0, PlanFailure ?l]" and ?fs = "[PlanFailure ?l, PlanTimer 0, PlanQuery ?l ?q]"
  have o: "qi_outputStage ?q = Some example_plan_stages" by (simp add: example_query_info_def query.defs query_info.defs)
  obtain calls where c: "plan_calls ?q = Some calls" by (rule plan_calls_known[OF o conjunct1[OF example_plan_known] conjunct2[OF example_plan_known]])
  have p: "presentable True ?q" "\<not> qi_finalQueryInfo ?q" by (simp add: presentable_def c) (simp add: example_query_info_def query.defs query_info.defs)
  obtain s where s: "exec_all (lp_exec True) ?es LivePlan_mount = Some s" using example_drawing_runs(1)[OF p(2) c] by (rule exE)
  obtain s' where s': "exec_all (lp_exec True) ?fs LivePlan_mount = Some s'" using example_drawing_runs(2)[OF p(2) c] by (rule exE)
  have r: "resize_canvas False ?l (Some (resize_canvas False ?l None)) = \<lparr> cl_height = Fin 800, cl_width = Fin 400, cl_zoom = None \<rparr>" by code_simp
  have d: "drawings True None ?es = [(?l, ?q), (?l, ?q)]" "drawings True None ?fs = [(?l, ?q)]" by (simp_all add: p(1))
  note g = live_plan_drawing[OF s refl, unfolded d] live_plan_drawing[OF s' refl, unfolded d]
  have "lp_graph s = initializeGraph @ calls @ calls" "lp_canvas s = Some \<lparr> cl_height = Fin 800, cl_width = Fin 400, cl_zoom = None \<rparr>"
    "lp_graph s' = initializeGraph @ calls" "lp_canvas s' = None" using g by (simp_all add: c p(2) r)
  with c s s' show ?thesis by (intro exI[of _ s] exI[of _ s'] exI[of _ calls] conjI)
qed

text \<open>
  When the first answer is a query the page can show, the canvas is there; with the final information it
  takes the size of the container and the whole plan fits into it, but for one rounding.
\<close>

theorem final_plan_fits:
  assumes "exec_all (lp_exec isEmbedded) es LivePlan_mount = Some s" "lp_mounted s" "lp_svg s = Some True"
    and "lp_exec isEmbedded (PlanQuery ly q) s = Some s'" "presentable isEmbedded q" "qi_finalQueryInfo q"
    and "container_size (ly_cssWidth ly) = Fin w" "1 \<le> w" "w \<le> 2 ^ 40" "container_size (ly_cssHeight ly) = Fin h" "1 \<le> h" "h \<le> 2 ^ 40"
    and "js_add (ly_graphWidth ly) (Fin 100) = Fin gw" "1 \<le> gw" "gw \<le> 2 ^ 40" "js_add (ly_graphHeight ly) (Fin 100) = Fin gh" "1 \<le> gh" "gh \<le> 2 ^ 40"
  shows "\<exists>k t. lp_canvas s' = Some \<lparr> cl_height = Fin h, cl_width = Fin w, cl_zoom = Some ((Fin k, Fin 1), t, Fin k) \<rparr>
    \<and> 0 < k \<and> k * gw \<le> w * (1 + 1 / 2 ^ 53) \<and> k * gh \<le> h * (1 + 1 / 2 ^ 53)"
proof -
  let ?s = "s\<lparr> lp_requests := lp_requests s - 1 \<rparr>"
  let ?f = "\<lambda>s. s\<lparr> lp_query := Some q, lp_initialized := True, lp_ended := qi_finalQueryInfo q \<rparr>"
  have r: "s' = lp_onQuery isEmbedded ly q ?s" using assms(4) by (auto split: if_splits)
  obtain u where u: "lp_setState isEmbedded ly ?f ?s = Inr u" "lp_canvas u = Some (resize_canvas True ly (lp_canvas s))"
    using lp_setState_shows[of ?s ?f isEmbedded ly] assms(2,3,5,6) by auto
  then show ?thesis using canvas_layout_fits[OF assms(7-18)] r by (auto simp: lp_onQuery_def resize_canvas_def)
qed

end
