(* ===== verification/Quantities.thy ===== *)
theory Quantities
  imports Utils
begin

text \<open>
  The laws of the formatting and parsing functions of \<^verbatim>\<open>src/utils.js\<close>: the language the
  quantity pattern accepts, the value \<open>parseDataSize\<close> computes, the unit and the number the
  formatters choose, how far the printed number is from the formatted one, the identifiers and
  the short times.
\<close>

section \<open>Quantities: laws\<close>

text \<open>
  The language of the pattern: digits, an optional fraction, letters, with white space around
  the two groups.
\<close>

definition is_quantity :: "string \<Rightarrow> string \<Rightarrow> string \<Rightarrow> string \<Rightarrow> bool" where
  "is_quantity s ip fp u \<longleftrightarrow>
     (\<exists>w1 w2 w3. s = w1 @ ip @ (if fp = [] then [] else CHR ''.'' # fp) @ w2 @ u @ w3
        \<and> list_all is_ws w1 \<and> list_all is_ws w2 \<and> list_all is_ws w3
        \<and> ip \<noteq> [] \<and> list_all is_digit ip \<and> list_all is_digit fp
        \<and> u \<noteq> [] \<and> list_all is_alpha u)"

lemma list_all_takeWhile [simp]: "list_all P (takeWhile P xs)"
  by (auto simp: list_all_iff dest: set_takeWhileD)

lemma takeWhile_run:
  "list_all P xs \<Longrightarrow> (ys = [] \<or> \<not> P (hd ys)) \<Longrightarrow> takeWhile P (xs @ ys) = xs"
  by (cases ys) (auto simp: takeWhile_append list_all_iff)

lemma dropWhile_run:
  "list_all P xs \<Longrightarrow> (ys = [] \<or> \<not> P (hd ys)) \<Longrightarrow> dropWhile P (xs @ ys) = ys"
  by (cases ys) (auto simp: dropWhile_append list_all_iff)

lemma match_fraction_split:
  assumes "match_fraction s = (fp, t)"
  shows "s = (if fp = [] then [] else CHR ''.'' # fp) @ t \<and> list_all is_digit fp"
proof (cases s)
  case (Cons c r)
  then show ?thesis using assms takeWhile_dropWhile_id[of is_digit r]
    by (auto simp: match_fraction_def split: if_splits)
qed (use assms in \<open>simp add: match_fraction_def\<close>)

lemma match_quantity_sound:
  assumes "match_quantity s = Some (ip, fp, u)"
  shows "is_quantity s ip fp u"
proof -
  define s1 where "s1 = dropWhile is_ws s"
  obtain fp' s3 where m: "match_fraction (dropWhile is_digit s1) = (fp', s3)" by fastforce
  define s4 where "s4 = dropWhile is_ws s3"
  have r: "ip = takeWhile is_digit s1" "fp = fp'" "u = takeWhile is_alpha s4" "ip \<noteq> []" "u \<noteq> []"
    "list_all is_ws (dropWhile is_alpha s4)"
    using assms by (auto simp: match_quantity_def Let_def s1_def[symmetric] m s4_def[symmetric] split: if_splits)
  note f = match_fraction_split[OF m]
  have "s = takeWhile is_ws s @ s1" by (simp add: s1_def)
  also have "s1 = ip @ dropWhile is_digit s1" by (simp add: r(1))
  also have "dropWhile is_digit s1 = (if fp = [] then [] else CHR ''.'' # fp) @ s3" using f r(2) by simp
  also have "s3 = takeWhile is_ws s3 @ s4" by (simp add: s4_def)
  also have "s4 = u @ dropWhile is_alpha s4" by (simp add: r(3))
  finally have "s = takeWhile is_ws s @ ip @ (if fp = [] then [] else CHR ''.'' # fp) @
      takeWhile is_ws s3 @ u @ dropWhile is_alpha s4" by simp
  moreover have "list_all is_digit ip" "list_all is_alpha u" by (simp_all add: r(1,3))
  ultimately show ?thesis unfolding is_quantity_def using f r by (metis list_all_takeWhile)
qed

lemma dot_class: "\<not> is_ws (CHR ''.'')" "\<not> is_digit (CHR ''.'')" "\<not> is_alpha (CHR ''.'')"
  by (simp_all add: is_ws_def is_digit_def is_alpha_def is_upper_def)

lemma hd_ws_alpha:
  assumes "list_all is_ws w" "list_all is_alpha u" "u \<noteq> []"
  shows "\<not> is_digit (hd (w @ u @ v))" "hd (w @ u @ v) \<noteq> CHR ''.''"
proof -
  have "is_ws (hd (w @ u @ v)) \<or> is_alpha (hd (w @ u @ v))"
    using assms by (cases w; cases u) auto
  then show "\<not> is_digit (hd (w @ u @ v))" "hd (w @ u @ v) \<noteq> CHR ''.''"
    using ws_not_digit digit_not_alpha dot_class by (blast, metis)
qed

lemma match_fraction_join:
  assumes "list_all is_digit fp" "rest \<noteq> []" "\<not> is_digit (hd rest)" "hd rest \<noteq> CHR ''.''"
  shows "match_fraction ((if fp = [] then [] else CHR ''.'' # fp) @ rest) = (fp, rest)"
proof (cases "fp = []")
  case True
  then show ?thesis using assms by (cases rest) (auto simp: match_fraction_def)
next
  case False
  then show ?thesis using assms by (simp add: match_fraction_def takeWhile_run dropWhile_run)
qed

lemma match_quantity_complete:
  assumes "is_quantity s ip fp u"
  shows "match_quantity s = Some (ip, fp, u)"
proof -
  obtain w1 w2 w3 where
    s: "s = w1 @ ip @ (if fp = [] then [] else CHR ''.'' # fp) @ w2 @ u @ w3" and
    w: "list_all is_ws w1" "list_all is_ws w2" "list_all is_ws w3" and
    ip: "ip \<noteq> []" "list_all is_digit ip" and fp: "list_all is_digit fp" and
    u: "u \<noteq> []" "list_all is_alpha u"
    using assms unfolding is_quantity_def by blast
  define frac where "frac = (if fp = [] then [] else CHR ''.'' # fp)"
  define rest where "rest = w2 @ u @ w3"
  have hr: "rest \<noteq> []" "\<not> is_digit (hd rest)" "hd rest \<noteq> CHR ''.''"
    using hd_ws_alpha[OF w(2) u(2,1)] u(1) by (auto simp: rest_def)
  have s': "s = w1 @ (ip @ frac @ rest)" by (simp add: s frac_def rest_def)
  have "\<not> is_ws (hd (ip @ frac @ rest))" using ip ws_not_digit by (cases ip) auto
  then have d1: "dropWhile is_ws s = ip @ frac @ rest"
    unfolding s' using w(1) by (intro dropWhile_run) auto
  have nf: "\<not> is_digit (hd (frac @ rest))" using hr dot_class by (auto simp: frac_def)
  have t2: "takeWhile is_digit (ip @ frac @ rest) = ip" and d2: "dropWhile is_digit (ip @ frac @ rest) = frac @ rest"
    using ip(2) nf by (simp_all add: takeWhile_run dropWhile_run)
  have m: "match_fraction (frac @ rest) = (fp, rest)"
    unfolding frac_def using fp hr by (rule match_fraction_join)
  have "\<not> is_ws (hd (u @ w3))" using u ws_not_alpha by (cases u) auto
  then have d3: "dropWhile is_ws rest = u @ w3"
    unfolding rest_def using w(2) by (intro dropWhile_run) auto
  have "w3 = [] \<or> \<not> is_alpha (hd w3)" using w(3) ws_not_alpha by (cases w3) auto
  then have t4: "takeWhile is_alpha (u @ w3) = u" and d4: "dropWhile is_alpha (u @ w3) = w3"
    using u(2) by (simp_all add: takeWhile_run dropWhile_run)
  show ?thesis unfolding match_quantity_def Let_def d1 t2 d2 m
    by (simp add: d3 t4 d4 ip(1) u(1) w(3))
qed

lemma match_quantity_iff: "match_quantity s = Some (ip, fp, u) \<longleftrightarrow> is_quantity s ip fp u"
  using match_quantity_sound match_quantity_complete by blast

text \<open>The multiplier of a data size unit, as a power of two.\<close>

definition data_unit :: "string \<Rightarrow> nat option" where
  "data_unit u = map_of [(''B'', 0), (''kB'', 10), (''MB'', 20), (''GB'', 30), (''TB'', 40), (''PB'', 50)] u"

lemma parseDataSize_eq:
  "parseDataSize s =
    (case match_quantity s of None \<Rightarrow> JNull
     | Some (ip, fp, u) \<Rightarrow>
        (case data_unit u of None \<Rightarrow> JNull
         | Some 0 \<Rightarrow> JNum (parse_decimal ip fp)
         | Some k \<Rightarrow> JNum (js_mul (parse_decimal ip fp) (Fin (2 ^ k)))))"
  by (auto simp: parseDataSize_def data_unit_def Let_def split: option.split prod.split)

lemma dbl_scale: "dbl r \<Longrightarrow> dbl (r * 2 ^ j)"
  unfolding dbl_def
proof (elim exE conjE)
  fix m k
  assume r: "r = of_int m * 2 powi k" and m: "\<bar>m\<bar> \<le> 2 ^ 53" and k: "- 1074 \<le> k"
  have "(2::rat) powi (k + int j) = 2 powi k * 2 ^ j" by (subst power_int_add) auto
  then have "r * 2 ^ j = of_int m * 2 powi (k + int j)" by (simp add: r)
  then show "\<exists>m k. r * 2 ^ j = of_int m * 2 powi k \<and> \<bar>m\<bar> \<le> 2 ^ 53 \<and> - 1074 \<le> k"
    using m k by (intro exI[of _ m] exI[of _ "k + int j"]) auto
qed

lemma dbl_pow2 [simp]: "dbl (2 ^ n)"
  using dbl_scale[of 1 n] dbl_of_int[of 1] by simp

lemma decimal_val_nonneg: "list_all is_digit ip \<Longrightarrow> list_all is_digit fp \<Longrightarrow> 0 \<le> decimal_val ip fp"
  using digits_val_nonneg[of "ip @ fp"] by (simp add: decimal_val_def)

lemma fl_scale:
  assumes "0 \<le> d" "d \<le> 2 ^ N" "j \<le> 50" "N \<le> 900"
  shows "js_mul (fl d) (Fin (2 ^ j)) = Fin (rnd d * 2 ^ j)" "fl d = Fin (rnd d)"
proof -
  have r: "0 \<le> rnd d" "rnd d \<le> 2 ^ N" using assms rnd_nonneg[of d] rnd_le_dbl[of d "2 ^ N"] by auto
  have "(2::rat) ^ N < huge" using assms(4) by (intro power_less_huge) simp
  then have "\<bar>rnd d\<bar> < huge" using r by simp
  then show f: "fl d = Fin (rnd d)" by (simp add: fl_def Let_def abs_less_iff)
  have "rnd d * 2 ^ j \<le> 2 ^ N * 2 ^ j" using r by (intro mult_right_mono) auto
  also have "\<dots> = (2::rat) ^ (N + j)" by (simp only: power_add)
  also have "\<dots> < huge" using assms(3,4) by (intro power_less_huge) simp
  finally have "\<bar>rnd d * 2 ^ j\<bar> < huge" using r(1) by simp
  then show "js_mul (fl d) (Fin (2 ^ j)) = Fin (rnd d * 2 ^ j)"
    unfolding f js_mul.simps by (intro fl_dbl dbl_scale dbl_rnd)
qed

lemma data_unit_le: "data_unit u = Some k \<Longrightarrow> k \<le> 50"
  by (auto simp: data_unit_def split: if_splits)

lemma parseDataSize_value:
  assumes q: "is_quantity s ip fp u" and u: "data_unit u = Some k" and d: "decimal_val ip fp \<le> 2 ^ N" and N: "N \<le> 900"
  shows "parseDataSize s = JNum (Fin (rnd (decimal_val ip fp) * 2 ^ k))"
proof -
  have "0 \<le> decimal_val ip fp" using q by (auto simp: is_quantity_def intro: decimal_val_nonneg)
  note f = fl_scale[OF this d data_unit_le[OF u] N]
  have "match_quantity s = Some (ip, fp, u)" using q by (rule match_quantity_complete)
  then show ?thesis using u f by (cases k) (simp_all add: parseDataSize_eq parse_decimal_def)
qed

lemma parseDataSize_null:
  "parseDataSize s = JNull \<longleftrightarrow> \<not> (\<exists>ip fp u k. is_quantity s ip fp u \<and> data_unit u = Some k)"
proof -
  have "parseDataSize s = JNull \<longleftrightarrow> \<not> (\<exists>ip fp u k. match_quantity s = Some (ip, fp, u) \<and> data_unit u = Some k)"
    by (auto simp: parseDataSize_eq split: option.split prod.split nat.split)
  then show ?thesis by (simp add: match_quantity_iff)
qed

section \<open>Formatting: laws\<close>

lemma step_gt_no: "x \<le> k \<Longrightarrow> step_gt g k u' (JNum (Fin x), u) = (JNum (Fin x), u)"
  by (simp add: step_gt_def)

lemma step_gt_yes:
  assumes "is_double (Fin x)" "k < x" "1 \<le> k" "g = None \<or> g = Some u"
  shows "step_gt g k u' (JNum (Fin x), u) = (JNum (Fin (rnd (x / k))), u')"
    "is_double (Fin (rnd (x / k)))"
proof -
  have "\<bar>x / k\<bar> \<le> \<bar>x\<bar>" using assms(2,3) by (simp add: pos_divide_le_eq abs_mult)
  then have f: "fl (x / k) = Fin (rnd (x / k))" using assms(1) by (intro fl_shrink)
  then show "step_gt g k u' (JNum (Fin x), u) = (JNum (Fin (rnd (x / k))), u')"
    using assms by (auto simp: step_gt_def)
  show "is_double (Fin (rnd (x / k)))" using f is_double_fl[of "x / k"] by simp
qed

lemma rnd_div_ge_1: "k < x \<Longrightarrow> 0 < k \<Longrightarrow> 1 \<le> rnd (x / k)"
  using dbl_of_int[of 1] by (intro rnd_ge_dbl) auto

text \<open>One division by a thousand, as the hardware computes it.\<close>

definition kilo :: "rat \<Rightarrow> rat" where
  "kilo x = rnd (x / 1000)"

lemma kilo_step:
  assumes "is_double (Fin x)"
  shows "step_gt None 1000 u' (JNum (Fin x), u) =
           (if 1000 < x then (JNum (Fin (kilo x)), u') else (JNum (Fin x), u))"
    and "1000 < x \<Longrightarrow> is_double (Fin (kilo x)) \<and> 1 \<le> kilo x"
proof -
  show "step_gt None 1000 u' (JNum (Fin x), u) =
           (if 1000 < x then (JNum (Fin (kilo x)), u') else (JNum (Fin x), u))"
    using step_gt_yes(1)[OF assms, of 1000 None] step_gt_no[of x 1000 None] by (simp add: kilo_def)
  show "is_double (Fin (kilo x)) \<and> 1 \<le> kilo x" if "1000 < x"
    unfolding kilo_def using step_gt_yes(2)[OF assms that, of None] rnd_div_ge_1[OF that] by simp
qed

lemma kilo_stay:
  "x \<le> 1000 \<Longrightarrow> foldl (\<lambda>p u'. step_gt None 1000 u' p) (JNum (Fin x), u) us = (JNum (Fin x), u)"
  by (induction us) (simp_all add: step_gt_no)

lemma kilo_run:
  assumes "is_double (Fin x)"
  shows "\<exists>k \<le> length us.
    foldl (\<lambda>p u'. step_gt None 1000 u' p) (JNum (Fin x), u) us = (JNum (Fin ((kilo ^^ k) x)), (u # us) ! k)
    \<and> (k < length us \<longrightarrow> (kilo ^^ k) x \<le> 1000) \<and> (0 < k \<longrightarrow> 1 \<le> (kilo ^^ k) x)"
  using assms
proof (induction us arbitrary: x u)
  case Nil
  then show ?case by simp
next
  case (Cons v us)
  show ?case
  proof (cases "1000 < x")
    case True
    note kx = kilo_step(2)[OF Cons.prems True]
    obtain k where k: "k \<le> length us"
      "foldl (\<lambda>p u'. step_gt None 1000 u' p) (JNum (Fin (kilo x)), v) us = (JNum (Fin ((kilo ^^ k) (kilo x))), (v # us) ! k)"
      "k < length us \<longrightarrow> (kilo ^^ k) (kilo x) \<le> 1000" "0 < k \<longrightarrow> 1 \<le> (kilo ^^ k) (kilo x)"
      using Cons.IH[of "kilo x" v] kx by blast
    have "1 \<le> (kilo ^^ k) (kilo x)" using k(4) kx by (cases k) auto
    then show ?thesis using k True Cons.prems
      by (intro exI[of _ "Suc k"]) (simp add: kilo_step(1) funpow_swap1 del: is_double.simps)
  next
    case False
    then show ?thesis using Cons.prems
      by (intro exI[of _ 0]) (simp add: step_gt_no kilo_stay)
  qed
qed

lemma scaleCount_correct:
  assumes "is_double (Fin x)"
  shows "\<exists>k \<le> 5. scaleCount (JNum (Fin x)) = (JNum (Fin ((kilo ^^ k) x)), [[], ''K'', ''M'', ''B'', ''T'', ''Q''] ! k)
    \<and> (k < 5 \<longrightarrow> (kilo ^^ k) x \<le> 1000) \<and> (0 < k \<longrightarrow> 1 \<le> (kilo ^^ k) x)"
  using kilo_run[OF assms, of "[''K'', ''M'', ''B'', ''T'', ''Q'']" "[]"]
  unfolding scaleCount_def by (simp add: eval_nat_numeral)

text \<open>Dividing by 1024 is exact.\<close>

lemma dbl_div_1024:
  assumes "dbl x" "1024 \<le> x"
  shows "dbl (x / 1024)"
proof -
  obtain m k where x: "x = of_int m * 2 powi k" and m: "\<bar>m\<bar> \<le> 2 ^ 53" and k: "- 1074 \<le> k"
    using assms(1) unfolding dbl_def by blast
  have "(of_int m :: rat) \<le> of_int (2 ^ 53)" using m by (simp only: of_int_le_iff)
  then have "x \<le> 2 ^ 53 * 2 powi k" unfolding x by (intro mult_right_mono) auto
  then have "(2::rat) ^ 10 \<le> 2 ^ 53 * 2 powi k" using assms(2) by simp
  then have lo: "1 / 2 ^ 43 \<le> (2::rat) powi k" by (simp add: field_simps)
  have "- 43 \<le> k"
  proof (rule ccontr)
    assume "\<not> - 43 \<le> k"
    then have "(2::rat) powi k \<le> 2 powi (- 44)" by (intro power_int_increasing) auto
    also have "\<dots> = 1 / 2 ^ 44" by (simp add: power_int_minus)
    finally have "(2::rat) powi k \<le> 1 / 2 ^ 44" .
    with lo show False by simp
  qed
  moreover have "x / 1024 = of_int m * 2 powi (k - 10)" by (simp add: x power_int_diff)
  ultimately show ?thesis unfolding dbl_def using m by (intro exI[of _ m] exI[of _ "k - 10"]) auto
qed

lemma step_ge_1024:
  assumes "is_double (Fin x)"
  shows "step_ge 1024 u' (JNum (Fin x), u) =
      (if 1024 \<le> x then (JNum (Fin (x / 1024)), u') else (JNum (Fin x), u))"
    and "1024 \<le> x \<Longrightarrow> is_double (Fin (x / 1024))"
proof -
  have f: "fl (x / 1024) = Fin (x / 1024)" if "1024 \<le> x"
    using fl_shrink[OF assms, of "x / 1024"] rnd_dbl dbl_div_1024 that assms by auto
  show "step_ge 1024 u' (JNum (Fin x), u) =
      (if 1024 \<le> x then (JNum (Fin (x / 1024)), u') else (JNum (Fin x), u))"
    using f by (auto simp: step_ge_def js_le_def)
  show "1024 \<le> x \<Longrightarrow> is_double (Fin (x / 1024))" using f is_double_fl[of "x / 1024"] by simp
qed

lemma kibi_stay:
  "is_double (Fin x) \<Longrightarrow> x < 1024 \<Longrightarrow> foldl (\<lambda>p u'. step_ge 1024 u' p) (JNum (Fin x), u) us = (JNum (Fin x), u)"
  by (induction us) (simp_all add: step_ge_1024 del: is_double.simps)

lemma kibi_run:
  assumes "is_double (Fin x)"
  shows "\<exists>k \<le> length us.
    foldl (\<lambda>p u'. step_ge 1024 u' p) (JNum (Fin x), u) us = (JNum (Fin (x / 1024 ^ k)), (u # us) ! k)
    \<and> (k < length us \<longrightarrow> x / 1024 ^ k < 1024) \<and> (0 < k \<longrightarrow> 1 \<le> x / 1024 ^ k)"
  using assms
proof (induction us arbitrary: x u)
  case Nil
  then show ?case by simp
next
  case (Cons v us)
  show ?case
  proof (cases "1024 \<le> x")
    case True
    obtain k where k: "k \<le> length us"
      "foldl (\<lambda>p u'. step_ge 1024 u' p) (JNum (Fin (x / 1024)), v) us = (JNum (Fin (x / 1024 / 1024 ^ k)), (v # us) ! k)"
      "k < length us \<longrightarrow> x / 1024 / 1024 ^ k < 1024" "0 < k \<longrightarrow> 1 \<le> x / 1024 / 1024 ^ k"
      using Cons.IH[OF step_ge_1024(2)[OF Cons.prems True], of v] by blast
    have "1 \<le> x / 1024 / 1024 ^ k" using k(4) True by (cases k) auto
    then show ?thesis using k True Cons.prems
      by (intro exI[of _ "Suc k"]) (simp add: step_ge_1024(1) del: is_double.simps)
  next
    case False
    then show ?thesis using Cons.prems
      by (intro exI[of _ 0]) (simp add: step_ge_1024(1) kibi_stay del: is_double.simps)
  qed
qed

lemma scaleDataSize_correct:
  assumes "is_double (Fin x)"
  shows "\<exists>k \<le> 5. scaleDataSize minUnit (JNum (Fin x)) =
      (JNum (Fin (x / 1024 ^ k)), [[], ''K'', ''M'', ''G'', ''T'', ''P''] ! k @ minUnit)
    \<and> (k < 5 \<longrightarrow> x / 1024 ^ k < 1024) \<and> (0 < k \<longrightarrow> 1 \<le> x / 1024 ^ k)"
proof -
  define us where "us = map (\<lambda>p. p @ minUnit) [''K'', ''M'', ''G'', ''T'', ''P'']"
  have us: "length us = 5" by (simp add: us_def)
  obtain k where k: "k \<le> 5" "foldl (\<lambda>p u'. step_ge 1024 u' p) (JNum (Fin x), minUnit) us =
      (JNum (Fin (x / 1024 ^ k)), (minUnit # us) ! k)"
    "k < 5 \<longrightarrow> x / 1024 ^ k < 1024" "0 < k \<longrightarrow> 1 \<le> x / 1024 ^ k"
    using kibi_run[OF assms, of us minUnit] us by auto
  have "minUnit # us = map (\<lambda>p. p @ minUnit) [[], ''K'', ''M'', ''G'', ''T'', ''P'']" by (simp add: us_def)
  then have "(minUnit # us) ! k = [[], ''K'', ''M'', ''G'', ''T'', ''P''] ! k @ minUnit"
    using k(1) by (simp only:) (rule nth_map, simp)
  then show ?thesis using k by (intro exI[of _ k]) (simp add: scaleDataSize_def us_def)
qed

text \<open>The chain of guarded divisions of \<open>formatDuration\<close>, with the limits of its units.\<close>

fun duration_steps :: "string \<Rightarrow> (rat \<times> string) list \<Rightarrow> jv \<times> string \<Rightarrow> jv \<times> string" where
  "duration_steps u [] p = p"
| "duration_steps u ((k, u') # r) p = duration_steps u' r (step_gt (Some u) k u' p)"

fun duration_value :: "rat list \<Rightarrow> rat \<Rightarrow> rat" where
  "duration_value [] x = x"
| "duration_value (k # ks) x = duration_value ks (rnd (x / k))"

lemma duration_stay:
  "u \<notin> insert v (snd ` set r) \<Longrightarrow> duration_steps v r (y, u) = (y, u)"
  by (induction v r "(y, u)" rule: duration_steps.induct) (auto simp: step_gt_def)

lemma duration_run:
  assumes "is_double (Fin x)" "distinct (u # map snd r)" "\<forall>(k, _) \<in> set r. 1 \<le> k"
  shows "\<exists>j \<le> length r. duration_steps u r (JNum (Fin x), u) =
      (JNum (Fin (duration_value (take j (map fst r)) x)), (u # map snd r) ! j)
    \<and> (j < length r \<longrightarrow> duration_value (take j (map fst r)) x \<le> fst (r ! j))
    \<and> (0 < j \<longrightarrow> 1 \<le> duration_value (take j (map fst r)) x)"
  using assms
proof (induction r arbitrary: x u)
  case Nil
  then show ?case by simp
next
  case (Cons p r)
  obtain k u' where p: "p = (k, u')" by (cases p)
  then have k: "1 \<le> k" using Cons.prems by simp
  show ?case
  proof (cases "k < x")
    case True
    note st = step_gt_yes[OF Cons.prems(1) True k, of "Some u" u, simplified]
    obtain j where j: "j \<le> length r" "duration_steps u' r (JNum (Fin (rnd (x / k))), u') =
        (JNum (Fin (duration_value (take j (map fst r)) (rnd (x / k)))), (u' # map snd r) ! j)"
      "j < length r \<longrightarrow> duration_value (take j (map fst r)) (rnd (x / k)) \<le> fst (r ! j)"
      "0 < j \<longrightarrow> 1 \<le> duration_value (take j (map fst r)) (rnd (x / k))"
      using Cons.IH[of "rnd (x / k)" u'] Cons.prems st p by auto
    have "1 \<le> duration_value (take j (map fst r)) (rnd (x / k))"
      using j(4) rnd_div_ge_1[OF True] k by (cases j) auto
    then show ?thesis using j st p by (intro exI[of _ "Suc j"]) simp
  next
    case False
    then have "duration_steps u (p # r) (JNum (Fin x), u) = (JNum (Fin x), u)"
      using Cons.prems(2) p by (simp add: step_gt_no duration_stay)
    then show ?thesis using False p by (intro exI[of _ 0]) simp
  qed
qed

lemma scaleDuration_scaled:
  assumes "is_double (Fin x)"
  shows "\<exists>j \<le> 5. scaleDuration (JNum (Fin x)) =
      (JNum (Fin (duration_value (take j [1000, 60, 60, 24, 7]) x)), [''ms'', ''s'', ''m'', ''h'', ''d'', ''w''] ! j)
    \<and> (j < 5 \<longrightarrow> duration_value (take j [1000, 60, 60, 24, 7]) x \<le> [1000, 60, 60, 24, 7] ! j)
    \<and> (0 < j \<longrightarrow> 1 \<le> duration_value (take j [1000, 60, 60, 24, 7]) x)"
proof -
  let ?r = "[(1000, ''s''), (60, ''m''), (60, ''h''), (24, ''d''), (7 :: rat, ''w'')]"
  have g: "step_gt None 1000 ''s'' (y, ''ms'') = step_gt (Some ''ms'') 1000 ''s'' (y, ''ms'')" for y
    by (simp add: step_gt_def)
  have e: "scaleDuration (JNum (Fin x)) = duration_steps ''ms'' ?r (JNum (Fin x), ''ms'')"
    by (simp add: scaleDuration_def g)
  obtain j where j: "j \<le> length ?r" "duration_steps ''ms'' ?r (JNum (Fin x), ''ms'') =
      (JNum (Fin (duration_value (take j (map fst ?r)) x)), (''ms'' # map snd ?r) ! j)"
    "j < length ?r \<longrightarrow> duration_value (take j (map fst ?r)) x \<le> fst (?r ! j)"
    "0 < j \<longrightarrow> 1 \<le> duration_value (take j (map fst ?r)) x"
    using duration_run[OF assms, of "''ms''" ?r] by auto
  have "fst (?r ! j) = [1000, 60, 60, 24, 7] ! j" if "j < 5"
    using nth_map[of j ?r fst] that by simp
  with j show ?thesis unfolding e by (intro exI[of _ j]) simp
qed

text \<open>The text of a non-negative number: integer digits and, after a point, fraction digits.\<close>

definition decimal_text :: "string \<Rightarrow> string \<Rightarrow> string" where
  "decimal_text ip fp = ip @ (if fp = [] then [] else CHR ''.'' # fp)"

lemma digits_val_zeros: "digits_val (replicate n (CHR ''0'') @ m) = digits_val m"
  by (induction n) (simp_all add: digits_val_def digit_val_def)

lemma insert_point_split:
  assumes "list_all is_digit m" "m \<noteq> []"
  shows "\<exists>ip fp. insert_point f m = decimal_text ip fp \<and> ip \<noteq> [] \<and> list_all is_digit ip \<and> list_all is_digit fp
    \<and> length fp = f \<and> digits_val (ip @ fp) = digits_val m"
proof (cases f)
  case 0
  then show ?thesis using assms
    by (intro exI[of _ m] exI[of _ "[]"]) (simp add: insert_point_def decimal_text_def)
next
  case (Suc g)
  define p where "p = replicate (Suc f - length m) (CHR ''0'') @ m"
  have l: "f < length p" by (simp add: p_def)
  have d: "list_all is_digit p" using assms(1) by (auto simp: p_def list_all_iff is_digit_def)
  then have "list_all is_digit (take (length p - f) p)" "list_all is_digit (drop (length p - f) p)"
    by (auto simp: list_all_iff dest: in_set_takeD in_set_dropD)
  moreover have "digits_val p = digits_val m" unfolding p_def by (rule digits_val_zeros)
  moreover have "drop (length p - f) p \<noteq> []" using l Suc by simp
  moreover have "take (length p - f) p \<noteq> []" using l by auto
  moreover have "insert_point f m = take (length p - f) p @ ''.'' @ drop (length p - f) p"
    using Suc unfolding insert_point_def Let_def p_def by simp
  moreover have "length (drop (length p - f) p) = f" using l by simp
  ultimately show ?thesis
    by (intro exI[of _ "take (length p - f) p"] exI[of _ "drop (length p - f) p"])
      (simp only: decimal_text_def append_take_drop_id if_False append_Cons append_Nil simp_thms)
qed

lemma floor_half_error: "\<bar>(of_int \<lfloor>y + 1/2\<rfloor> :: rat) - y\<bar> \<le> 1/2"
  by linarith

lemma to_fixed_fin_error:
  assumes "0 \<le> x"
  shows "\<exists>ip fp. to_fixed_fin f x = decimal_text ip fp \<and> ip \<noteq> [] \<and> list_all is_digit ip \<and> list_all is_digit fp
    \<and> length fp = f \<and> \<bar>decimal_val ip fp - x\<bar> \<le> 1 / (2 * 10 ^ f)"
proof -
  define n where "n = fixed_digits f x"
  have n0: "0 \<le> n" using assms by (simp add: n_def fixed_digits_def)
  obtain ip fp where i: "insert_point f (show_nat n) = decimal_text ip fp" "ip \<noteq> []" "list_all is_digit ip"
    "list_all is_digit fp" "length fp = f" "digits_val (ip @ fp) = n"
    using insert_point_split[of "show_nat n" f] show_nat_digits[OF n0] digits_val_show_nat[OF n0] by auto
  have "\<bar>of_int n - x * 10 ^ f\<bar> \<le> 1/2" unfolding n_def fixed_digits_def by (rule floor_half_error)
  moreover have "decimal_val ip fp - x = (of_int n - x * 10 ^ f) / 10 ^ f"
    using i by (simp add: decimal_val_def diff_divide_distrib)
  ultimately have "\<bar>decimal_val ip fp - x\<bar> \<le> 1 / 2 / 10 ^ f"
    by (simp only: abs_divide) (intro divide_mono; simp)
  then show ?thesis using i assms unfolding to_fixed_fin_def
    by (intro exI[of _ ip] exI[of _ fp]) (simp flip: n_def)
qed

definition precision_digits :: "rat \<Rightarrow> nat" where
  "precision_digits x = (if x < 10 then 2 else if x < 100 then 1 else 0)"

lemma precisionRound_error:
  assumes "0 \<le> x" "x \<le> 2 ^ 52"
  shows "\<exists>ip fp. precisionRound (JNum (Fin x)) = Some (decimal_text ip fp) \<and> ip \<noteq> [] \<and> list_all is_digit ip
    \<and> list_all is_digit fp \<and> length fp = precision_digits x
    \<and> \<bar>decimal_val ip fp - x\<bar> \<le> 1 / (2 * 10 ^ precision_digits x)"
proof (cases "x < 100")
  case True
  then have "precisionRound (JNum (Fin x)) = Some (to_fixed_fin (precision_digits x) x)"
    using assms by (simp add: precisionRound_def precision_digits_def)
  then show ?thesis using to_fixed_fin_error[OF assms(1), of "precision_digits x"] by auto
next
  case False
  define n where "n = \<lfloor>x + 1/2\<rfloor>"
  have n: "0 \<le> n" "n \<le> 2 ^ 53" using assms by (auto simp: n_def floor_le_iff)
  have "precisionRound (JNum (Fin x)) = Some (num_to_string (num_int n))"
    using False by (simp add: precisionRound_def n_def)
  also have "\<dots> = Some (decimal_text (show_nat n) [])"
    using num_to_string_int[of n] n by (simp add: show_int_def decimal_text_def)
  finally show ?thesis using False n floor_half_error[of x]
    by (intro exI[of _ "show_nat n"] exI[of _ "[]"])
      (simp add: precision_digits_def show_nat_digits decimal_val_def digits_val_show_nat n_def)
qed

text \<open>The relative error of rounding a number of at least one half.\<close>

lemma rnd_relative_error:
  assumes "1/2 \<le> x"
  shows "\<bar>rnd x - x\<bar> \<le> x / 2 ^ 53"
proof -
  have b: "2 powi (ilog2 x) \<le> x" using ilog2_bounds(1)[of x] assms by simp
  have "- 1 \<le> ilog2 x" using ilog2_ge[of x "- 1"] assms by (simp add: power_int_minus)
  then have u: "uexp x = ilog2 x - 52" using assms by (simp add: uexp_def)
  have "(2::rat) powi (ilog2 x - 52) = 2 powi (ilog2 x) / 2 ^ 52" by (simp add: power_int_diff)
  then have "2 powi (uexp x) / 2 \<le> x / 2 ^ 53" using b u by simp
  then show ?thesis using rnd_error[of x] by linarith
qed

text \<open>Three significant digits: the printed number is within half a percent of the number.\<close>

lemma precision_relative:
  assumes "1 \<le> x" "\<bar>d - x\<bar> \<le> 1 / (2 * 10 ^ precision_digits x)"
  shows "\<bar>d - x\<bar> \<le> x / 200"
  using assms by (auto simp: precision_digits_def split: if_splits)

lemma decimal_relative:
  assumes "1 \<le> x" "\<bar>d - x\<bar> \<le> x / 200"
  shows "\<bar>rnd d - x\<bar> \<le> x / 199"
proof -
  have d: "1/2 \<le> d" "d \<le> 2 * x" using assms unfolding abs_le_iff by linarith+
  then have "\<bar>rnd d - d\<bar> \<le> d / 2 ^ 53" by (intro rnd_relative_error)
  moreover have "d / 2 ^ 53 \<le> x / 2 ^ 52" using d by simp
  moreover have "x / 2 ^ 52 \<le> x / 100000" using assms by (intro divide_left_mono) auto
  ultimately show ?thesis using assms by linarith
qed

text \<open>The unit letters of the data sizes that \<open>parseDataSize\<close> reads back.\<close>

lemma is_quantity_text:
  assumes "ip \<noteq> []" "list_all is_digit ip" "list_all is_digit fp" "u \<noteq> []" "list_all is_alpha u"
  shows "is_quantity (decimal_text ip fp @ u) ip fp u"
  unfolding is_quantity_def decimal_text_def using assms
  by (intro exI[of _ "[]"]) auto

lemma formatDataSize_text:
  assumes "is_double (Fin x)" "0 < x" "x \<le> 2 ^ 102"
  shows "\<exists>k ip fp. k \<le> 5 \<and> formatDataSize (JNum (Fin x)) =
      Some (decimal_text ip fp @ [''B'', ''KB'', ''MB'', ''GB'', ''TB'', ''PB''] ! k)
    \<and> ip \<noteq> [] \<and> list_all is_digit ip \<and> list_all is_digit fp
    \<and> \<bar>decimal_val ip fp - x / 1024 ^ k\<bar> \<le> 1 / (2 * 10 ^ precision_digits (x / 1024 ^ k))
    \<and> (k < 5 \<longrightarrow> x / 1024 ^ k < 1024) \<and> (0 < k \<longrightarrow> 1 \<le> x / 1024 ^ k)"
proof -
  obtain k where k: "k \<le> 5" "scaleDataSize ''B'' (JNum (Fin x)) =
      (JNum (Fin (x / 1024 ^ k)), [[], ''K'', ''M'', ''G'', ''T'', ''P''] ! k @ ''B'')"
    "k < 5 \<longrightarrow> x / 1024 ^ k < 1024" "0 < k \<longrightarrow> 1 \<le> x / 1024 ^ k"
    using scaleDataSize_correct[OF assms(1), of "''B''"] by (elim exE conjE) (rule that)
  have "x / 1024 ^ k \<le> 2 ^ 52"
  proof (cases "k < 5")
    case True
    then have "x / 1024 ^ k < 1024" using k(3) by blast
    then show ?thesis by simp
  next
    case False
    then have "k = 5" using k(1) by simp
    then show ?thesis using assms(3) by simp
  qed
  then obtain ip fp where p: "precisionRound (JNum (Fin (x / 1024 ^ k))) = Some (decimal_text ip fp)"
    "ip \<noteq> []" "list_all is_digit ip" "list_all is_digit fp"
    "\<bar>decimal_val ip fp - x / 1024 ^ k\<bar> \<le> 1 / (2 * 10 ^ precision_digits (x / 1024 ^ k))"
    using precisionRound_error[of "x / 1024 ^ k"] assms(2) by auto
  have u: "[''B'', ''KB'', ''MB'', ''GB'', ''TB'', ''PB''] ! k = [[], ''K'', ''M'', ''G'', ''T'', ''P''] ! k @ ''B''"
    using nth_map[of k "[[], ''K'', ''M'', ''G'', ''T'', ''P'']" "\<lambda>p. p @ ''B''"] k(1) by simp
  have "formatDataSize (JNum (Fin x)) = Some (decimal_text ip fp @ [[], ''K'', ''M'', ''G'', ''T'', ''P''] ! k @ ''B'')"
    using assms(2) k(2) p(1) by (simp add: formatDataSize_def formatDataSizeMinUnit_def js_eq_def)
  with k p u show ?thesis
    by (intro exI[of _ k] exI[of _ ip] exI[of _ fp]) (simp only: simp_thms)
qed

text \<open>The number printed, scaled back, is near the one given, and within the range \<open>parseDataSize_value\<close> needs.\<close>

lemma scaled_back:
  assumes "1 \<le> x" "x \<le> 2 ^ 102" "1 \<le> x / 1024 ^ k" and rel: "\<bar>decimal_val ip fp - x / 1024 ^ k\<bar> \<le> x / 1024 ^ k / 200"
  shows "decimal_val ip fp \<le> 2 ^ 103" "\<bar>rnd (decimal_val ip fp) * 1024 ^ k - x\<bar> \<le> x / 199"
proof -
  have "1 * x \<le> 1024 ^ k * x" using assms(1) by (intro mult_right_mono) auto
  then have "x / 1024 ^ k \<le> x" by (simp add: pos_divide_le_eq mult.commute)
  moreover have "d \<le> 2 * x" if "\<bar>d - v\<bar> \<le> v / 200" "v \<le> x" for d v
    using that assms(1) unfolding abs_le_iff by linarith
  ultimately have "decimal_val ip fp \<le> 2 * x" using rel by blast
  then show "decimal_val ip fp \<le> 2 ^ 103" using assms(2) by simp
  have "\<bar>rnd (decimal_val ip fp) - x / 1024 ^ k\<bar> * 1024 ^ k \<le> x / 1024 ^ k / 199 * 1024 ^ k"
    using decimal_relative[OF assms(3) rel] by (intro mult_right_mono) auto
  moreover have "\<bar>rnd (decimal_val ip fp) - x / 1024 ^ k\<bar> * 1024 ^ k = \<bar>rnd (decimal_val ip fp) * 1024 ^ k - x\<bar>"
    using abs_mult[of "rnd (decimal_val ip fp) - x / 1024 ^ k" "1024 ^ k"] by (simp add: left_diff_distrib)
  ultimately show "\<bar>rnd (decimal_val ip fp) * 1024 ^ k - x\<bar> \<le> x / 199" by simp
qed

text \<open>
  C27. Data sizes survive being printed and read back: for a size of at least one byte,
  \<open>formatDataSize\<close> returns a text that \<open>parseDataSize\<close> reads as a size within about half a
  percent of it.  The exception are the sizes printed in \<open>KB\<close>, a unit that \<open>parseDataSize\<close>
  does not know (it reads \<open>kB\<close>): for exactly those the result is \<open>null\<close>.
\<close>

theorem parse_formatDataSize:
  assumes x: "is_double (Fin x)" "1 \<le> x" "x \<le> 2 ^ 102"
  shows "\<exists>t. formatDataSize (JNum (Fin x)) = Some t \<and>
    (if 1024 \<le> x \<and> x < 1024 ^ 2 then parseDataSize t = JNull
     else \<exists>y. parseDataSize t = JNum (Fin y) \<and> \<bar>y - x\<bar> \<le> x / 199)"
proof -
  let ?U = "[''B'', ''KB'', ''MB'', ''GB'', ''TB'', ''PB'']"
  obtain k ip fp where k: "k \<le> 5" and t: "formatDataSize (JNum (Fin x)) = Some (decimal_text ip fp @ ?U ! k)"
    and d: "ip \<noteq> []" "list_all is_digit ip" "list_all is_digit fp"
    and e: "\<bar>decimal_val ip fp - x / 1024 ^ k\<bar> \<le> 1 / (2 * 10 ^ precision_digits (x / 1024 ^ k))"
    and b: "k < 5 \<longrightarrow> x / 1024 ^ k < 1024" "0 < k \<longrightarrow> 1 \<le> x / 1024 ^ k"
    using formatDataSize_text[OF x(1) less_le_trans[OF zero_less_one x(2)] x(3)]
    by (elim exE conjE) (rule that)
  consider "k = 0" | "k = 1" | "k = 2" | "k = 3" | "k = 4" | "k = 5" using k by linarith
  note kcases = this
  have alpha: "?U ! k \<noteq> []" "list_all is_alpha (?U ! k)"
    using kcases by (cases; simp add: is_alpha_def is_upper_def)+
  note q = is_quantity_text[OF d alpha]
  have one: "1 \<le> x / 1024 ^ k" using b(2) x(2) by (cases "k = 0") auto
  show ?thesis
  proof (cases "k = 1")
    case True
    then have "1024 \<le> x \<and> x < 1024 ^ 2" using b one by simp
    moreover have "parseDataSize (decimal_text ip fp @ ''KB'') = JNull"
      using match_quantity_complete[OF q] True by (simp add: parseDataSize_eq data_unit_def)
    ultimately show ?thesis using t True by simp
  next
    case False
    have nk: "\<not> (1024 \<le> x \<and> x < 1024 ^ 2)"
      using kcases b one False by cases (simp_all add: field_simps)
    have u: "data_unit (?U ! k) = Some (10 * k)"
      using kcases False by cases (simp_all add: data_unit_def)
    note sb = scaled_back[OF x(2,3) one precision_relative[OF one e]]
    have "parseDataSize (decimal_text ip fp @ ?U ! k) = JNum (Fin (rnd (decimal_val ip fp) * 2 ^ (10 * k)))"
      by (rule parseDataSize_value[OF q u sb(1)]) simp
    then show ?thesis using t nk sb(2) by (simp add: power_mult)
  qed
qed

theorem parse_formatDataSize_witness:
  "is_double (Fin 123456789) \<and> (\<exists>t y. formatDataSize (JNum (Fin 123456789)) = Some t
     \<and> parseDataSize t = JNum (Fin y) \<and> \<bar>y - 123456789\<bar> \<le> 123456789 / 199)"
proof
  show d: "is_double (Fin 123456789)" by code_simp
  show "\<exists>t y. formatDataSize (JNum (Fin 123456789)) = Some t
     \<and> parseDataSize t = JNum (Fin y) \<and> \<bar>y - 123456789\<bar> \<le> 123456789 / 199"
    using parse_formatDataSize[OF d] by simp
qed

text \<open>
  C33. \<open>formatDuration\<close> picks the unit by the limits 1000 ms, 60 s, 60 m, 24 h and 7 d: the number it
  prints is the duration divided through the units below (each division rounded to a double), it is
  at most the limit of its unit, and at least one unless the unit is milliseconds.
\<close>

theorem formatDuration_unit:
  assumes "is_double (Fin x)"
  shows "\<exists>j \<le> 5. formatDuration (JNum (Fin x)) =
      map_option (\<lambda>t. t @ [''ms'', ''s'', ''m'', ''h'', ''d'', ''w''] ! j)
        (precisionRound (JNum (Fin (duration_value (take j [1000, 60, 60, 24, 7]) x))))
    \<and> (j < 5 \<longrightarrow> duration_value (take j [1000, 60, 60, 24, 7]) x \<le> [1000, 60, 60, 24, 7] ! j)
    \<and> (0 < j \<longrightarrow> 1 \<le> duration_value (take j [1000, 60, 60, 24, 7]) x)"
proof -
  obtain j where j: "j \<le> 5" "scaleDuration (JNum (Fin x)) =
      (JNum (Fin (duration_value (take j [1000, 60, 60, 24, 7]) x)), [''ms'', ''s'', ''m'', ''h'', ''d'', ''w''] ! j)"
    "j < 5 \<longrightarrow> duration_value (take j [1000, 60, 60, 24, 7]) x \<le> [1000, 60, 60, 24, 7] ! j"
    "0 < j \<longrightarrow> 1 \<le> duration_value (take j [1000, 60, 60, 24, 7]) x"
    using scaleDuration_scaled[OF assms] by (elim exE conjE) (rule that)
  have "formatDuration (JNum (Fin x)) = map_option (\<lambda>t. t @ [''ms'', ''s'', ''m'', ''h'', ''d'', ''w''] ! j)
        (precisionRound (JNum (Fin (duration_value (take j [1000, 60, 60, 24, 7]) x))))"
    unfolding formatDuration_def j(2) by (simp only: Let_def prod.case map_conv_bind_option comp_def)
  with j show ?thesis by (intro exI[of _ j]) (simp only: simp_thms)
qed

theorem formatDuration_unit_witness:
  "is_double (Fin 5400000) \<and> formatDuration (JNum (Fin 5400000)) = Some ''1.50h'' \<and> (\<exists>j \<le> 5. formatDuration (JNum (Fin 5400000)) =
      map_option (\<lambda>t. t @ [''ms'', ''s'', ''m'', ''h'', ''d'', ''w''] ! j)
        (precisionRound (JNum (Fin (duration_value (take j [1000, 60, 60, 24, 7]) 5400000)))))"
proof (intro conjI)
  show d: "is_double (Fin 5400000)" by code_simp
  show "formatDuration (JNum (Fin 5400000)) = Some ''1.50h''" by code_simp
  show "\<exists>j \<le> 5. formatDuration (JNum (Fin 5400000)) =
      map_option (\<lambda>t. t @ [''ms'', ''s'', ''m'', ''h'', ''d'', ''w''] ! j)
        (precisionRound (JNum (Fin (duration_value (take j [1000, 60, 60, 24, 7]) 5400000))))"
    using formatDuration_unit[OF d] by (elim exE conjE) (rule exI, rule conjI)
qed

section \<open>Identifiers and parameters: laws\<close>

lemma index_of_first: "c \<notin> set p \<Longrightarrow> index_of [c] (p @ c # r) = int (length p)"
  by (induction p) (auto simp: Let_def)

lemma after_dot: "CHR ''.'' \<notin> set p \<Longrightarrow> getTaskIdSuffix (p @ CHR ''.'' # r) = r"
  using str_slice_to_end[of "int (length p) + 1" "p @ CHR ''.'' # r"]
  by (simp add: getTaskIdSuffix_def index_of_first nat_add_distrib)

lemma show_nat_no_dot: "0 \<le> n \<Longrightarrow> CHR ''.'' \<notin> set (show_nat n)"
  using show_nat_digits[of n] dot_class by (auto simp: list_all_iff)

lemma getStageNumber_suffix: "getStageNumber s = parse_int (getTaskIdSuffix s)"
  by (simp add: getStageNumber_def getTaskIdSuffix_def)

lemma stage_task_numbers:
  assumes "CHR ''.'' \<notin> set q" "0 \<le> s" "s \<le> 2 ^ 53" "0 \<le> t" "t \<le> 2 ^ 53"
  shows "getStageNumber (q @ ''.'' @ show_nat s) = num_int s"
    "getStageNumber (q @ ''.'' @ show_nat s @ ''.'' @ show_nat t) = num_int s"
    "getTaskIdSuffix (q @ ''.'' @ show_nat s @ ''.'' @ show_nat t) = show_nat s @ ''.'' @ show_nat t"
    "getTaskNumber (q @ ''.'' @ show_nat s @ ''.'' @ show_nat t) = num_int t"
proof -
  note d = after_dot[OF assms(1)] after_dot[OF show_nat_no_dot[OF assms(2)]]
  have "parse_int (show_nat s @ CHR ''.'' # show_nat t) = num_int s"
    using parse_int_prefix[of "show_nat s" "CHR ''.'' # show_nat t"] show_nat_digits[OF assms(2)] assms
    by (simp add: digits_val_show_nat fl_of_int dot_class)
  then show "getStageNumber (q @ ''.'' @ show_nat s) = num_int s"
    "getStageNumber (q @ ''.'' @ show_nat s @ ''.'' @ show_nat t) = num_int s"
    "getTaskIdSuffix (q @ ''.'' @ show_nat s @ ''.'' @ show_nat t) = show_nat s @ ''.'' @ show_nat t"
    "getTaskNumber (q @ ''.'' @ show_nat s @ ''.'' @ show_nat t) = num_int t"
    using d parse_int_show_nat[OF assms(2,3)] parse_int_show_nat[OF assms(4,5)]
    by (simp_all add: getStageNumber_suffix getTaskNumber_def)
qed

lemma getFirstParameter_first:
  assumes "CHR ''&'' \<notin> set p"
  shows "getFirstParameter (CHR ''?'' # p @ CHR ''&'' # r) = p" "getFirstParameter (CHR ''?'' # p) = p"
proof -
  show "getFirstParameter (CHR ''?'' # p @ CHR ''&'' # r) = p"
    using assms by (simp add: getFirstParameter_def Let_def substring_from_nonneg index_of_first substring_0)
  show "getFirstParameter (CHR ''?'' # p) = p"
    using assms index_of_char[of "CHR ''&''" p] by (simp add: getFirstParameter_def Let_def substring_from_nonneg)
qed

lemma truncateString_bounds:
  assumes "0 \<le> n"
  shows "length (truncateString s n) \<le> max (length s) (nat n + 3)" "length (truncateString s n) \<le> nat n + 3"
    "truncateString s n = (if length s \<le> nat n then s else take (nat n) s @ ''...'')"
  using assms by (auto simp: truncateString_def substring_0 nat_le_iff)

section \<open>Dates: laws\<close>

lemma formatShortTime_valid:
  assumes "0 \<le> d_hours d" "d_hours d < 24" "0 \<le> d_minutes d" "d_minutes d < 60" "d \<noteq> InvalidDate"
  shows "formatShortTime d = show_nat (if d_hours d mod 12 = 0 then 12 else d_hours d mod 12) @ '':'' @
      (if d_minutes d < 10 then ''0'' else []) @ show_nat (d_minutes d) @ (if 12 \<le> d_hours d then ''pm'' else ''am'')"
proof -
  have r: "js_rem (num_int h) (Fin 12) = num_int (h mod 12)" if "0 \<le> h" for h
  proof -
    have "\<lfloor>(of_int h :: rat) / 12\<rfloor> = h div 12" using floor_divide_of_int_eq[of h 12] by simp
    moreover have "h - 12 * (h div 12) = h mod 12" by (simp add: minus_mult_div_eq_mod)
    then have "(of_int h :: rat) - 12 * of_int (h div 12) = of_int (h mod 12)" by (metis of_int_diff of_int_mult of_int_numeral)
    ultimately show ?thesis using that by simp
  qed
  have m: "0 \<le> d_hours d mod 12" "d_hours d mod 12 < 12" by simp_all
  have s: "show_fin (of_int n) = show_nat n" if "0 \<le> n" "n \<le> 60" for n
    using that num_to_string_int[of n] by (simp add: show_int_def)
  obtain y mo da h n where d: "d = Date y mo da h n" using assms(5) by (cases d) auto
  define k where "k = h mod 12"
  have k: "0 \<le> k" "k < 12" using m d by (simp_all add: k_def)
  have rh: "js_rem (num_int h) (Fin 12) = num_int k" using r[of h] assms(1) d by (simp add: k_def)
  have "formatShortTime d = num_to_string (if truthy_num (num_int k) then num_int k else Fin 12) @ '':'' @
      (if n < 10 then ''0'' else []) @ num_to_string (num_int n) @ (if 12 \<le> h then ''pm'' else ''am'')"
    unfolding formatShortTime_def Let_def date_get_def d by (simp only: js_date.case js_date.sel rh) (simp add: js_le_def)
  also have "num_to_string (if truthy_num (num_int k) then num_int k else Fin 12) =
      show_nat (if k = 0 then 12 else k)"
    using s[of k] s[of 12] k by (simp add: truthy_num_def)
  finally show ?thesis using s[of n] assms(3,4) d by (simp add: k_def)
qed

text \<open>
  Short times are unambiguous: two valid dates printed alike have the same hour of the day and
  the same minute.
\<close>

theorem formatShortTime_inj:
  assumes "0 \<le> d_hours d" "d_hours d < 24" "0 \<le> d_minutes d" "d_minutes d < 60" "d \<noteq> InvalidDate"
    and "0 \<le> d_hours e" "d_hours e < 24" "0 \<le> d_minutes e" "d_minutes e < 60" "e \<noteq> InvalidDate"
    and eq: "formatShortTime d = formatShortTime e"
  shows "d_hours d = d_hours e \<and> d_minutes d = d_minutes e"
proof -
  define h where "h = (\<lambda>n::int. if n mod 12 = 0 then 12 else n mod 12)"
  define m where "m = (\<lambda>n::int. (if n < 10 then ''0'' else []) @ show_nat n)"
  define a where "a = (\<lambda>n::int. if 12 \<le> n then ''pm'' else ''am'')"
  have f: "formatShortTime x = show_nat (h (d_hours x)) @ CHR '':'' # m (d_minutes x) @ a (d_hours x)"
    if "0 \<le> d_hours x" "d_hours x < 24" "0 \<le> d_minutes x" "d_minutes x < 60" "x \<noteq> InvalidDate" for x
    using formatShortTime_valid[OF that] by (simp add: h_def m_def a_def)
  have h0: "0 \<le> h n" for n by (simp add: h_def)
  have colon: "CHR '':'' \<notin> set (show_nat (h n))" for n
    using show_nat_digits[OF h0[of n]] by (auto simp: list_all_iff is_digit_def)
  have sp: "p = p' \<and> r = r'" if "p @ CHR '':'' # r = p' @ CHR '':'' # r'" "CHR '':'' \<notin> set p" "CHR '':'' \<notin> set p'"
    for p p' r r' :: string
    using that index_of_first[of "CHR '':''" p r] index_of_first[of "CHR '':''" p' r'] by simp
  from eq have e: "show_nat (h (d_hours d)) = show_nat (h (d_hours e))"
    "m (d_minutes d) @ a (d_hours d) = m (d_minutes e) @ a (d_hours e)"
    using sp[OF eq[unfolded f[OF assms(1-5)] f[OF assms(6-10)]] colon colon] by simp_all
  have "length (a n) = 2" for n by (simp add: a_def)
  then have e2: "m (d_minutes d) = m (d_minutes e)" "a (d_hours d) = a (d_hours e)"
    using e(2) by simp_all
  have "digits_val (m n) = n" if "0 \<le> n" for n
    using digits_val_zeros[of 1 "show_nat n"] digits_val_show_nat[OF that] by (simp add: m_def)
  then have mm: "d_minutes d = d_minutes e" using e2(1) assms by metis
  have "h (d_hours d) = h (d_hours e)" using e(1) h0 show_nat_inj by blast
  moreover have "h n = (if n = 0 \<or> n = 12 then 12 else if n < 12 then n else n - 12)" if "0 \<le> n" "n < 24" for n
  proof -
    have "n mod 12 = (if n < 12 then n else n - 12)"
      using that mod_pos_pos_trivial[of n 12] mod_pos_pos_trivial[of "n - 12" 12] mod_diff_right_eq[of n 12 12] by auto
    then show ?thesis by (simp add: h_def)
  qed
  ultimately have "d_hours d = d_hours e" using e2(2) assms(1,2,6,7) unfolding a_def
    by (auto split: if_splits)
  with mm show ?thesis by simp
qed

theorem formatShortTime_inj_witness:
  "formatShortTime (Date 2019 0 31 0 7) = formatShortTime (Date 2020 5 1 0 7) \<and> d_hours (Date 2019 0 31 0 7) = d_hours (Date 2020 5 1 0 7)"
proof
  show e: "formatShortTime (Date 2019 0 31 0 7) = formatShortTime (Date 2020 5 1 0 7)" by code_simp
  show "d_hours (Date 2019 0 31 0 7) = d_hours (Date 2020 5 1 0 7)"
    using formatShortTime_inj[OF _ _ _ _ _ _ _ _ _ _ e] by simp
qed

section \<open>What the parsers return\<close>

text \<open>The numbers a quantity can be: doubles that are not negative and not \<open>NaN\<close>.\<close>

definition quantity :: "jsnum \<Rightarrow> bool" where
  "quantity x \<longleftrightarrow> is_double x \<and> js_le (Fin 0) x"

lemma quantity_fl: "0 \<le> x \<Longrightarrow> quantity (fl x)"
  by (simp add: quantity_def fl_nonneg is_double_fl)

lemma quantity_cases: "quantity x \<longleftrightarrow> x = PInf \<or> (\<exists>a. x = Fin a \<and> 0 \<le> a \<and> is_double (Fin a))"
  by (cases x) (auto simp: quantity_def js_le_def)

lemma quantity_mul: "quantity x \<Longrightarrow> 0 < k \<Longrightarrow> quantity (js_mul x (Fin k))"
  by (auto simp: quantity_cases[of x] intro!: quantity_fl) (simp add: quantity_cases inf_sgn_def)

lemma quantity_div: "quantity x \<Longrightarrow> 0 < k \<Longrightarrow> quantity (js_div x (Fin k))"
  by (auto simp: quantity_cases[of x] intro!: quantity_fl) (simp add: quantity_cases inf_sgn_def)

lemma quantity_decimal: "match_quantity s = Some (ip, fp, u) \<Longrightarrow> quantity (parse_decimal ip fp)"
  unfolding match_quantity_iff is_quantity_def parse_decimal_def by (auto intro: quantity_fl decimal_val_nonneg)

text \<open>
  C40. The values the two parsers return: on every string \<open>parseDataSize\<close> and \<open>parseDuration\<close> give \<open>null\<close> or a
  number, and the number is a double that is neither negative nor \<open>NaN\<close>.
\<close>

theorem parsed_quantity:
  "(parseDataSize value = JNull \<or> (\<exists>x. parseDataSize value = JNum x \<and> quantity x))
   \<and> (parseDuration value = JNull \<or> (\<exists>x. parseDuration value = JNum x \<and> quantity x))"
proof (cases "match_quantity value")
  case None
  then show ?thesis by (simp add: parseDataSize_def parseDuration_def)
next
  case (Some m)
  obtain ip fp u where m: "m = (ip, fp, u)" by (cases m) blast
  have q: "quantity (parse_decimal ip fp)" using Some m quantity_decimal by blast
  have "parseDataSize value = JNull \<or> (\<exists>x. parseDataSize value = JNum x \<and> quantity x)"
    by (simp add: parseDataSize_def Some m Let_def q quantity_mul)
  moreover have "parseDuration value = JNull \<or> (\<exists>x. parseDuration value = JNum x \<and> quantity x)"
    by (simp add: parseDuration_def Some m Let_def q quantity_mul quantity_div)
  ultimately show ?thesis by blast
qed

end
