(* ===== verification/TaskList.thy ===== *)
theory TaskList
  imports QueryInfo Quantities
begin

text \<open>
  \<^verbatim>\<open>src/components/QueryDetail.jsx\<close>, the class \<open>TaskList\<close>: the table of the tasks of a query, the
  order of its rows by task id and the decision whether to show port numbers.
\<close>

section \<open>Operations\<close>

definition removeQueryId :: "string \<Rightarrow> string" where
  "removeQueryId i = (let pos = index_of ''.'' i in if pos \<noteq> -1 then substring_from i (pos + 1) else i)"

text \<open>The loop over the parts of two task ids; the first id has no more parts than the second.\<close>

fun compare_parts :: "string list \<Rightarrow> string list \<Rightarrow> jsnum" where
  "compare_parts (a # as) (b # bs) =
    (let anum = parse_int a; bnum = parse_int b
     in if \<not> js_eq anum bnum then (if js_lt bnum anum then Fin 1 else Fin (- 1)) else compare_parts as bs)"
| "compare_parts _ _ = Fin 0"

definition compareTaskId :: "string \<Rightarrow> string \<Rightarrow> jsnum" where
  "compareTaskId taskA taskB =
    (let taskIdArrA = split_char (CHR ''.'') (removeQueryId taskA);
         taskIdArrB = split_char (CHR ''.'') (removeQueryId taskB)
     in if length taskIdArrB < length taskIdArrA then Fin 1 else compare_parts taskIdArrA taskIdArrB)"

text \<open>
  The loop over the tasks with the object \<open>hostToPortNumber\<close>; the operator \<open>in\<close> also finds the properties
  every object inherits, whose values are no port.
\<close>

fun show_ports_from :: "url_parser \<Rightarrow> (string, string) jsmap \<Rightarrow> task_info list \<Rightarrow> bool throws" where
  "show_ports_from URL hostToPortNumber [] = Some False"
| "show_ports_from URL hostToPortNumber (task # tasks) =
    do {
      hostname \<leftarrow> getHostname URL (tk_self task);
      port \<leftarrow> getPort URL (tk_self task);
      if (case map_get hostToPortNumber hostname of Some p \<Rightarrow> p \<noteq> port | None \<Rightarrow> hostname \<in> set object_prototype)
      then Some True
      else show_ports_from URL (map_set hostname port hostToPortNumber) tasks }"

definition showPortNumbers :: "url_parser \<Rightarrow> task_info list \<Rightarrow> bool throws" where
  "showPortNumbers URL tasks = show_ports_from URL [] tasks"

definition formatState :: "string \<Rightarrow> bool \<Rightarrow> string" where
  "formatState state blocked = (if blocked \<and> state = ''RUNNING'' then ''BLOCKED'' else state)"

section \<open>View\<close>

text \<open>The value of an attribute that is a number, \<open>null\<close> or \<open>undefined\<close>.\<close>

fun jv_attr :: "jv \<Rightarrow> 'h attr" where
  "jv_attr (JNum x) = ANum x"
| "jv_attr _ = ANone"

definition td :: "string \<Rightarrow> 'h attr \<Rightarrow> ('h, 'c) vnode list \<Rightarrow> ('h, 'c) vnode" where
  "td column value cs = Elem ''Td'' [attr ''column'' column, (''value'', value)] cs"

definition num_td :: "string \<Rightarrow> jsnum \<Rightarrow> ('h, 'c) vnode" where
  "num_td column x = td column (ANum x) [Number (JNum x)]"

text \<open>The elapsed time of a task; \<open>now\<close> is the reading of the clock.\<close>

definition task_elapsed :: "env \<Rightarrow> int \<Rightarrow> task_info \<Rightarrow> jv" where
  "task_elapsed env now task =
    (let elapsedTime = parseDuration (tk_elapsedTime task)
     in if jv_eq_num elapsedTime (Fin 0) then JNum (js_sub (num_int now) (date_parse env (tk_createTime task))) else elapsedTime)"

definition render_task :: "env \<Rightarrow> bool \<Rightarrow> int \<Rightarrow> task_info \<Rightarrow> ('h, 'c) vnode throws" where
  "render_task env ports now task =
    (let elapsedTime = task_elapsed env now task;
         rowsSec = computeRate (JNum (tk_rawInputPositions task)) elapsedTime;
         bytes = parseDataSize (tk_rawInputDataSize task);
         bytesSec = computeRate bytes elapsedTime;
         st = formatState (tk_state task) (tk_fullyBlocked task)
     in do {
       host \<leftarrow> getHostname (env_url env) (tk_self task);
       label \<leftarrow> (if ports then getHostAndPort (env_url env) (tk_self task) else getHostname (env_url env) (tk_self task));
       rows \<leftarrow> formatCount (JNum (tk_rawInputPositions task));
       rowsRate \<leftarrow> formatCount (JNum rowsSec);
       bytesText \<leftarrow> formatDataSizeBytes bytes;
       bytesRate \<leftarrow> formatDataSizeBytes (JNum bytesSec);
       buffered \<leftarrow> formatDataSizeBytes (JNum (tk_totalBufferedBytes task));
       Some (el ''Tr''
         [td ''id'' (AStr (tk_taskId task)) [Elem ''a'' [attr ''href'' (tk_self task @ ''?pretty'')] [Text (getTaskIdSuffix (tk_taskId task))]],
          td ''host'' (AStr host) [Elem ''a'' [attr ''href'' (''worker.html?'' @ tk_nodeId task), className ''font-light'', attr ''target'' ''_blank''] [Text label]],
          td ''state'' (AStr st) [Text st],
          td ''rows'' (ANum (tk_rawInputPositions task)) [Text rows],
          td ''rowsSec'' (ANum rowsSec) [Text rowsRate],
          td ''bytes'' (jv_attr bytes) [Text bytesText],
          td ''bytesSec'' (ANum bytesSec) [Text bytesRate],
          num_td ''splitsPending'' (tk_queuedDrivers task),
          num_td ''splitsRunning'' (tk_runningDrivers task),
          num_td ''splitsBlocked'' (tk_blockedDrivers task),
          num_td ''splitsDone'' (tk_completedDrivers task),
          td ''elapsedTime'' (jv_attr (parseDuration (tk_elapsedTime task))) [Text (tk_elapsedTime task)],
          td ''cpuTime'' (jv_attr (parseDuration (tk_totalCpuTime task))) [Text (tk_totalCpuTime task)],
          td ''bufferedBytes'' (ANum (tk_totalBufferedBytes task)) [Text buffered]]) })"

text \<open>The table of the library \<open>reactable\<close>: the sortable columns with their own order, the default sort, the head and the rows.\<close>

datatype ('h, 'c) task_table = TaskTable
  (tt_sortable: "(string \<times> (string \<Rightarrow> string \<Rightarrow> jsnum) option) list") (tt_defaultSort: "string \<times> string")
  (tt_head: "('h, 'c) vnode list") (tt_rows: "('h, 'c) vnode list")

definition th :: "string \<Rightarrow> ('h, 'c) vnode \<Rightarrow> ('h, 'c) vnode" where
  "th column c = Elem ''Th'' [attr ''column'' column] [c]"

definition th_glyph :: "string \<Rightarrow> string \<Rightarrow> string \<Rightarrow> ('h, 'c) vnode" where
  "th_glyph column glyph title =
    th column (Elem ''span'' [className (''glyphicon '' @ glyph), style_attr GLYPHICON_HIGHLIGHT, attr ''data-toggle'' ''tooltip'',
      attr ''data-placement'' ''top'', attr ''title'' title] [])"

definition task_head :: "('h, 'c) vnode list" where
  "task_head =
    [th ''id'' (Text ''ID''), th ''host'' (Text ''Host''), th ''state'' (Text ''State''),
     th_glyph ''splitsPending'' ''glyphicon-pause'' ''Pending splits'', th_glyph ''splitsRunning'' ''glyphicon-play'' ''Running splits'',
     th_glyph ''splitsBlocked'' ''glyphicon-bookmark'' ''Blocked splits'', th_glyph ''splitsDone'' ''glyphicon-ok'' ''Completed splits'',
     th ''rows'' (Text ''Rows''), th ''rowsSec'' (Text ''Rows/s''), th ''bytes'' (Text ''Bytes''), th ''bytesSec'' (Text ''Bytes/s''),
     th ''elapsedTime'' (Text ''Elapsed''), th ''cpuTime'' (Text ''CPU Time''), th ''bufferedBytes'' (Text ''Buffered'')]"

definition task_sortable :: "(string \<times> (string \<Rightarrow> string \<Rightarrow> jsnum) option) list" where
  "task_sortable =
    (''id'', Some compareTaskId) #
    map (\<lambda>c. (c, None)) [''host'', ''state'', ''splitsPending'', ''splitsRunning'', ''splitsBlocked'', ''splitsDone'', ''rows'', ''rowsSec'',
      ''bytes'', ''bytesSec'', ''elapsedTime'', ''cpuTime'', ''bufferedBytes'']"

text \<open>\<open>now task\<close> is the reading of the clock when the row of the task is rendered.\<close>

definition TaskList_render :: "env \<Rightarrow> (task_info \<Rightarrow> int) \<Rightarrow> task_info list \<Rightarrow> ('h, (unit, unit) task_table) vnode throws" where
  "TaskList_render env now tasks =
    (if length tasks = 0
     then Some (divc ''row error-message'' [divc ''col-xs-12'' [el ''h4'' [Text ''No threads in the selected group'']]])
     else do {
       ports \<leftarrow> showPortNumbers (env_url env) tasks;
       rows \<leftarrow> mapM (\<lambda>task. render_task env ports (now task) task) tasks;
       Some (Comp (TaskTable task_sortable (''id'', ''asc'') task_head rows)) })"

section \<open>Laws\<close>

subsection \<open>The order of task ids\<close>

text \<open>A task id of the server: the query id, the stage number and the task number.\<close>

definition task_id :: "string \<Rightarrow> int \<Rightarrow> int \<Rightarrow> string" where
  "task_id q st n = q @ ''.'' @ show_nat st @ ''.'' @ show_nat n"

definition task_ids :: "string set" where
  "task_ids = {task_id q st n | q st n. CHR ''.'' \<notin> set q \<and> 0 \<le> st \<and> st < 2 ^ 31 \<and> 0 \<le> n \<and> n < 2 ^ 31}"

lemma task_idsI: "CHR ''.'' \<notin> set q \<Longrightarrow> 0 \<le> st \<Longrightarrow> st < 2 ^ 31 \<Longrightarrow> 0 \<le> n \<Longrightarrow> n < 2 ^ 31 \<Longrightarrow> task_id q st n \<in> task_ids"
  unfolding task_ids_def by blast

text \<open>The order by stage number and then by task number.\<close>

fun num_of :: "jsnum \<Rightarrow> rat" where
  "num_of (Fin r) = r"
| "num_of _ = 0"

definition task_before :: "string \<Rightarrow> string \<Rightarrow> bool" where
  "task_before a b \<longleftrightarrow>
     num_of (getStageNumber a) < num_of (getStageNumber b)
   \<or> num_of (getStageNumber a) = num_of (getStageNumber b) \<and> num_of (getTaskNumber a) \<le> num_of (getTaskNumber b)"

lemma task_before_ids:
  assumes "CHR ''.'' \<notin> set q" "0 \<le> s" "s < 2 ^ 31" "0 \<le> n" "n < 2 ^ 31" "CHR ''.'' \<notin> set q'" "0 \<le> s'" "s' < 2 ^ 31" "0 \<le> n'" "n' < 2 ^ 31"
  shows "task_before (task_id q s n) (task_id q' s' n') \<longleftrightarrow> s < s' \<or> s = s' \<and> n \<le> n'"
  using stage_task_numbers(2,4)[of q s n] stage_task_numbers(2,4)[of q' s' n'] assms
  by (simp add: task_before_def task_id_def)

lemma removeQueryId_task_id: "CHR ''.'' \<notin> set q \<Longrightarrow> removeQueryId (task_id q s n) = show_nat s @ CHR ''.'' # show_nat n"
  by (simp add: removeQueryId_def task_id_def index_of_first substring_from_nonneg nat_add_distrib)

lemma compareTaskId_ids:
  assumes "CHR ''.'' \<notin> set q" "0 \<le> s" "s < 2 ^ 31" "0 \<le> n" "n < 2 ^ 31" "CHR ''.'' \<notin> set q'" "0 \<le> s'" "s' < 2 ^ 31" "0 \<le> n'" "n' < 2 ^ 31"
  shows "compareTaskId (task_id q s n) (task_id q' s' n') =
    (if s' < s \<or> s = s' \<and> n' < n then Fin 1 else if s = s' \<and> n = n' then Fin 0 else Fin (- 1))"
proof -
  have "split_char (CHR ''.'') (show_nat a @ CHR ''.'' # show_nat b) = [show_nat a, show_nat b]" if "0 \<le> a" "0 \<le> b" for a b
    using that by (simp add: split_char_append split_char_no_sep show_nat_no_dot)
  then show ?thesis using assms
    by (auto simp: compareTaskId_def removeQueryId_task_id parse_int_show_nat js_eq_def)
qed

interpretation by_task: comparator compareTaskId task_before task_ids
proof
  fix x y
  assume "x \<in> task_ids" "y \<in> task_ids"
  then show "js_lt (Fin 0) (compareTaskId x y) \<longleftrightarrow> \<not> task_before x y"
    by (auto simp: task_ids_def compareTaskId_ids task_before_ids split: if_splits)
qed (auto simp: task_before_def)

text \<open>
  The order of the task table: sorting task ids of the server with \<open>compareTaskId\<close> arranges them by
  stage number and then by task number, as numbers and not as texts, whatever the query ids are;
  tasks with the same numbers keep their order.
\<close>

theorem compareTaskId_sorts:
  assumes "set ids \<subseteq> task_ids"
  shows "sorted_wrt task_before (array_sort compareTaskId ids) \<and> mset (array_sort compareTaskId ids) = mset ids
    \<and> (\<forall>z \<in> task_ids. filter (\<lambda>y. task_before y z \<and> task_before z y) (array_sort compareTaskId ids)
        = filter (\<lambda>y. task_before y z \<and> task_before z y) ids)"
  using by_task.sorted_array_sort[OF assms] by_task.array_sort_stable[OF assms] by simp

theorem compareTaskId_sorts_witness:
  "array_sort compareTaskId [''q.2.0'', ''q.1.10'', ''q.1.9''] = [''q.1.9'', ''q.1.10'', ''q.2.0'']
   \<and> sorted_wrt task_before (array_sort compareTaskId [''q.2.0'', ''q.1.10'', ''q.1.9''])"
proof
  show "array_sort compareTaskId [''q.2.0'', ''q.1.10'', ''q.1.9''] = [''q.1.9'', ''q.1.10'', ''q.2.0'']" by code_simp
  have "task_id ''q'' 2 0 = ''q.2.0''" "task_id ''q'' 1 10 = ''q.1.10''" "task_id ''q'' 1 9 = ''q.1.9''" by code_simp+
  note mem = this[THEN subst, of "\<lambda>i. i \<in> task_ids"]
  have "set [''q.2.0'', ''q.1.10'', ''q.1.9''] \<subseteq> task_ids"
    unfolding list.set insert_subset by (intro conjI mem task_idsI) simp_all
  from compareTaskId_sorts[OF this] show "sorted_wrt task_before (array_sort compareTaskId [''q.2.0'', ''q.1.10'', ''q.1.9''])" by blast
qed

subsection \<open>Port numbers\<close>

definition task_host :: "url_parser \<Rightarrow> task_info \<Rightarrow> string" where
  "task_host URL task = the (getHostname URL (tk_self task))"

definition task_port :: "url_parser \<Rightarrow> task_info \<Rightarrow> string" where
  "task_port URL task = the (getPort URL (tk_self task))"

text \<open>Tasks with an address the browser can read and a host not named like an inherited property.\<close>

definition addressed :: "url_parser \<Rightarrow> task_info \<Rightarrow> bool" where
  "addressed URL task \<longleftrightarrow> URL (tk_self task) \<noteq> None \<and> task_host URL task \<notin> set object_prototype"

lemma port_conflict_insert:
  assumes none: "\<not> (\<exists>q. M (H x) = Some q \<and> q \<noteq> P x)"
  shows "((\<exists>t \<in> T. \<exists>q. (M(H x \<mapsto> P x)) (H t) = Some q \<and> q \<noteq> P t) \<or> (\<exists>t \<in> T. \<exists>u \<in> T. H t = H u \<and> P t \<noteq> P u)) \<longleftrightarrow>
    ((\<exists>t \<in> insert x T. \<exists>q. M (H t) = Some q \<and> q \<noteq> P t) \<or> (\<exists>t \<in> insert x T. \<exists>u \<in> insert x T. H t = H u \<and> P t \<noteq> P u))"
    (is "?L \<longleftrightarrow> ?R")
proof
  assume ?L
  then consider t where "t \<in> T" "H t = H x" "P x \<noteq> P t" | t q where "t \<in> T" "M (H t) = Some q" "q \<noteq> P t"
    | t u where "t \<in> T" "u \<in> T" "H t = H u" "P t \<noteq> P u" by (auto split: if_splits)
  then show ?R by cases (metis insertI1 insertI2, metis insertI2, metis insertI2)
next
  assume ?R
  then consider t q where "t \<in> T" "M (H t) = Some q" "q \<noteq> P t" | u where "u \<in> T" "H u = H x" "P u \<noteq> P x"
    | t u where "t \<in> T" "u \<in> T" "H t = H u" "P t \<noteq> P u" using none by fastforce
  then show ?L
  proof cases
    case 1
    then show ?thesis using none by (cases "H t = H x") auto
  next
    case 2
    then have "(M(H x \<mapsto> P x)) (H u) = Some (P x) \<and> P x \<noteq> P u" by simp
    with 2(1) show ?thesis by blast
  qed blast
qed

lemma show_ports_from_spec:
  assumes "list_all (addressed URL) tasks"
  shows "show_ports_from URL m tasks = Some
    ((\<exists>t \<in> set tasks. \<exists>p. map_get m (task_host URL t) = Some p \<and> p \<noteq> task_port URL t)
     \<or> (\<exists>t \<in> set tasks. \<exists>u \<in> set tasks. task_host URL t = task_host URL u \<and> task_port URL t \<noteq> task_port URL u))"
  using assms
proof (induction tasks arbitrary: m)
  case (Cons t ts)
  obtain h p where hp: "getHostname URL (tk_self t) = Some h" "getPort URL (tk_self t) = Some p" "h \<notin> set object_prototype"
      "task_host URL t = h" "task_port URL t = p"
    using Cons.prems by (auto simp: addressed_def getHostname_def getPort_def task_host_def task_port_def)
  show ?case
  proof (cases "\<exists>p'. map_get m h = Some p' \<and> p' \<noteq> p")
    case True
    then show ?thesis using hp by auto
  next
    case False
    then have "show_ports_from URL m (t # ts) = show_ports_from URL (map_set h p m) ts"
      using hp by (auto split: option.split)
    moreover have "list_all (addressed URL) ts" using Cons.prems by simp
    ultimately have "show_ports_from URL m (t # ts) = Some
        ((\<exists>t \<in> set ts. \<exists>q. ((map_get m)(h \<mapsto> p)) (task_host URL t) = Some q \<and> q \<noteq> task_port URL t)
         \<or> (\<exists>t \<in> set ts. \<exists>u \<in> set ts. task_host URL t = task_host URL u \<and> task_port URL t \<noteq> task_port URL u))"
      using Cons.IH[of "map_set h p m"] by (simp only: update_conv')
    also have "\<dots> = Some ((\<exists>t \<in> set (t # ts). \<exists>q. map_get m (task_host URL t) = Some q \<and> q \<noteq> task_port URL t)
         \<or> (\<exists>u \<in> set (t # ts). \<exists>v \<in> set (t # ts). task_host URL u = task_host URL v \<and> task_port URL u \<noteq> task_port URL v))"
      unfolding list.set option.inject
      by (rule port_conflict_insert[of "map_get m" "task_host URL" t "task_port URL" "set ts", unfolded hp(4,5), OF False])
    finally show ?thesis .
  qed
qed simp

text \<open>
  Port numbers are shown exactly when some host of the tasks has two different ports; the answer
  does not depend on the order of the tasks.
\<close>

theorem showPortNumbers_iff:
  assumes "list_all (addressed URL) tasks"
  shows "showPortNumbers URL tasks = Some
    (\<exists>t \<in> set tasks. \<exists>u \<in> set tasks. task_host URL t = task_host URL u \<and> task_port URL t \<noteq> task_port URL u)"
  using show_ports_from_spec[OF assms, of "[]"] by (simp add: showPortNumbers_def)

definition example_task :: "string \<Rightarrow> string \<Rightarrow> string \<Rightarrow> task_info" where
  "example_task i self st =
    \<lparr> tk_taskId = i, tk_self = self, tk_nodeId = ''n1'', tk_state = st, tk_createTime = ''2019-01-31T00:00:01.000Z'',
      tk_firstStartTime = None, tk_lastStartTime = None, tk_lastEndTime = None, tk_endTime = None,
      tk_elapsedTime = ''1.50s'', tk_totalScheduledTime = ''1.00s'', tk_totalCpuTime = ''0.50s'', tk_fullyBlocked = False,
      tk_rawInputPositions = Fin 1000, tk_rawInputDataSize = ''8.79kB'', tk_queuedDrivers = Fin 0, tk_runningDrivers = Fin 4,
      tk_blockedDrivers = Fin 0, tk_completedDrivers = Fin 2, tk_totalBufferedBytes = Fin 0, tk_pipelines = [] \<rparr>"

definition example_url :: url_parser where
  "example_url u = map_of [(''http://a:1/t'', (''a'', ''1'')), (''http://a:2/t'', (''a'', ''2'')), (''http://b:1/t'', (''b'', ''1''))] u"

theorem showPortNumbers_iff_witness:
  "showPortNumbers example_url [example_task ''q.0.0'' ''http://a:1/t'' ''RUNNING'', example_task ''q.0.1'' ''http://a:2/t'' ''RUNNING''] = Some True"
proof -
  let ?t = "example_task ''q.0.0'' ''http://a:1/t'' ''RUNNING''" and ?u = "example_task ''q.0.1'' ''http://a:2/t'' ''RUNNING''"
  have a: "list_all (addressed example_url) [?t, ?u]" by code_simp
  have "task_host example_url ?t = task_host example_url ?u" "task_port example_url ?t \<noteq> task_port example_url ?u" by code_simp+
  then have "\<exists>t \<in> set [?t, ?u]. \<exists>u \<in> set [?t, ?u]. task_host example_url t = task_host example_url u \<and> task_port example_url t \<noteq> task_port example_url u"
    by (intro bexI[of _ ?t] bexI[of _ ?u]) simp_all
  then show ?thesis using showPortNumbers_iff[OF a] by (simp only: HOL.simp_thms)
qed

end
