(* ===== verification/StageList.thy ===== *)
theory StageList
  imports OperatorGraph Quantities
begin

text \<open>
  \<^verbatim>\<open>src/components/QueryDetail.jsx\<close>, the classes \<open>StageSummary\<close> and \<open>StageList\<close>: the list of the stages
  of a query, each with its statistics, the histograms of its tasks and their bar charts.
\<close>

section \<open>Histograms\<close>

text \<open>
  \<open>Math.sqrt\<close> of a natural number: the integer square root to 60 binary places, with a half added when
  it is not exact, so that rounding gives the double nearest to the root.
\<close>

function isqrt :: "int \<Rightarrow> int" where
  "isqrt n = (if n \<le> 0 then 0 else let r = 2 * isqrt (n div 4) in if (r + 1) * (r + 1) \<le> n then r + 1 else r)"
  by pat_completeness auto
termination
  by (relation "measure nat") auto

declare isqrt.simps [simp del]

definition math_sqrt :: "nat \<Rightarrow> jsnum" where
  "math_sqrt n =
    (let k = int n * 4 ^ 60; m = isqrt k
     in fl ((of_int m + (if m * m = k then 0 else 1 / 2)) / 2 ^ 60))"

definition HISTOGRAM_WIDTH :: jsnum where
  "HISTOGRAM_WIDTH = Fin 175"

definition HISTOGRAM_PROPERTIES :: chart_properties where
  "HISTOGRAM_PROPERTIES =
    [(''type'', CvText ''bar''), (''barSpacing'', CvText ''0''), (''height'', CvText ''80px''), (''barColor'', CvText ''#747F96''),
     (''zeroColor'', CvText ''#747F96''), (''zeroAxis'', CvFlag True), (''chartRangeMin'', CvNumber (Fin 0)), (''tooltipClassname'', CvText ''sparkline-tooltip''), (''tooltipFormat'', CvText ''{{offset:offset}} -- {{value}} tasks''), (''disableHiddenCheck'', CvFlag True)]"

definition BAR_CHART_PROPERTIES :: chart_properties where
  "BAR_CHART_PROPERTIES =
    [(''type'', CvText ''bar''), (''barSpacing'', CvText ''0''), (''height'', CvText ''80px''), (''barColor'', CvText ''#747F96''),
     (''zeroColor'', CvText ''#8997B3''), (''chartRangeMin'', CvNumber (Fin 0)), (''tooltipClassname'', CvText ''sparkline-tooltip''), (''tooltipFormat'', CvText ''Task {{offset:offset}} - {{value}}''), (''disableHiddenCheck'', CvFlag True)]"

definition BAR_CHART_WIDTH :: jsnum where
  "BAR_CHART_WIDTH = Fin 800"

definition numBuckets :: "nat \<Rightarrow> jsnum" where
  "numBuckets n = math_min HISTOGRAM_WIDTH (math_sqrt n)"

text \<open>\<open>Math.min.apply(null, xs)\<close> and \<open>Math.max.apply(null, xs)\<close>.\<close>

definition dataMin :: "jv list \<Rightarrow> jsnum" where
  "dataMin inputData = foldl (\<lambda>m v. math_min m (to_num v)) PInf inputData"

definition dataMax :: "jv list \<Rightarrow> jsnum" where
  "dataMax inputData = foldl (\<lambda>m v. math_max m (to_num v)) NInf inputData"

definition bucketSize :: "jv list \<Rightarrow> jsnum" where
  "bucketSize inputData = js_div (js_sub (dataMax inputData) (dataMin inputData)) (numBuckets (length inputData))"

text \<open>The zeros pushed by \<open>for (let i = 0; i < limit; i++)\<close>.\<close>

fun zeros :: "jsnum \<Rightarrow> jv list" where
  "zeros (Fin limit) = replicate (nat \<lceil>limit\<rceil>) (JNum (Fin 0))"
| "zeros _ = []"

text \<open>
  \<open>histogramData[bucket] = histogramData[bucket] + 1\<close>: beyond the end the array grows and holds \<open>NaN\<close>
  there, and a key that is no index leaves the elements as they are.
\<close>

fun bump :: "jv list \<Rightarrow> jsnum \<Rightarrow> jv list" where
  "bump h (Fin b) =
    (if b < 0 then h
     else let i = nat \<lfloor>b\<rfloor>
          in if i < length h then h[i := JNum (js_add (to_num (h ! i)) (Fin 1))]
             else h @ replicate (i - length h) JUndefined @ [JNum NaN])"
| "bump h _ = h"

definition bucket_of :: "jsnum \<Rightarrow> jsnum \<Rightarrow> jv \<Rightarrow> jsnum" where
  "bucket_of lo bs v = math_floor (js_div (js_sub (to_num v) lo) bs)"

definition histogramData :: "jv list \<Rightarrow> jv list" where
  "histogramData inputData =
    (let bs = bucketSize inputData
     in if js_eq bs (Fin 0) then [JNum (num_int (int (length inputData)))]
        else foldl (\<lambda>h v. bump h (bucket_of (dataMin inputData) bs v))
               (zeros (js_add (numBuckets (length inputData)) (Fin 1))) inputData)"

text \<open>The text of the range of bucket \<open>i\<close>.\<close>

definition bucket_text :: "(jv \<Rightarrow> string throws) \<Rightarrow> jv list \<Rightarrow> nat \<Rightarrow> string throws" where
  "bucket_text numberFormatter inputData i =
    (let lo = dataMin inputData; bs = bucketSize inputData
     in do {
       a \<leftarrow> numberFormatter (JNum (js_add lo (js_mul (num_int (int i)) bs)));
       b \<leftarrow> numberFormatter (JNum (js_add lo (js_mul (num_int (int i + 1)) bs)));
       Some (a @ ''-'' @ b) })"

definition renderHistogram :: "string \<Rightarrow> jv list \<Rightarrow> (jv \<Rightarrow> string throws) \<Rightarrow> bar_chart throws" where
  "renderHistogram histogramId inputData numberFormatter =
    (let h = histogramData inputData
     in do {
       texts \<leftarrow> mapM (bucket_text numberFormatter inputData) [0..<length h];
       Some \<lparr> bc_selector = histogramId, bc_values = h, bc_barWidth = js_div HISTOGRAM_WIDTH (num_int (int (length h))),
              bc_offsets = zip [0..<length h] texts, bc_properties = HISTOGRAM_PROPERTIES \<rparr> })"

section \<open>A stage\<close>

record stage_summary =
  su_expanded :: bool
  su_lastRender :: "int option"

definition StageSummary_init :: stage_summary where
  "StageSummary_init = \<lparr> su_expanded = False, su_lastRender = None \<rparr>"

definition getExpandedIcon :: "stage_summary \<Rightarrow> string" where
  "getExpandedIcon s = (if su_expanded s then ''glyphicon-chevron-up'' else ''glyphicon-chevron-down'')"

definition getExpandedStyle :: "stage_summary \<Rightarrow> (string \<times> string) list" where
  "getExpandedStyle s = (if su_expanded s then [] else [(''display'', ''none'')])"

definition toggleExpanded :: "stage_summary \<Rightarrow> stage_summary" where
  "toggleExpanded s = s\<lparr> su_expanded := \<not> su_expanded s \<rparr>"

text \<open>
  The charts drawn after an update and the new state; \<open>now\<close> and \<open>renderTimestamp\<close> are the two readings of
  the clock.  The tasks of the stage are sorted in place first.
\<close>

definition task_bar_chart :: "string \<Rightarrow> stage_info \<Rightarrow> jv list \<Rightarrow> bar_chart" where
  "task_bar_chart selector stage values =
    \<lparr> bc_selector = selector @ num_to_string (getStageNumber (st_stageId stage)), bc_values = values,
      bc_barWidth = js_div BAR_CHART_WIDTH (num_int (int (length (st_tasks stage)))),
      bc_offsets = map (\<lambda>i. (i, num_to_string (getStageNumber (st_stageId stage)) @ ''.'' @ num_to_string (num_int (int i))))
        [0..<length (st_tasks stage)],
      bc_properties = js_extend BAR_CHART_PROPERTIES [(''numberFormatter'', CvFormatter FormatDuration)] \<rparr>"

definition su_componentDidUpdate :: "stage_info \<Rightarrow> int \<Rightarrow> int \<Rightarrow> stage_summary \<Rightarrow> (bar_chart list \<times> stage_summary) throws" where
  "su_componentDidUpdate stage now renderTimestamp s =
    (let tasks = sort_tasks (st_tasks stage);
         scheduledTimes = map (\<lambda>task. parseDuration (tk_totalScheduledTime task)) tasks;
         cpuTimes = map (\<lambda>task. parseDuration (tk_totalCpuTime task)) tasks;
         stageId = num_to_string (getStageNumber (st_stageId stage))
     in if (case su_lastRender s of None \<Rightarrow> True | Some t \<Rightarrow> 1000 \<le> now - t)
        then do {
          scheduled \<leftarrow> renderHistogram (''#scheduled-time-histogram-'' @ stageId) scheduledTimes formatDuration;
          cpu \<leftarrow> renderHistogram (''#cpu-time-histogram-'' @ stageId) cpuTimes formatDuration;
          Some ([scheduled, cpu]
                @ (if su_expanded s
                   then [task_bar_chart ''#scheduled-time-bar-chart-'' stage scheduledTimes,
                         task_bar_chart ''#cpu-time-bar-chart-'' stage cpuTimes] else []),
                s\<lparr> su_lastRender := Some renderTimestamp \<rparr>) }
        else Some ([], s))"

text \<open>The click on the button that shows the charts.\<close>

datatype su_event = ToggleExpanded

definition stat_tr :: "string \<Rightarrow> ('h, 'c) vnode \<Rightarrow> ('h, 'c) vnode" where
  "stat_tr title v = el ''tr'' [elc ''td'' ''stage-table-stat-title'' [Text title], elc ''td'' ''stage-table-stat-text'' [v]]"

definition stat_table :: "string \<Rightarrow> string \<Rightarrow> ('h, 'c) vnode list \<Rightarrow> ('h, 'c) vnode" where
  "stat_table cls header rows =
    el ''td'' [elc ''table'' (''stage-table '' @ cls)
      [el ''thead'' [el ''tr'' [elc ''th'' ''stage-table-stat-title stage-table-stat-header'' [Text header], el ''th'' []]],
       el ''tbody'' rows]]"

definition histogram_table :: "string \<Rightarrow> string \<Rightarrow> ('h, 'c) vnode" where
  "histogram_table header i =
    el ''td'' [elc ''table'' ''stage-table histogram-table''
      [el ''thead'' [el ''tr'' [elc ''th'' ''stage-table-stat-title stage-table-chart-header'' [Text header]]],
       el ''tbody'' [el ''tr'' [elc ''td'' ''histogram-container''
         [Elem ''span'' [className ''histogram'', attr ''id'' i] [divc ''loader'' []]]]]]]"

definition expanded_row :: "stage_summary \<Rightarrow> string \<Rightarrow> string \<Rightarrow> ('h, 'c) vnode" where
  "expanded_row s title i =
    Elem ''tr'' [style_attr (getExpandedStyle s)] [Elem ''td'' [attr ''colSpan'' ''6'']
      [elc ''table'' ''expanded-chart'' [el ''tbody'' [el ''tr''
        [elc ''td'' ''stage-table-stat-title expanded-chart-title'' [Text title],
         elc ''td'' ''bar-chart-container'' [Elem ''span'' [className ''bar-chart'', attr ''id'' i] [divc ''loader'' []]]]]]]]"

definition count_num :: "'a list \<Rightarrow> ('h, 'c) vnode" where
  "count_num xs = Number (JNum (num_int (int (length xs))))"

definition StageSummary_render :: "stage_info option \<Rightarrow> stage_summary \<Rightarrow> (su_event, 'c) vnode throws" where
  "StageSummary_render props_stage s =
    (case props_stage of
       None \<Rightarrow> Some (el ''tr'' [el ''td'' [Text ''Information about this stage is unavailable.'']])
     | Some stage \<Rightarrow>
        if st_plan stage = None then Some (el ''tr'' [el ''td'' [Text ''Information about this stage is unavailable.'']])
        else
         (let stats = st_stageStats stage; tasks = st_tasks stage;
              totalBufferedBytes = foldl js_add (Fin 0) (map tk_totalBufferedBytes tasks);
              stageId = getStageNumber (st_stageId stage)
          in do {
            cumulative \<leftarrow> formatDataSizeBytes (JNum (js_div (ss_cumulativeUserMemory stats) (Fin 1000)));
            buffers \<leftarrow> formatDataSize (JNum totalBufferedBytes);
            Some (el ''tr''
              [elc ''td'' ''stage-id''
                [Elem ''div'' [className ''stage-state-color'', style_attr [(''borderLeftColor'', getStageStateColor (st_state stage) (Some (ss_fullyBlocked stats)))]]
                  [Number (JNum stageId)]],
               el ''td'' [elc ''table'' ''table single-stage-table'' [el ''tbody''
                [el ''tr''
                  [stat_table ''stage-table-time'' ''Time''
                    [stat_tr ''Scheduled'' (Text (ss_totalScheduledTime stats)), stat_tr ''Blocked'' (Text (ss_totalBlockedTime stats)),
                     stat_tr ''CPU'' (Text (ss_totalCpuTime stats))],
                   stat_table ''stage-table-memory'' ''Memory''
                    [stat_tr ''Cumulative'' (Text cumulative), stat_tr ''Current'' (Text (ss_userMemoryReservation stats)),
                     stat_tr ''Buffers'' (Text buffers), stat_tr ''Peak'' (Text (ss_peakUserMemoryReservation stats))],
                   stat_table ''stage-table-tasks'' ''Tasks''
                    [stat_tr ''Pending'' (count_num (filter (\<lambda>task. tk_state task = ''PLANNED'') tasks)),
                     stat_tr ''Running'' (count_num (filter (\<lambda>task. tk_state task = ''RUNNING'') tasks)),
                     stat_tr ''Blocked'' (count_num (filter tk_fullyBlocked tasks)),
                     stat_tr ''Total'' (count_num tasks)],
                   histogram_table ''Scheduled Time Skew'' (''scheduled-time-histogram-'' @ num_to_string stageId),
                   histogram_table ''CPU Time Skew'' (''cpu-time-histogram-'' @ num_to_string stageId),
                   elc ''td'' ''expand-charts-container''
                    [Elem ''a'' [onClick ToggleExpanded, className ''expand-charts-button'']
                      [Elem ''span'' [className (''glyphicon '' @ getExpandedIcon s), style_attr GLYPHICON_HIGHLIGHT, attr ''data-toggle'' ''tooltip'',
                         attr ''data-placement'' ''top'', attr ''title'' ''More''] []]]],
                 expanded_row s ''Task Scheduled Time'' (''scheduled-time-bar-chart-'' @ num_to_string stageId),
                 expanded_row s ''Task CPU Time'' (''cpu-time-bar-chart-'' @ num_to_string stageId)]]]]) }))"

section \<open>The list\<close>

definition getStages :: "stage_info option \<Rightarrow> stage_info list" where
  "getStages stage = (case stage of None \<Rightarrow> [] | Some s \<Rightarrow> stage_list s)"

datatype sl_child = StageSummary stage_info

definition StageList_render :: "stage_info option \<Rightarrow> ('h, sl_child) vnode" where
  "StageList_render outputStage =
    (let stages = getStages outputStage
     in if length stages = 0
        then divc ''row'' [divc ''col-xs-12'' [Text ''No stage information available.'']]
        else divc ''row'' [divc ''col-xs-12'' [Elem ''table'' [className ''table'', attr ''id'' ''stage-list'']
          [el ''tbody'' [Fragment (map (\<lambda>stage. Comp (StageSummary stage)) stages)]]]])"

section \<open>Laws\<close>

subsection \<open>Square roots\<close>

lemma isqrt_bounds: "0 \<le> n \<Longrightarrow> 0 \<le> isqrt n \<and> isqrt n * isqrt n \<le> n \<and> n < (isqrt n + 1) * (isqrt n + 1)"
proof (induction n rule: isqrt.induct)
  case (1 n)
  show ?case
  proof (cases "n \<le> 0")
    case True
    then show ?thesis using 1(2) by (simp add: isqrt.simps)
  next
    case False
    define q where "q = isqrt (n div 4)"
    have q: "0 \<le> q" "q * q \<le> n div 4" "n div 4 < (q + 1) * (q + 1)" using 1(1)[OF False] False by (simp_all add: q_def)
    have "4 * (n div 4) \<le> n" "n < 4 * (n div 4) + 4" by simp_all
    then have "(2 * q) * (2 * q) \<le> n" "n < (2 * q + 2) * (2 * q + 2)" using q by (simp_all add: algebra_simps)
    then show ?thesis using False q(1) by (simp add: isqrt.simps[of n] q_def[symmetric] Let_def algebra_simps)
  qed
qed

lemma isqrt_unique:
  assumes "0 \<le> r" "r * r \<le> n" "n < (r + 1) * (r + 1)"
  shows "isqrt n = r"
proof -
  have "0 \<le> n" by (rule order_trans[OF _ assms(2)]) (simp add: assms(1))
  then have i: "0 \<le> isqrt n" "isqrt n * isqrt n \<le> n" "n < (isqrt n + 1) * (isqrt n + 1)" using isqrt_bounds[of n] by auto
  have "isqrt n < r + 1" using i assms by (meson le_less_trans mult_mono' not_le add_increasing zero_le_one)
  moreover have "r < isqrt n + 1" using i assms by (meson le_less_trans mult_mono' not_le add_increasing zero_le_one)
  ultimately show ?thesis by simp
qed

text \<open>The root of a square is exact.\<close>

lemma math_sqrt_square: "n \<le> 2 ^ 53 \<Longrightarrow> math_sqrt (n * n) = num_int (int n)"
proof -
  assume n: "n \<le> 2 ^ 53"
  let ?r = "int n * 2 ^ 60"
  have e: "int (n * n) * 4 ^ 60 = ?r * ?r" by (simp add: power_mult_distrib[symmetric] flip: power_add)
  have "isqrt (?r * ?r) = ?r" by (rule isqrt_unique) (simp_all add: algebra_simps)
  then have "math_sqrt (n * n) = fl (of_int (int n))" unfolding math_sqrt_def e Let_def by simp
  also have "\<dots> = num_int (int n)" using n by (intro fl_of_int) (metis abs_of_nat of_nat_le_iff of_nat_numeral of_nat_power)
  finally show ?thesis .
qed

lemma fl_cases: "0 \<le> x \<Longrightarrow> fl x = PInf \<or> fl x = Fin (rnd x)"
  using rnd_nonneg[of x] huge_pos by (auto simp: fl_def Let_def)

lemma numBuckets_range:
  assumes "0 < n"
  shows "\<exists>r. numBuckets n = Fin r \<and> 1 \<le> r \<and> r \<le> 175 \<and> dbl r"
proof -
  define x where "x = (of_int (isqrt (int n * 4 ^ 60)) + (if isqrt (int n * 4 ^ 60) * isqrt (int n * 4 ^ 60) = int n * 4 ^ 60 then 0 else 1 / 2)) / (2 :: rat) ^ 60"
  have "2 ^ 60 * 2 ^ 60 \<le> int n * (4 ^ 60 :: int)" using assms by simp
  then have "\<not> isqrt (int n * 4 ^ 60) < 2 ^ 60"
    using isqrt_bounds[of "int n * 4 ^ 60"] mult_mono'[of "isqrt (int n * 4 ^ 60) + 1" "2 ^ 60" "isqrt (int n * 4 ^ 60) + 1" "2 ^ 60"] by auto
  then have "(2 :: rat) ^ 60 \<le> of_int (isqrt (int n * 4 ^ 60))" by (metis not_less of_int_le_iff of_int_numeral of_int_power)
  then have x: "1 \<le> x" by (simp add: x_def field_simps)
  have s: "math_sqrt n = fl x" by (simp add: math_sqrt_def x_def Let_def)
  have d: "dbl 1" "dbl 175" using dbl_of_int[of 1] dbl_of_int[of 175] by simp_all
  have "1 \<le> rnd x" using rnd_ge_dbl[OF x d(1)] .
  then show ?thesis using fl_cases[of x] x d
    by (auto simp: numBuckets_def HISTOGRAM_WIDTH_def math_min_def s)
qed

subsection \<open>Buckets\<close>

lemma rnd_near:
  assumes "1/2 \<le> y" "y \<le> 200"
  shows "y - 1/8 < rnd y" "rnd y < y + 1/8"
proof -
  have "\<bar>rnd y - y\<bar> \<le> y / 2 ^ 53" by (rule rnd_relative_error[OF assms(1)])
  moreover have "y / 2 ^ 53 < 1/8" using assms(2) by simp
  ultimately show "y - 1/8 < rnd y" "rnd y < y + 1/8" by linarith+
qed

text \<open>
  The arithmetic of one point: \<open>R\<close> is the spread of the data, \<open>nb\<close> the number of buckets, \<open>d\<close> the distance
  of the point from the least one.
\<close>

lemma bucket_arith:
  assumes nb: "1 \<le> nb" "nb \<le> 175" and R: "2 powi (- 1000) \<le> R" and d: "0 \<le> d" "d \<le> R"
  shows "0 < rnd (R / nb)" "0 \<le> rnd (d / rnd (R / nb))" "rnd (d / rnd (R / nb)) < nb + 1/2" "nb + 1/2 < rnd (nb + 1)"
proof -
  have "(2 :: rat) powi (- 1022) * 175 \<le> 2 powi (- 1000)" by (simp add: power_int_minus field_simps)
  also note R
  finally have "2 powi (- 1022) * nb \<le> R" using nb powi_pos[of "- 1022"] by (meson mult_left_mono less_imp_le order_trans)
  then have q: "2 powi (- 1022) \<le> R / nb" using nb by (simp add: field_simps)
  define B where "B = rnd (R / nb)"
  have qp: "0 < R / nb" using q powi_pos[of "- 1022"] by linarith
  have "R / nb - (R / nb) / 2 ^ 53 \<le> B" using rnd_relative[OF q] unfolding B_def by linarith
  then have Bl: "(R / nb) * (1 - 1 / 2 ^ 53) \<le> B" by (simp add: algebra_simps)
  moreover have "0 < (R / nb) * (1 - 1 / 2 ^ 53)" using qp by simp
  ultimately have B: "0 < B" by linarith
  then show "0 < rnd (R / nb)" unfolding B_def .
  have dB: "0 \<le> d / B" using d B by simp
  then show "0 \<le> rnd (d / rnd (R / nb))" unfolding B_def[symmetric] by (rule rnd_nonneg)
  have "R * (1 - 1 / 2 ^ 53) \<le> nb * B" using Bl nb by (simp add: field_simps)
  moreover have "R * (1 - 1 / 2 ^ 53) = R - R / 2 ^ 53" by (simp add: algebra_simps)
  ultimately have "R - R / 2 ^ 53 \<le> nb * B" by simp
  moreover have "R / 2 ^ 53 \<le> (1/4) * B"
  proof -
    have "R / 2 ^ 53 \<le> (1/4) * ((R / nb) * (1 - 1 / 2 ^ 53))" using nb qp by (simp add: field_simps)
    then show ?thesis using Bl by linarith
  qed
  ultimately have "R \<le> (nb + 1/4) * B" by (simp add: algebra_simps)
  then have "d / B \<le> nb + 1/4" using d B by (simp add: field_simps)
  from rnd_mono[OF this] have "rnd (d / B) \<le> rnd (nb + 1/4)" .
  also have "rnd (nb + 1/4) < nb + 1/2" using rnd_near(2)[of "nb + 1/4"] nb by linarith
  finally show "rnd (d / rnd (R / nb)) < nb + 1/2" unfolding B_def .
  show "nb + 1/2 < rnd (nb + 1)" using rnd_near(1)[of "nb + 1"] nb by linarith
qed

text \<open>The least and the greatest of finite data.\<close>

lemma dataMin_dataMax:
  assumes "vs \<noteq> []" "\<And>v. v \<in> set vs \<Longrightarrow> to_num v = Fin (g v)"
  shows "dataMin vs = Fin (Min (g ` set vs)) \<and> dataMax vs = Fin (Max (g ` set vs))"
  using assms
proof (induction vs rule: rev_nonempty_induct)
  case (single v)
  then show ?case by (simp add: dataMin_def dataMax_def math_min_def math_max_def)
next
  case (snoc v vs)
  then have "dataMin vs = Fin (Min (g ` set vs))" "dataMax vs = Fin (Max (g ` set vs))" "to_num v = Fin (g v)" by simp_all
  moreover have "Min (g ` set (vs @ [v])) = min (g v) (Min (g ` set vs))" "Max (g ` set (vs @ [v])) = max (g v) (Max (g ` set vs))"
    using snoc(1) by simp_all
  ultimately show ?case
    by (simp add: dataMin_def dataMax_def math_min_def math_max_def min_def max_def)
qed

lemma bump_counts:
  assumes "\<forall>x \<in> set xs. k x < n" "length xs \<le> 2 ^ 53"
  shows "foldl (\<lambda>h x. bump h (num_int (int (k x)))) (replicate n (JNum (Fin 0))) xs =
    map (\<lambda>i. JNum (num_int (int (length (filter (\<lambda>x. k x = i) xs))))) [0..<n]"
  using assms
proof (induction xs rule: rev_induct)
  case Nil
  then show ?case by (simp add: map_replicate_const)
next
  case (snoc x xs)
  let ?count = "\<lambda>xs i. JNum (num_int (int (length (filter (\<lambda>x. k x = i) xs))))"
  let ?c = "length (filter (\<lambda>y. k y = k x) xs)"
  have k: "k x < n" using snoc.prems by simp
  have "?c + 1 \<le> length (xs @ [x])" by simp
  also note snoc.prems(2)
  finally have "int (?c + 1) \<le> int (2 ^ 53)" by (simp only: of_nat_le_iff)
  then have "int ?c + 1 \<le> 2 ^ 53" by simp
  then have "js_add (num_int (int ?c)) (num_int 1) = num_int (int ?c + 1)" by (intro js_add_int) simp
  then have add: "js_add (Fin (of_nat ?c)) (Fin 1) = Fin (of_nat ?c + 1)" by (simp del: js_add.simps)
  have "foldl (\<lambda>h x. bump h (num_int (int (k x)))) (replicate n (JNum (Fin 0))) xs = map (?count xs) [0..<n]"
    using snoc by simp
  then have "foldl (\<lambda>h x. bump h (num_int (int (k x)))) (replicate n (JNum (Fin 0))) (xs @ [x]) =
      (map (?count xs) [0..<n])[k x := JNum (num_int (int ?c + 1))]"
    using k by (simp del: js_add.simps add: add Let_def)
  also have "\<dots> = map (?count (xs @ [x])) [0..<n]"
    by (rule nth_equalityI) (auto simp: nth_list_update)
  finally show ?case .
qed

lemma sum_counts:
  assumes "\<forall>x \<in> set xs. k x < n"
  shows "(\<Sum>i\<leftarrow>[0..<n]. length (filter (\<lambda>x. k x = i) xs)) = length xs"
proof -
  have "mset (concat (map (\<lambda>i. filter (\<lambda>x. k x = i) xs) [0..<n])) = mset (filter (\<lambda>x. k x \<in> set [0..<n]) xs)"
    by (rule mset_groups) simp
  also have "filter (\<lambda>x. k x \<in> set [0..<n]) xs = xs" using assms by simp
  finally have "length (concat (map (\<lambda>i. filter (\<lambda>x. k x = i) xs) [0..<n])) = length xs" by (rule mset_eq_length)
  then show ?thesis by (simp add: length_concat comp_def)
qed

lemma bucket_of_point:
  assumes lo: "0 \<le> lo" "is_double (Fin lo)" and hi: "is_double (Fin hi)" and spread: "2 powi (- 1000) \<le> hi - lo"
    and x: "lo \<le> x" "x \<le> hi" "is_double (Fin x)" and nb: "1 \<le> nb" "nb \<le> 175" "dbl nb"
  defines "bs \<equiv> js_div (js_sub (Fin hi) (Fin lo)) (Fin nb)"
  shows "\<exists>B. bs = Fin B \<and> 0 < B"
    and "\<exists>i. bucket_of (Fin lo) bs (JNum (Fin x)) = num_int (int i) \<and> i < nat \<lceil>rnd (nb + 1)\<rceil>"
proof -
  define R where "R = rnd (hi - lo)"
  define d where "d = rnd (x - lo)"
  have R: "js_sub (Fin hi) (Fin lo) = Fin R" and dl: "js_sub (Fin x) (Fin lo) = Fin d"
    using fl_shrink[OF hi, of "hi - lo"] fl_shrink[OF x(3), of "x - lo"] lo(1) x spread powi_pos[of "- 1000"]
    by (auto simp: R_def d_def js_sub_def)
  have Rl: "2 powi (- 1000) \<le> R" unfolding R_def by (rule rnd_ge_dbl[OF spread dbl_powi]) simp
  have d: "0 \<le> d" "d \<le> R" unfolding R_def d_def using x by (auto intro: rnd_nonneg rnd_mono)
  note a = bucket_arith[OF nb(1,2) Rl d]
  have Rp: "0 < R" using Rl powi_pos[of "- 1000"] by linarith
  have "is_double (js_sub (Fin hi) (Fin lo))" using is_double_fl[of "hi - lo"] by (simp add: js_sub_def)
  then have "is_double (Fin R)" using R by simp
  moreover have "\<bar>R / nb\<bar> \<le> \<bar>R\<bar>" using Rp nb mult_left_mono[of 1 nb R] by (simp add: field_simps)
  ultimately have B: "bs = Fin (rnd (R / nb))" unfolding bs_def R using nb(1) fl_shrink[of R "R / nb"] by simp
  then show "\<exists>B. bs = Fin B \<and> 0 < B" using a(1) by blast
  let ?q = "d / rnd (R / nb)"
  have "rnd ?q < huge" using a(3) nb(2) power_less_huge[of 8] by simp
  then have q: "js_div (Fin d) bs = Fin (rnd ?q)" using a(1,2) B fl_def[of ?q] huge_pos by (simp add: Let_def)
  have "bucket_of (Fin lo) bs (JNum (Fin x)) = Fin (of_int \<lfloor>rnd ?q\<rfloor>)" by (simp add: bucket_of_def dl q del: js_div.simps)
  moreover have "0 \<le> \<lfloor>rnd ?q\<rfloor>" using a(2) by simp
  moreover have "\<lfloor>rnd ?q\<rfloor> < \<lceil>rnd (nb + 1)\<rceil>"
    using a(3,4) le_of_int_ceiling[of "rnd (nb + 1)"] of_int_floor_le[of "rnd ?q"] by linarith
  ultimately show "\<exists>i. bucket_of (Fin lo) bs (JNum (Fin x)) = num_int (int i) \<and> i < nat \<lceil>rnd (nb + 1)\<rceil>"
    using a(4) nb(1) by (intro exI[of _ "nat \<lfloor>rnd ?q\<rfloor>"]) simp
qed

definition points :: "rat list \<Rightarrow> jv list" where
  "points xs = map (\<lambda>x. JNum (Fin x)) xs"

lemma points_simps [simp]:
  "length (points xs) = length xs"
  "foldl g h (points xs) = foldl (\<lambda>h x. g h (JNum (Fin x))) h xs"
  by (simp_all add: points_def foldl_map)

lemma data_of_points:
  assumes "xs \<noteq> []"
  shows "dataMin (points xs) = Fin (Min (set xs))" "dataMax (points xs) = Fin (Max (set xs))"
proof -
  define g where "g v = (case v of JNum (Fin x) \<Rightarrow> x | _ \<Rightarrow> 0)" for v
  have "g ` set (points xs) = set xs" by (force simp: points_def g_def)
  moreover have "to_num v = Fin (g v)" if "v \<in> set (points xs)" for v using that by (auto simp: points_def g_def)
  moreover have "points xs \<noteq> []" using assms by (simp add: points_def)
  ultimately show "dataMin (points xs) = Fin (Min (set xs))" "dataMax (points xs) = Fin (Max (set xs))"
    using dataMin_dataMax[of "points xs" g] by simp_all
qed

text \<open>Values that differ: the histogram counts, bucket by bucket, the values of a function \<open>k\<close> below the number of buckets.\<close>

lemma histogram_spread:
  assumes "xs \<noteq> []" "length xs \<le> 2 ^ 53" "\<forall>x \<in> set xs. 0 \<le> x \<and> is_double (Fin x)" "2 powi (- 1000) \<le> Max (set xs) - Min (set xs)"
  obtains k n where "\<forall>x \<in> set xs. bucket_of (dataMin (points xs)) (bucketSize (points xs)) (JNum (Fin x)) = num_int (int (k x)) \<and> k x < n" "n \<le> 176"
    "histogramData (points xs) = map (\<lambda>i. JNum (num_int (int (length (filter (\<lambda>x. k x = i) xs))))) [0..<n]"
proof -
  let ?lo = "Min (set xs)" and ?hi = "Max (set xs)"
  have mem: "?lo \<in> set xs" "?hi \<in> set xs" using assms(1) by simp_all
  obtain nb where nb: "numBuckets (length xs) = Fin nb" "1 \<le> nb" "nb \<le> 175" "dbl nb"
    using numBuckets_range[of "length xs"] assms(1) by auto
  define bs where "bs = bucketSize (points xs)"
  have bs: "bs = js_div (js_sub (Fin ?hi) (Fin ?lo)) (Fin nb)"
    by (simp add: bs_def bucketSize_def data_of_points[OF assms(1)] nb(1) del: js_div.simps)
  let ?n = "nat \<lceil>rnd (nb + 1)\<rceil>"
  have d: "0 \<le> ?lo" "is_double (Fin ?lo)" "is_double (Fin ?hi)" using mem assms(3) by blast+
  note pt = bucket_of_point[OF d assms(4) _ _ _ nb(2-4), folded bs]
  have "\<exists>i. bucket_of (Fin ?lo) bs (JNum (Fin x)) = num_int (int i) \<and> i < ?n" if "x \<in> set xs" for x
    by (rule pt(2)) (use that assms(3) in auto)
  then obtain k where k: "\<forall>x \<in> set xs. bucket_of (Fin ?lo) bs (JNum (Fin x)) = num_int (int (k x)) \<and> k x < ?n" by metis
  obtain B where "bs = Fin B" "0 < B" using pt(1)[of ?lo, OF order_refl _ d(2)] mem(1) by auto
  then have "\<not> js_eq bs (Fin 0)" by (simp add: js_eq_def)
  moreover have r: "rnd (nb + 1) \<le> 176" using rnd_le_dbl[of "nb + 1" 176] dbl_of_int[of 176] nb(3) by simp
  then have "js_add (Fin nb) (Fin 1) = Fin (rnd (nb + 1))"
    using rnd_nonneg[of "nb + 1"] nb power_less_huge[of 8] by (simp add: fl_def Let_def)
  ultimately have "histogramData (points xs) = foldl (\<lambda>h x. bump h (bucket_of (Fin ?lo) bs (JNum (Fin x)))) (replicate ?n (JNum (Fin 0))) xs"
    by (simp add: histogramData_def bs_def[symmetric] data_of_points[OF assms(1)] nb(1) del: js_add.simps)
  also have "\<dots> = foldl (\<lambda>h x. bump h (num_int (int (k x)))) (replicate ?n (JNum (Fin 0))) xs"
    by (rule foldl_cong) (simp_all add: k)
  also have "\<dots> = map (\<lambda>i. JNum (num_int (int (length (filter (\<lambda>x. k x = i) xs))))) [0..<?n]"
    by (rule bump_counts) (use k assms(2) in auto)
  finally have h: "histogramData (points xs) = map (\<lambda>i. JNum (num_int (int (length (filter (\<lambda>x. k x = i) xs))))) [0..<?n]" .
  have "\<lceil>rnd (nb + 1)\<rceil> \<le> 176" using r by (simp add: ceiling_le_iff)
  then have "?n \<le> 176" by linarith
  then show ?thesis using that[of k ?n] k h by (simp add: bs_def data_of_points[OF assms(1)])
qed

text \<open>
  C10. The histogram of a stage counts every task once.  For at most \<open>2 ^ 53\<close> task values, all finite,
  not negative and either equal or at least \<open>2 ^ -1000\<close> apart, the bars of the histogram are whole numbers
  that add up to the number of tasks; there are at most 176 bars, one alone when all values are equal,
  and otherwise the bar at \<open>i\<close> is the number of values whose bucket, the rounded quotient of the distance
  from the least value and the bucket size, is \<open>i\<close>: no value falls beyond the last bucket.
\<close>

theorem histogram_counts:
  assumes "xs \<noteq> []" "length xs \<le> 2 ^ 53" "\<forall>x \<in> set xs. 0 \<le> x \<and> is_double (Fin x)"
    and "Max (set xs) = Min (set xs) \<or> 2 powi (- 1000) \<le> Max (set xs) - Min (set xs)"
  shows "\<exists>cs. histogramData (points xs) = map (\<lambda>c. JNum (num_int (int c))) cs \<and> sum_list cs = length xs \<and> length cs \<le> 176 \<and>
    (if Max (set xs) = Min (set xs) then length cs = 1
     else \<forall>i < length cs. cs ! i =
       length (filter (\<lambda>x. bucket_of (dataMin (points xs)) (bucketSize (points xs)) (JNum (Fin x)) = num_int (int i)) xs))"
proof (cases "Max (set xs) = Min (set xs)")
  case True
  obtain nb where nb: "numBuckets (length xs) = Fin nb" "1 \<le> nb"
    using numBuckets_range[of "length xs"] assms(1) by auto
  then have "bucketSize (points xs) = Fin 0" using True
    by (simp add: bucketSize_def data_of_points[OF assms(1)] js_sub_def fl_def)
  then have "histogramData (points xs) = map (\<lambda>c. JNum (num_int (int c))) [length xs]"
    by (simp add: histogramData_def js_eq_def)
  then show ?thesis using True by (intro exI[of _ "[length xs]"]) simp
next
  case False
  then have "2 powi (- 1000) \<le> Max (set xs) - Min (set xs)" using assms(4) by blast
  from histogram_spread[OF assms(1-3) this] obtain k n where
    k: "\<forall>x \<in> set xs. bucket_of (dataMin (points xs)) (bucketSize (points xs)) (JNum (Fin x)) = num_int (int (k x)) \<and> k x < n" and n: "n \<le> 176"
    and h: "histogramData (points xs) = map (\<lambda>i. JNum (num_int (int (length (filter (\<lambda>x. k x = i) xs))))) [0..<n]" by blast
  let ?cs = "map (\<lambda>i. length (filter (\<lambda>x. k x = i) xs)) [0..<n]"
  have "filter (\<lambda>x. k x = i) xs = filter (\<lambda>x. bucket_of (dataMin (points xs)) (bucketSize (points xs)) (JNum (Fin x)) = num_int (int i)) xs" for i
    by (rule filter_cong) (simp_all add: k)
  moreover have "sum_list ?cs = length xs" by (rule sum_counts) (use k in blast)
  ultimately show ?thesis using False h n by (intro exI[of _ ?cs]) (simp add: comp_def)
qed

theorem histogram_counts_witness:
  "\<exists>cs. histogramData (points [10, 20, 30, 40, 10]) = map (\<lambda>c. JNum (num_int (int c))) cs \<and> sum_list cs = 5 \<and> length cs \<le> 176"
proof -
  have "\<forall>x \<in> set [10, 20, 30, 40, 10]. 0 \<le> x \<and> is_double (Fin x)" by code_simp
  moreover have "(2::rat) powi (- 1000) \<le> 1" by (simp add: power_int_minus)
  ultimately show ?thesis using histogram_counts[of "[10, 20, 30, 40, 10]"] by auto
qed

end
