(* ===== verification/StackTrace.thy ===== *)
theory StackTrace
  imports QueryInfo
begin

text \<open>
  \<^verbatim>\<open>src/components/QueryDetail.jsx\<close>, the texts of the class \<open>QueryDetail\<close>: the stack trace of a failure,
  in which the frames a nested failure shares with the one around it are left out, and the names of the
  resource estimates in snake case.
\<close>

section \<open>Stack traces\<close>

text \<open>The loop that counts the equal frames from the ends of two stacks.\<close>

function count_shared :: "string list \<Rightarrow> string list \<Rightarrow> nat \<Rightarrow> nat" where
  "count_shared stack parentStack n =
    (if n < min (length stack) (length parentStack)
        \<and> stack ! (length stack - 1 - n) = parentStack ! (length parentStack - 1 - n)
     then count_shared stack parentStack (n + 1) else n)"
  by pat_completeness auto
termination
  by (relation "measure (\<lambda>(s, p, n). length s - n)") auto

declare count_shared.simps [simp del]

definition countSharedStackFrames :: "string list \<Rightarrow> string list \<Rightarrow> nat" where
  "countSharedStackFrames stack parentStack = count_shared stack parentStack 0"

text \<open>A message that is \<open>undefined\<close> is not \<open>null\<close> and is printed as such.\<close>

definition failureInfoToString :: "failure_info \<Rightarrow> string" where
  "failureInfoToString t =
    (case fi_message t of
       Some None \<Rightarrow> fi_type t
     | Some (Some m) \<Rightarrow> fi_type t @ '': '' @ m
     | None \<Rightarrow> fi_type t @ '': undefined'')"

abbreviation newline :: string where
  "newline \<equiv> [CHR 10]"

abbreviation tab :: string where
  "tab \<equiv> [CHR 9]"

definition frame_line :: "string \<Rightarrow> string \<Rightarrow> string" where
  "frame_line linePrefix frame = linePrefix @ tab @ ''at '' @ frame @ newline"

definition more_line :: "string \<Rightarrow> nat \<Rightarrow> string" where
  "more_line linePrefix n =
    (if n \<noteq> 0 then linePrefix @ tab @ ''... '' @ num_to_string (num_int (int n)) @ '' more'' @ newline else [])"

text \<open>
  The frames of one failure.  A stack is missing (\<open>None\<close>, the value \<open>undefined\<close>), \<open>null\<close> (\<open>Some None\<close>) or an array.  A
  parent stack of \<open>null\<close> shares no frames; \<open>undefined\<close> is not \<open>null\<close>, and reading its length throws.
\<close>

definition stack_lines :: "js_stack \<Rightarrow> js_stack \<Rightarrow> string \<Rightarrow> string throws" where
  "stack_lines stack parentStack linePrefix =
    (case stack of
       Some (Some st) \<Rightarrow> do {
         parent \<leftarrow> parentStack;
         let sharedStackFrames = (case parent of None \<Rightarrow> 0 | Some p \<Rightarrow> countSharedStackFrames st p);
         Some (concat (map (frame_line linePrefix) (take (length st - sharedStackFrames) st)) @ more_line linePrefix sharedStackFrames) }
     | _ \<Rightarrow> Some [])"

definition fi_suppressed_list :: "failure_info \<Rightarrow> failure_info list" where
  "fi_suppressed_list info = (case fi_suppressed info of None \<Rightarrow> [] | Some fs \<Rightarrow> fs)"

lemma size_suppressed [termination_simp]: "f \<in> set (fi_suppressed_list info) \<Longrightarrow> size f < size info"
proof -
  assume f: "f \<in> set (fi_suppressed_list info)"
  then obtain fs where fs: "fi_suppressed info = Some fs" "f \<in> set fs" by (cases "fi_suppressed info") (auto simp: fi_suppressed_list_def)
  then have "size f \<le> size_list size fs" by (metis size_list_estimation' order_refl)
  then show "size f < size info" using fs(1) by (cases info) simp
qed

lemma size_cause [termination_simp]: "fi_cause info = Some f \<Longrightarrow> size f < size info"
  by (cases info) simp

function formatStackTraceHelper :: "failure_info \<Rightarrow> js_stack \<Rightarrow> string \<Rightarrow> string \<Rightarrow> string throws" where
  "formatStackTraceHelper info parentStack pre linePrefix =
    do {
      frames \<leftarrow> stack_lines (fi_stack info) parentStack linePrefix;
      suppressed \<leftarrow> mapM (\<lambda>f. formatStackTraceHelper f (fi_stack info) ''Suppressed: '' (linePrefix @ tab)) (fi_suppressed_list info);
      cause \<leftarrow> (case fi_cause info of
        None \<Rightarrow> Some []
      | Some f \<Rightarrow> formatStackTraceHelper f (fi_stack info) ''Caused by: '' linePrefix);
      Some (linePrefix @ pre @ failureInfoToString info @ newline @ frames @ concat suppressed @ cause) }"
  by pat_completeness auto
termination
  by (relation "measure (\<lambda>(info, p, pre, lp). size info)") (auto dest: size_suppressed size_cause)

declare formatStackTraceHelper.simps [simp del]

definition formatStackTrace :: "failure_info \<Rightarrow> string throws" where
  "formatStackTrace info = formatStackTraceHelper info (Some (Some [])) [] []"

section \<open>Resource estimates\<close>

text \<open>\<open>s.replace(new RegExp(c), r)\<close> for a capital letter \<open>c\<close> and a replacement without \<open>$\<close>: the first occurrence.\<close>

fun replace_first :: "char \<Rightarrow> string \<Rightarrow> string \<Rightarrow> string" where
  "replace_first c r [] = []"
| "replace_first c r (x # s) = (if x = c then r @ s else x # replace_first c r s)"

definition snakeCased :: "string \<Rightarrow> string" where
  "snakeCased resource = foldl (\<lambda>s c. replace_first c (CHR ''_'' # toLowerCase [c]) s) resource (filter is_upper resource)"

section \<open>Laws\<close>

subsection \<open>Shared frames\<close>

text \<open>The longest common end of two stacks.\<close>

definition common_end :: "string list \<Rightarrow> string list \<Rightarrow> string list" where
  "common_end xs ys = rev (longest_common_prefix (rev xs) (rev ys))"

lemma count_shared_prefix:
  "n \<le> min (length xs) (length ys) \<Longrightarrow>
    count_shared xs ys n = n + length (longest_common_prefix (drop n (rev xs)) (drop n (rev ys)))"
proof (induction xs ys n rule: count_shared.induct)
  case (1 xs ys n)
  show ?case
  proof (cases "n < min (length xs) (length ys)")
    case True
    then have d: "drop n (rev xs) = rev xs ! n # drop (Suc n) (rev xs)" "drop n (rev ys) = rev ys ! n # drop (Suc n) (rev ys)"
      by (simp_all add: Cons_nth_drop_Suc)
    have e: "rev xs ! n = xs ! (length xs - 1 - n)" "rev ys ! n = ys ! (length ys - 1 - n)" using True by (simp_all add: rev_nth)
    show ?thesis
    proof (cases "xs ! (length xs - 1 - n) = ys ! (length ys - 1 - n)")
      case eq: True
      then have "count_shared xs ys n = count_shared xs ys (n + 1)" using True by (subst count_shared.simps) simp
      also have "\<dots> = (n + 1) + length (longest_common_prefix (drop (n + 1) (rev xs)) (drop (n + 1) (rev ys)))"
        using 1 True eq by simp
      finally show ?thesis using e eq by (simp add: d)
    next
      case False
      then have "count_shared xs ys n = n" by (subst count_shared.simps) simp
      then show ?thesis using e False by (simp add: d)
    qed
  next
    case False
    then have "drop n (rev xs) = [] \<or> drop n (rev ys) = []" "count_shared xs ys n = n"
      using 1(2) by (auto simp: count_shared.simps[of xs ys n])
    then show ?thesis by (cases "drop n (rev xs)"; cases "drop n (rev ys)") auto
  qed
qed

lemma countSharedStackFrames_common_end: "countSharedStackFrames xs ys = length (common_end xs ys)"
  by (simp add: countSharedStackFrames_def count_shared_prefix common_end_def)

lemma common_end_suffix: "suffix (common_end xs ys) xs" "suffix (common_end xs ys) ys"
  unfolding common_end_def suffix_to_prefix rev_rev_ident
  by (rule longest_common_prefix_prefix1, rule longest_common_prefix_prefix2)

lemma common_end_max: "suffix zs xs \<Longrightarrow> suffix zs ys \<Longrightarrow> suffix zs (common_end xs ys)"
  unfolding common_end_def suffix_to_prefix rev_rev_ident by (rule longest_common_prefix_max_prefix)

lemma suffix_split: "suffix zs xs \<Longrightarrow> take (length xs - length zs) xs @ zs = xs"
  by (auto elim!: suffixE)

subsection \<open>Traces\<close>

text \<open>
  The failures of a trace in the order they are printed, each with the stack of the failure around it and
  the two prefixes of its lines.
\<close>

definition inner_failures :: "failure_info \<Rightarrow> string \<Rightarrow> (string \<times> string \<times> failure_info) list" where
  "inner_failures info lp =
    map (\<lambda>f. (''Suppressed: '', lp @ tab, f)) (fi_suppressed_list info) @
    (case fi_cause info of None \<Rightarrow> [] | Some f \<Rightarrow> [(''Caused by: '', lp, f)])"

lemma size_inner [termination_simp]: "(pre, lp', f) \<in> set (inner_failures info lp) \<Longrightarrow> size f < size info"
  by (cases "fi_cause info") (auto simp: inner_failures_def dest: size_suppressed size_cause)

function trace_failures :: "js_stack \<Rightarrow> string \<Rightarrow> string \<Rightarrow> failure_info \<Rightarrow> (js_stack \<times> string \<times> string \<times> failure_info) list" where
  "trace_failures parent pre lp info =
    (parent, pre, lp, info) # concat (map (\<lambda>(pre', lp', f). trace_failures (fi_stack info) pre' lp' f) (inner_failures info lp))"
  by pat_completeness auto
termination
  by (relation "measure (\<lambda>(p, pre, lp, info). size info)") (auto dest: size_inner)

declare trace_failures.simps [simp del]

fun trace_section :: "js_stack \<times> string \<times> string \<times> failure_info \<Rightarrow> string throws" where
  "trace_section (parent, pre, lp, info) =
    map_option (\<lambda>t. lp @ pre @ failureInfoToString info @ newline @ t) (stack_lines (fi_stack info) parent lp)"

lemma mapM_concat: "mapM f (concat xss) = map_option concat (mapM (mapM f) xss)"
  by (induction xss) (auto simp: mapM_append split: option.splits bind_splits)

lemma mapM_map_option: "mapM (\<lambda>x. map_option g (f x)) xs = map_option (map g) (mapM f xs)"
  by (induction xs) (auto split: bind_splits)

lemma helper_sections:
  "formatStackTraceHelper info parent pre lp = map_option concat (mapM trace_section (trace_failures parent pre lp info))"
proof (induction info arbitrary: parent pre lp rule: measure_induct_rule[where f = size])
  case (less info)
  let ?sub = "\<lambda>(pre', lp', f). formatStackTraceHelper f (fi_stack info) pre' lp'"
  let ?sections = "\<lambda>(pre', lp', f). mapM trace_section (trace_failures (fi_stack info) pre' lp' f)"
  have "formatStackTraceHelper info parent pre lp =
      do { t \<leftarrow> stack_lines (fi_stack info) parent lp; us \<leftarrow> mapM ?sub (inner_failures info lp);
           Some (lp @ pre @ failureInfoToString info @ newline @ t @ concat us) }"
    by (subst formatStackTraceHelper.simps)
      (cases "fi_cause info"; auto simp: inner_failures_def mapM_append mapM_map comp_def split: option.splits bind_splits)
  also have "mapM ?sub (inner_failures info lp) = mapM (\<lambda>x. map_option concat (?sections x)) (inner_failures info lp)"
    by (rule mapM_cong[OF refl]) (auto simp: less.IH[OF size_inner])
  also have "\<dots> = map_option (map concat) (mapM ?sections (inner_failures info lp))" by (rule mapM_map_option)
  finally show ?case
    by (subst trace_failures.simps)
      (cases "stack_lines (fi_stack info) parent lp"; cases "mapM ?sections (inner_failures info lp)";
        simp add: mapM_concat mapM_map comp_def case_prod_unfold concat_concat)
qed

text \<open>The text of one failure, by the longest common end of its stack and the one around it.\<close>

fun section_text :: "js_stack \<times> string \<times> string \<times> failure_info \<Rightarrow> string" where
  "section_text (parent, pre, lp, f) =
    lp @ pre @ failureInfoToString f @ newline @
    (case fi_stack f of
       Some (Some st) \<Rightarrow>
         let c = (case parent of Some (Some p) \<Rightarrow> common_end st p | _ \<Rightarrow> [])
         in concat (map (frame_line lp) (take (length st - length c) st)) @ more_line lp (length c)
     | _ \<Rightarrow> [])"

fun orphan_stack :: "js_stack \<times> string \<times> string \<times> failure_info \<Rightarrow> bool" where
  "orphan_stack (parent, pre, lp, f) \<longleftrightarrow> fi_stack f \<notin> {None, Some None} \<and> parent = None"

lemma trace_section_text: "trace_section x = (if orphan_stack x then None else Some (section_text x))"
  by (cases x) (auto simp: stack_lines_def countSharedStackFrames_common_end Let_def split: option.split)

text \<open>
  C12. The stack trace of a failure: it throws exactly when a failure with a stack stands inside one
  whose stack is missing (and not \<open>null\<close>); otherwise it is the texts of the failure and of all failures
  inside it, the suppressed ones before the cause, each with its own prefix.  Of each stack the longest
  common end with the stack of the failure around it is left out and counted, so that the frames printed
  and that end of the outer stack together are the whole stack.
\<close>

theorem formatStackTrace_sections:
  "formatStackTrace info =
      (let fs = trace_failures (Some (Some [])) [] [] info
       in if list_ex orphan_stack fs then None else Some (concat (map section_text fs)))
   \<and> (\<forall>st p. take (length st - length (common_end st p)) st @ common_end st p = st)
   \<and> (\<forall>st p zs. suffix zs st \<and> suffix zs p \<longleftrightarrow> suffix zs (common_end st p))"
proof -
  let ?fs = "trace_failures (Some (Some [])) [] [] info"
  have "mapM trace_section ?fs = (if list_ex orphan_stack ?fs then None else Some (map section_text ?fs))"
  proof (cases "list_ex orphan_stack ?fs")
    case True
    then show ?thesis by (simp add: mapM_eq_None trace_section_text list_ex_iff)
  next
    case False
    then show ?thesis using mapM_pure[of ?fs trace_section section_text] by (simp add: trace_section_text list_ex_iff)
  qed
  then have "formatStackTrace info = (let fs = ?fs in if list_ex orphan_stack fs then None else Some (concat (map section_text fs)))"
    by (simp add: formatStackTrace_def helper_sections Let_def)
  moreover have "suffix zs st \<and> suffix zs p \<longleftrightarrow> suffix zs (common_end st p)" for st p zs
    by (meson common_end_max common_end_suffix suffix_order.trans)
  ultimately show ?thesis using suffix_split[OF common_end_suffix(1)] by blast
qed

text \<open>A trace in which no stack is missing is printed.\<close>

lemma formatStackTrace_returns:
  assumes "list_all (\<lambda>(p, pre, lp, f). fi_stack f \<noteq> None) (trace_failures (Some (Some [])) [] [] info)"
  shows "formatStackTrace info \<noteq> None"
proof -
  have "parent \<noteq> None" if "list_all (\<lambda>(p, pre, lp, f). fi_stack f \<noteq> None) (trace_failures parent0 pre0 lp0 f0)" "parent0 \<noteq> None"
    "(parent, pre, lp, f) \<in> set (trace_failures parent0 pre0 lp0 f0)" for parent0 pre0 lp0 f0 parent pre lp f
    using that
  proof (induction f0 arbitrary: parent0 pre0 lp0 rule: measure_induct_rule[where f = size])
    case (less f0)
    from less.prems(3) consider "parent = parent0"
      | pre' lp' g where "(pre', lp', g) \<in> set (inner_failures f0 lp0)" "(parent, pre, lp, f) \<in> set (trace_failures (fi_stack f0) pre' lp' g)"
      by (subst (asm) trace_failures.simps) auto
    then show ?case
    proof cases
      case 2
      have l: "list_all (\<lambda>(p, pre, lp, f). fi_stack f \<noteq> None) (trace_failures (fi_stack f0) pre' lp' g)" "fi_stack f0 \<noteq> None"
        using less.prems(1) 2(1) by (subst (asm) trace_failures.simps, force simp: list_all_iff)+
      show ?thesis by (rule less.IH[OF size_inner[OF 2(1)] l 2(2)])
    qed (use less.prems in simp)
  qed
  from this[OF assms] have "trace_section x \<noteq> None" if "x \<in> set (trace_failures (Some (Some [])) [] [] info)" for x
    using that by (cases x) (fastforce simp: trace_section_text)
  then show ?thesis by (simp add: formatStackTrace_def helper_sections mapM_eq_None)
qed

subsection \<open>Snake case\<close>

lemma lower_not_upper: "is_upper c \<Longrightarrow> \<not> is_upper (lower_char c)"
  by (auto simp: lower_char_def is_upper_def)

lemma replace_first_append: "c \<notin> set s \<Longrightarrow> replace_first c r (s @ c # t) = s @ r @ t"
  by (induction s) auto

lemma snake_from:
  "list_all (\<lambda>c. \<not> is_upper c) s \<Longrightarrow>
    foldl (\<lambda>s c. replace_first c (CHR ''_'' # toLowerCase [c]) s) (s @ t) (filter is_upper t)
    = s @ concat (map (\<lambda>c. if is_upper c then [CHR ''_'', lower_char c] else [c]) t)"
proof (induction t arbitrary: s)
  case (Cons c t)
  show ?case
  proof (cases "is_upper c")
    case True
    then have "c \<notin> set s" using Cons.prems by (auto simp: list_all_iff)
    moreover have "\<not> is_upper (CHR ''_'')" by code_simp
    ultimately show ?thesis
      using True Cons.IH[of "s @ [CHR ''_'', lower_char c]"] Cons.prems
      by (simp add: replace_first_append toLowerCase_def lower_not_upper)
  next
    case False
    then show ?thesis using Cons.IH[of "s @ [c]"] Cons.prems by simp
  qed
qed simp

text \<open>
  C25. The loop that turns the name of a resource estimate into snake case, replacing the first occurrence
  of each of its capitals in turn, is the translation letter by letter: every capital becomes an
  underscore and its small letter, and nothing else changes.
\<close>

theorem snakeCased_equiv:
  "snakeCased resource = concat (map (\<lambda>c. if is_upper c then [CHR ''_'', lower_char c] else [c]) resource)"
  using snake_from[of "[]" resource] by (simp add: snakeCased_def)

end
