(* ===== verification/QueryDetail.thy ===== *)
theory QueryDetail
  imports TaskList StageList StackTrace QueryHeader Polling
begin

text \<open>
  \<^verbatim>\<open>src/components/QueryDetail.jsx\<close>, the class \<open>QueryDetail\<close>: the page of one query, which polls the query
  until its final information has arrived, keeps histories of its rates, and shows the stages and the
  tasks, each either live or frozen by a click.  The page itself is rendered in \<open>QueryDetailView\<close>.
\<close>

section \<open>State\<close>

datatype task_filter = TF_ALL | TF_PLANNED | TF_RUNNING | TF_FINISHED | TF_FAILED

fun TASK_FILTER :: "task_filter \<Rightarrow> string \<Rightarrow> bool" where
  "TASK_FILTER TF_ALL state = True"
| "TASK_FILTER TF_PLANNED state = (state = ''PLANNED'')"
| "TASK_FILTER TF_RUNNING state = (state = ''RUNNING'')"
| "TASK_FILTER TF_FINISHED state = (state = ''FINISHED'')"
| "TASK_FILTER TF_FAILED state = (state = ''FAILED'' \<or> state = ''ABORTED'' \<or> state = ''CANCELED'')"

text \<open>
  A snapshot of the stages: \<open>null\<close> before the first answer, \<open>undefined\<close> when the query has no output stage or
  the property does not exist.  The constructor creates \<open>lastSnapshotStages\<close>, which only the click on the
  button of the stages writes; the refresh loop and the view use another property, \<open>lastSnapshotStage\<close>.
\<close>

datatype snapshot = SnNull | SnUndefined | SnStage stage_info

definition snapshot_of :: "query_info \<Rightarrow> snapshot" where
  "snapshot_of q = (case qi_outputStage q of None \<Rightarrow> SnUndefined | Some stage \<Rightarrow> SnStage stage)"

text \<open>
  \<open>qd_drawn\<close> and \<open>qd_highlighted\<close> record what the page has handed to the sparkline plugin last and whether
  the query text was on the page when the highlighter ran.
\<close>

record query_detail =
  qd_query :: "query_info option"
  qd_lastSnapshotStages :: snapshot
  qd_lastSnapshotStage :: snapshot
  qd_lastSnapshotTasks :: snapshot
  qd_lastScheduledTime :: jv
  qd_lastCpuTime :: jv
  qd_lastRowInput :: jv
  qd_lastByteInput :: jv
  qd_scheduledTimeRate :: "jv list"
  qd_cpuTimeRate :: "jv list"
  qd_rowInputRate :: "jv list"
  qd_byteInputRate :: "jv list"
  qd_reservedMemory :: "jv list"
  qd_initialized :: bool
  qd_ended :: bool
  qd_lastRefresh :: "int option"
  qd_lastRender :: "int option"
  qd_stageRefresh :: bool
  qd_taskRefresh :: bool
  qd_taskFilter :: task_filter
  qd_timeout :: timer
  qd_requests :: nat
  qd_drawn :: "sparkline list"
  qd_highlighted :: bool

definition QueryDetail_init :: query_detail where
  "QueryDetail_init =
    \<lparr> qd_query = None, qd_lastSnapshotStages = SnNull, qd_lastSnapshotStage = SnUndefined, qd_lastSnapshotTasks = SnNull,
      qd_lastScheduledTime = JNum (Fin 0), qd_lastCpuTime = JNum (Fin 0), qd_lastRowInput = JNum (Fin 0), qd_lastByteInput = JNum (Fin 0),
      qd_scheduledTimeRate = [], qd_cpuTimeRate = [], qd_rowInputRate = [], qd_byteInputRate = [], qd_reservedMemory = [],
      qd_initialized = False, qd_ended = False, qd_lastRefresh = None, qd_lastRender = None,
      qd_stageRefresh = True, qd_taskRefresh = True, qd_taskFilter = TF_ALL,
      qd_timeout = no_timer, qd_requests = 0, qd_drawn = [], qd_highlighted = False \<rparr>"

section \<open>Refreshing\<close>

definition qd_resetTimer :: "query_detail \<Rightarrow> query_detail" where
  "qd_resetTimer s =
    (let t = clearTimeout (qd_timeout s)
     in s\<lparr> qd_timeout := (if qd_query s = None \<or> \<not> qd_ended s then setTimeout 3000 t else t) \<rparr>)"

definition query_url :: "string \<Rightarrow> string" where
  "query_url search = ''/v1/query/'' @ getFirstParameter search"

definition qd_refreshLoop :: "query_detail \<Rightarrow> query_detail" where
  "qd_refreshLoop s = s\<lparr> qd_timeout := clearTimeout (qd_timeout s), qd_requests := Suc (qd_requests s) \<rparr>"

definition QueryDetail_mount :: query_detail where
  "QueryDetail_mount = qd_refreshLoop QueryDetail_init"

definition SMALL_SPARKLINE_PROPERTIES :: chart_properties where
  "SMALL_SPARKLINE_PROPERTIES =
    [(''width'', CvText ''100%''), (''height'', CvText ''57px''), (''fillColor'', CvText ''#3F4552''), (''lineColor'', CvText ''#747F96''),
     (''spotColor'', CvText ''#1EDCFF''), (''tooltipClassname'', CvText ''sparkline-tooltip''), (''disableHiddenCheck'', CvFlag True)]"

definition qd_sparklines :: "query_detail \<Rightarrow> sparkline list" where
  "qd_sparklines s =
    [sparkline ''#scheduled-time-rate-sparkline'' (qd_scheduledTimeRate s) SMALL_SPARKLINE_PROPERTIES
       [(''chartRangeMin'', CvNumber (Fin 0)), (''numberFormatter'', CvFormatter PrecisionRound)],
     sparkline ''#cpu-time-rate-sparkline'' (qd_cpuTimeRate s) SMALL_SPARKLINE_PROPERTIES
       [(''chartRangeMin'', CvNumber (Fin 0)), (''numberFormatter'', CvFormatter PrecisionRound)],
     sparkline ''#row-input-rate-sparkline'' (qd_rowInputRate s) SMALL_SPARKLINE_PROPERTIES
       [(''numberFormatter'', CvFormatter FormatCount)],
     sparkline ''#byte-input-rate-sparkline'' (qd_byteInputRate s) SMALL_SPARKLINE_PROPERTIES
       [(''numberFormatter'', CvFormatter FormatDataSize)],
     sparkline ''#reserved-memory-sparkline'' (qd_reservedMemory s) SMALL_SPARKLINE_PROPERTIES
       [(''numberFormatter'', CvFormatter FormatDataSize)]]"

text \<open>
  React calls \<open>componentDidUpdate\<close> after every update of the state, also after the one it makes itself.  The
  list holds the clock readings of the successive calls: for the test, and for \<open>renderTimestamp\<close>.
\<close>

fun qd_componentDidUpdate :: "(int \<times> int) list \<Rightarrow> query_detail \<Rightarrow> query_detail" where
  "qd_componentDidUpdate [] s = s"
| "qd_componentDidUpdate ((now, renderTimestamp) # calls) s =
    (if (case qd_lastRender s of None \<Rightarrow> True | Some t \<Rightarrow> 1000 \<le> now - t)
     then qd_componentDidUpdate calls
       (s\<lparr> qd_drawn := qd_sparklines s,
           qd_highlighted := (if qd_lastRender s = None then qd_query s \<noteq> None else qd_highlighted s),
           qd_lastRender := Some renderTimestamp \<rparr>)
     else s)"

text \<open>The first \<open>setState\<close> of the success callback; \<open>nowMillis\<close> is its reading of the clock.\<close>

definition qd_setQuery :: "query_info \<Rightarrow> int \<Rightarrow> query_detail \<Rightarrow> query_detail" where
  "qd_setQuery q nowMillis s =
    s\<lparr> qd_query := Some q,
       qd_lastSnapshotStage := (if qd_stageRefresh s then snapshot_of q else qd_lastSnapshotStage s),
       qd_lastSnapshotTasks := (if qd_taskRefresh s then snapshot_of q else qd_lastSnapshotTasks s),
       qd_lastScheduledTime := parseDuration (sd_totalScheduledTime (qi_stats q)),
       qd_lastCpuTime := parseDuration (totalCpuTime (queryStats q)),
       qd_lastRowInput := JNum (sd_processedInputPositions (qi_stats q)),
       qd_lastByteInput := parseDataSize (sd_processedInputDataSize (qi_stats q)),
       qd_initialized := True,
       qd_ended := qi_finalQueryInfo q,
       qd_lastRefresh := Some nowMillis \<rparr>"

text \<open>The seconds since the last refresh, or since the query was created when there was none.\<close>

definition elapsedSecsSinceLastRefresh :: "int option \<Rightarrow> int \<Rightarrow> query_info \<Rightarrow> jsnum" where
  "elapsedSecsSinceLastRefresh lastRefresh nowMillis q =
    (let l = (case lastRefresh of
       Some t \<Rightarrow> num_int t
     | None \<Rightarrow> js_sub (num_int nowMillis) (to_num (parseDuration (elapsedTime (queryStats q)))))
     in js_div (js_sub (num_int nowMillis) l) (Fin 1000))"

definition currentTimeRate :: "string \<Rightarrow> jv \<Rightarrow> jsnum \<Rightarrow> jsnum" where
  "currentTimeRate totalTime lastTime secs = js_div (js_sub (to_num (parseDuration totalTime)) (to_num lastTime)) (js_mul secs (Fin 1000))"

definition currentRowInputRate :: "query_info \<Rightarrow> jv \<Rightarrow> jsnum \<Rightarrow> jsnum" where
  "currentRowInputRate q lastRowInput secs = js_div (js_sub (sd_processedInputPositions (qi_stats q)) (to_num lastRowInput)) secs"

definition currentByteInputRate :: "query_info \<Rightarrow> jv \<Rightarrow> jsnum \<Rightarrow> jsnum" where
  "currentByteInputRate q lastByteInput secs =
    js_div (js_sub (to_num (parseDataSize (sd_processedInputDataSize (qi_stats q)))) (to_num lastByteInput)) secs"

text \<open>The second \<open>setState\<close>; \<open>old\<close> is the state before the answer, whose totals the callback read first.\<close>

definition qd_addRates :: "query_info \<Rightarrow> jsnum \<Rightarrow> query_detail \<Rightarrow> query_detail \<Rightarrow> query_detail" where
  "qd_addRates q secs old s =
    s\<lparr> qd_scheduledTimeRate := addToHistory
         (JNum (currentTimeRate (sd_totalScheduledTime (qi_stats q)) (qd_lastScheduledTime old) secs)) (qd_scheduledTimeRate s),
       qd_cpuTimeRate := addToHistory (JNum (currentTimeRate (totalCpuTime (queryStats q)) (qd_lastCpuTime old) secs)) (qd_cpuTimeRate s),
       qd_rowInputRate := addToHistory (JNum (currentRowInputRate q (qd_lastRowInput old) secs)) (qd_rowInputRate s),
       qd_byteInputRate := addToHistory (JNum (currentByteInputRate q (qd_lastByteInput old) secs)) (qd_byteInputRate s),
       qd_reservedMemory := addToHistory (parseDataSize (userMemoryReservation (queryStats q))) (qd_reservedMemory s) \<rparr>"

text \<open>The success callback; the two lists of calls belong to the updates after its two \<open>setState\<close>.\<close>

definition qd_onSuccess :: "query_info \<Rightarrow> int \<Rightarrow> (int \<times> int) list \<Rightarrow> (int \<times> int) list \<Rightarrow> query_detail \<Rightarrow> query_detail" where
  "qd_onSuccess q nowMillis calls1 calls2 s =
    (let s1 = qd_componentDidUpdate calls1 (qd_setQuery q nowMillis s);
         secs = elapsedSecsSinceLastRefresh (qd_lastRefresh s) nowMillis q
     in if qd_ended s \<or> (qd_lastRefresh s = None \<and> q_state q = ''RUNNING'') then qd_resetTimer s1
        else if js_le (Fin 0) secs then qd_resetTimer (qd_componentDidUpdate calls2 (qd_addRates q secs s s1))
        else qd_resetTimer s1)"

definition qd_onError :: "(int \<times> int) list \<Rightarrow> query_detail \<Rightarrow> query_detail" where
  "qd_onError calls s = qd_resetTimer (qd_componentDidUpdate calls (s\<lparr> qd_initialized := True \<rparr>))"

section \<open>Clicks\<close>

text \<open>The two buttons read the output stage of the query, which throws when there is no query.\<close>

definition handleTaskRefreshClick :: "query_detail \<Rightarrow> query_detail throws" where
  "handleTaskRefreshClick s =
    (if qd_taskRefresh s
     then do { q \<leftarrow> qd_query s; Some (s\<lparr> qd_taskRefresh := False, qd_lastSnapshotTasks := snapshot_of q \<rparr>) }
     else Some (s\<lparr> qd_taskRefresh := True \<rparr>))"

definition handleStageRefreshClick :: "query_detail \<Rightarrow> query_detail throws" where
  "handleStageRefreshClick s =
    (if qd_stageRefresh s
     then do { q \<leftarrow> qd_query s; Some (s\<lparr> qd_stageRefresh := False, qd_lastSnapshotStages := snapshot_of q \<rparr>) }
     else Some (s\<lparr> qd_stageRefresh := True \<rparr>))"

definition handleTaskFilterClick :: "task_filter \<Rightarrow> query_detail \<Rightarrow> query_detail" where
  "handleTaskFilterClick f s = s\<lparr> qd_taskFilter := f \<rparr>"

datatype qd_click = TaskRefreshClick | StageRefreshClick | TaskFilterClick task_filter

fun qd_handle :: "qd_click \<Rightarrow> query_detail \<Rightarrow> query_detail throws" where
  "qd_handle TaskRefreshClick s = handleTaskRefreshClick s"
| "qd_handle StageRefreshClick s = handleStageRefreshClick s"
| "qd_handle (TaskFilterClick f) s = Some (handleTaskFilterClick f s)"

datatype qd_event =
    QdTimer nat
  | QdSuccess query_info int "(int \<times> int) list" "(int \<times> int) list"
  | QdError "(int \<times> int) list"
  | QdClick qd_click "(int \<times> int) list"

fun qd_exec :: "qd_event \<Rightarrow> query_detail \<Rightarrow> query_detail option" where
  "qd_exec (QdTimer i) s = do { t \<leftarrow> fireTimeout i (qd_timeout s); Some (qd_refreshLoop (s\<lparr> qd_timeout := t \<rparr>)) }"
| "qd_exec (QdSuccess q now calls1 calls2) s =
    (if 0 < qd_requests s then Some (qd_onSuccess q now calls1 calls2 (s\<lparr> qd_requests := qd_requests s - 1 \<rparr>)) else None)"
| "qd_exec (QdError calls) s =
    (if 0 < qd_requests s then Some (qd_onError calls (s\<lparr> qd_requests := qd_requests s - 1 \<rparr>)) else None)"
| "qd_exec (QdClick c calls) s = do { s' \<leftarrow> qd_handle c s; Some (qd_componentDidUpdate calls s') }"

section \<open>Tasks\<close>

definition getTasksFromStage :: "snapshot \<Rightarrow> task_info list" where
  "getTasksFromStage sn = (case sn of SnStage stage \<Rightarrow> stage_tasks stage | _ \<Rightarrow> [])"

section \<open>Laws\<close>

subsection \<open>Updates\<close>

text \<open>Drawing changes only what is drawn.\<close>

lemma componentDidUpdate_frame [simp]:
  "qd_query (qd_componentDidUpdate calls s) = qd_query s"
  "qd_lastSnapshotStages (qd_componentDidUpdate calls s) = qd_lastSnapshotStages s"
  "qd_lastSnapshotStage (qd_componentDidUpdate calls s) = qd_lastSnapshotStage s"
  "qd_lastSnapshotTasks (qd_componentDidUpdate calls s) = qd_lastSnapshotTasks s"
  "qd_lastScheduledTime (qd_componentDidUpdate calls s) = qd_lastScheduledTime s"
  "qd_lastCpuTime (qd_componentDidUpdate calls s) = qd_lastCpuTime s"
  "qd_lastRowInput (qd_componentDidUpdate calls s) = qd_lastRowInput s"
  "qd_lastByteInput (qd_componentDidUpdate calls s) = qd_lastByteInput s"
  "qd_scheduledTimeRate (qd_componentDidUpdate calls s) = qd_scheduledTimeRate s"
  "qd_cpuTimeRate (qd_componentDidUpdate calls s) = qd_cpuTimeRate s"
  "qd_rowInputRate (qd_componentDidUpdate calls s) = qd_rowInputRate s"
  "qd_byteInputRate (qd_componentDidUpdate calls s) = qd_byteInputRate s"
  "qd_reservedMemory (qd_componentDidUpdate calls s) = qd_reservedMemory s"
  "qd_initialized (qd_componentDidUpdate calls s) = qd_initialized s"
  "qd_ended (qd_componentDidUpdate calls s) = qd_ended s"
  "qd_lastRefresh (qd_componentDidUpdate calls s) = qd_lastRefresh s"
  "qd_stageRefresh (qd_componentDidUpdate calls s) = qd_stageRefresh s"
  "qd_taskRefresh (qd_componentDidUpdate calls s) = qd_taskRefresh s"
  "qd_taskFilter (qd_componentDidUpdate calls s) = qd_taskFilter s"
  "qd_timeout (qd_componentDidUpdate calls s) = qd_timeout s"
  "qd_requests (qd_componentDidUpdate calls s) = qd_requests s"
  by (induction calls s rule: qd_componentDidUpdate.induct) simp_all

subsection \<open>Polling\<close>

fun qd_kind :: "qd_event \<Rightarrow> poll_kind" where
  "qd_kind (QdTimer i) = Fires i"
| "qd_kind (QdClick c calls) = Quiet"
| "qd_kind _ = Answers"

definition qd_polling :: "query_detail \<Rightarrow> bool" where
  "qd_polling s \<longleftrightarrow> qd_query s = None \<or> \<not> qd_ended s"

lemmas qd_click_defs = handleTaskRefreshClick_def handleStageRefreshClick_def handleTaskFilterClick_def

lemma qd_handle_frame:
  assumes "qd_handle c s = Some s'"
  shows "qd_timeout s' = qd_timeout s \<and> qd_requests s' = qd_requests s \<and> qd_query s' = qd_query s \<and> qd_ended s' = qd_ended s"
  using assms by (cases c) (auto simp: qd_click_defs split: if_splits bind_splits)

text \<open>A callback ends with \<open>resetTimer\<close> on a state with the timer it found.\<close>

lemma qd_resetTimer_frame [simp]:
  "qd_query (qd_resetTimer s) = qd_query s" "qd_ended (qd_resetTimer s) = qd_ended s" "qd_requests (qd_resetTimer s) = qd_requests s"
  by (simp_all add: qd_resetTimer_def Let_def)

lemma qd_setQuery_frame [simp]:
  "qd_timeout (qd_setQuery q now s) = qd_timeout s" "qd_requests (qd_setQuery q now s) = qd_requests s"
  "qd_query (qd_setQuery q now s) = Some q" "qd_ended (qd_setQuery q now s) = qi_finalQueryInfo q"
  by (simp_all add: qd_setQuery_def)

lemma qd_addRates_frame [simp]:
  "qd_timeout (qd_addRates q secs old s) = qd_timeout s" "qd_requests (qd_addRates q secs old s) = qd_requests s"
  "qd_query (qd_addRates q secs old s) = qd_query s" "qd_ended (qd_addRates q secs old s) = qd_ended s"
  by (simp_all add: qd_addRates_def)

lemma qd_onSuccess_resets:
  "\<exists>s1. qd_onSuccess q now calls1 calls2 s = qd_resetTimer s1 \<and> qd_timeout s1 = qd_timeout s \<and> qd_requests s1 = qd_requests s
    \<and> qd_query s1 = Some q \<and> qd_ended s1 = qi_finalQueryInfo q"
  unfolding qd_onSuccess_def Let_def by (cases "js_le (Fin 0) (elapsedSecsSinceLastRefresh (qd_lastRefresh s) now q)") auto

lemma qd_onError_resets:
  "\<exists>s1. qd_onError calls s = qd_resetTimer s1 \<and> qd_timeout s1 = qd_timeout s \<and> qd_requests s1 = qd_requests s
    \<and> qd_query s1 = qd_query s \<and> qd_ended s1 = qd_ended s"
  unfolding qd_onError_def by auto

lemma qd_answer_resets:
  assumes "qd_exec e s = Some s'" "qd_kind e = Answers"
  obtains s1 where "s' = qd_resetTimer s1" "qd_timeout s1 = qd_timeout s" "qd_requests s = Suc (qd_requests s1)"
proof (cases e)
  case (QdSuccess q now calls1 calls2)
  with assms have r: "0 < qd_requests s" "s' = qd_onSuccess q now calls1 calls2 (s\<lparr> qd_requests := qd_requests s - 1 \<rparr>)"
    by (auto split: if_splits)
  obtain s1 where "s' = qd_resetTimer s1" "qd_timeout s1 = qd_timeout s" "qd_requests s1 = qd_requests s - 1"
    using qd_onSuccess_resets[of q now calls1 calls2 "s\<lparr> qd_requests := qd_requests s - 1 \<rparr>"] r(2) by auto
  with r(1) show ?thesis by (intro that[of s1]) simp_all
next
  case (QdError calls)
  with assms have r: "0 < qd_requests s" "s' = qd_onError calls (s\<lparr> qd_requests := qd_requests s - 1 \<rparr>)"
    by (auto split: if_splits)
  obtain s1 where "s' = qd_resetTimer s1" "qd_timeout s1 = qd_timeout s" "qd_requests s1 = qd_requests s - 1"
    using qd_onError_resets[of calls "s\<lparr> qd_requests := qd_requests s - 1 \<rparr>"] r(2) by auto
  with r(1) show ?thesis by (intro that[of s1]) simp_all
qed (use assms in auto)

interpretation qd_loop: polled qd_exec qd_kind "\<lambda>_. True" qd_timeout qd_requests qd_polling "\<lambda>_. 3000"
  "\<lambda>s. s = QueryDetail_mount" "\<lambda>_. True"
proof
  fix s s' :: query_detail and e i
  show "qd_exec e s = Some s' \<Longrightarrow> qd_kind e = Fires i \<Longrightarrow>
      (\<exists>t. fireTimeout i (qd_timeout s) = Some t \<and> qd_timeout s' = clearTimeout t)
      \<and> qd_requests s' = Suc (qd_requests s) \<and> qd_polling s' = qd_polling s"
    by (cases e) (auto simp: qd_refreshLoop_def qd_polling_def split: bind_splits)
  show "qd_exec e s = Some s' \<Longrightarrow> qd_kind e = Answers \<Longrightarrow>
      qd_requests s = Suc (qd_requests s') \<and> qd_timeout s' =
      (if qd_polling s' then setTimeout 3000 (clearTimeout (qd_timeout s)) else clearTimeout (qd_timeout s))"
    by (erule (1) qd_answer_resets) (simp add: qd_polling_def qd_resetTimer_def Let_def)
  show "fireTimeout i (qd_timeout s) \<noteq> None \<Longrightarrow> \<exists>e. True \<and> qd_kind e = Fires i \<and> qd_exec e s \<noteq> None"
    by (rule exI[of _ "QdTimer i"]) auto
  show "0 < qd_requests s \<Longrightarrow> \<exists>e. True \<and> qd_kind e = Answers \<and> qd_exec e s \<noteq> None"
    by (rule exI[of _ "QdError []"]) auto
  show "qd_exec e s = Some s' \<Longrightarrow> qd_kind e = Quiet \<Longrightarrow>
      qd_timeout s' = qd_timeout s \<and> qd_requests s' = qd_requests s \<and> qd_polling s' = qd_polling s"
    by (cases e) (auto simp: qd_polling_def dest: qd_handle_frame split: bind_splits)
qed (auto simp: QueryDetail_mount_def qd_refreshLoop_def QueryDetail_init_def qd_polling_def)

subsection \<open>Histories\<close>

text \<open>The answers of a run with the readings of the clock, oldest first.\<close>

fun query_answers :: "qd_event list \<Rightarrow> (query_info \<times> int) list" where
  "query_answers [] = []"
| "query_answers (QdSuccess q now calls1 calls2 # es) = (q, now) # query_answers es"
| "query_answers (_ # es) = query_answers es"

lemma query_answers_append: "query_answers (es @ fs) = query_answers es @ query_answers fs"
  by (induction es rule: query_answers.induct) auto

text \<open>
  The measurements of a run: an answer gives one with the answer before it, unless it is the first of a
  running query or the clock went backwards.
\<close>

type_synonym answer = "query_info \<times> int"

fun secs_since :: "answer option \<Rightarrow> answer \<Rightarrow> jsnum" where
  "secs_since prev (q, now) = elapsedSecsSinceLastRefresh (map_option snd prev) now q"

definition measured :: "answer option \<Rightarrow> answer \<Rightarrow> bool" where
  "measured prev a \<longleftrightarrow> \<not> (prev = None \<and> q_state (fst a) = ''RUNNING'') \<and> js_le (Fin 0) (secs_since prev a)"

fun measurements :: "answer option \<Rightarrow> answer list \<Rightarrow> (answer option \<times> answer) list" where
  "measurements prev [] = []"
| "measurements prev (a # as) = (if measured prev a then [(prev, a)] else []) @ measurements (Some a) as"

definition last_answer :: "answer list \<Rightarrow> answer option" where
  "last_answer as = (if as = [] then None else Some (last as))"

lemma measurements_snoc:
  "measurements prev (as @ [a]) =
    measurements prev as @ (let p = (if as = [] then prev else Some (last as)) in if measured p a then [(p, a)] else [])"
  by (induction prev as rule: measurements.induct) (simp_all add: Let_def)

lemma measurements_last:
  "measurements None (as @ [a]) = measurements None as @ (if measured (last_answer as) a then [(last_answer as, a)] else [])"
  by (simp add: measurements_snoc last_answer_def Let_def)

text \<open>A total of the answer before; all totals start at zero.\<close>

definition total_before :: "(query_info \<Rightarrow> jv) \<Rightarrow> answer option \<Rightarrow> jv" where
  "total_before f prev = (case prev of None \<Rightarrow> JNum (Fin 0) | Some a \<Rightarrow> f (fst a))"

fun scheduled_rate :: "answer option \<times> answer \<Rightarrow> jv" where
  "scheduled_rate (prev, a) = JNum (currentTimeRate (sd_totalScheduledTime (qi_stats (fst a)))
    (total_before (\<lambda>q. parseDuration (sd_totalScheduledTime (qi_stats q))) prev) (secs_since prev a))"

fun cpu_rate :: "answer option \<times> answer \<Rightarrow> jv" where
  "cpu_rate (prev, a) = JNum (currentTimeRate (totalCpuTime (queryStats (fst a)))
    (total_before (\<lambda>q. parseDuration (totalCpuTime (queryStats q))) prev) (secs_since prev a))"

fun row_rate :: "answer option \<times> answer \<Rightarrow> jv" where
  "row_rate (prev, a) = JNum (currentRowInputRate (fst a)
    (total_before (\<lambda>q. JNum (sd_processedInputPositions (qi_stats q))) prev) (secs_since prev a))"

fun byte_rate :: "answer option \<times> answer \<Rightarrow> jv" where
  "byte_rate (prev, a) = JNum (currentByteInputRate (fst a)
    (total_before (\<lambda>q. parseDataSize (sd_processedInputDataSize (qi_stats q))) prev) (secs_since prev a))"

fun memory_point :: "answer option \<times> answer \<Rightarrow> jv" where
  "memory_point (prev, a) = parseDataSize (userMemoryReservation (queryStats (fst a)))"

text \<open>What a list of answers leaves in the state, apart from the histories, and in the histories.\<close>

definition qd_totals :: "answer list \<Rightarrow> query_detail \<Rightarrow> bool" where
  "qd_totals as s \<longleftrightarrow>
     qd_query s = map_option fst (last_answer as) \<and> qd_lastRefresh s = map_option snd (last_answer as)
   \<and> qd_ended s = (case last_answer as of None \<Rightarrow> False | Some a \<Rightarrow> qi_finalQueryInfo (fst a))
   \<and> qd_lastScheduledTime s = total_before (\<lambda>q. parseDuration (sd_totalScheduledTime (qi_stats q))) (last_answer as)
   \<and> qd_lastCpuTime s = total_before (\<lambda>q. parseDuration (totalCpuTime (queryStats q))) (last_answer as)
   \<and> qd_lastRowInput s = total_before (\<lambda>q. JNum (sd_processedInputPositions (qi_stats q))) (last_answer as)
   \<and> qd_lastByteInput s = total_before (\<lambda>q. parseDataSize (sd_processedInputDataSize (qi_stats q))) (last_answer as)"

definition qd_histories :: "answer list \<Rightarrow> query_detail \<Rightarrow> bool" where
  "qd_histories as s \<longleftrightarrow>
     (let points = measurements None as
      in qd_scheduledTimeRate s = window (map scheduled_rate points) \<and> qd_cpuTimeRate s = window (map cpu_rate points)
       \<and> qd_rowInputRate s = window (map row_rate points) \<and> qd_byteInputRate s = window (map byte_rate points)
       \<and> qd_reservedMemory s = window (map memory_point points))"

lemma qd_totals_setQuery:
  "qd_totals (as @ [(q, now)]) (qd_setQuery q now s)"
  by (simp add: qd_totals_def qd_setQuery_def last_answer_def total_before_def)

lemma qd_frame_simps [simp]:
  "qd_totals as (qd_componentDidUpdate calls s) = qd_totals as s"
  "qd_totals as (qd_resetTimer s) = qd_totals as s"
  "qd_totals as (qd_addRates q secs old s) = qd_totals as s"
  "qd_totals as (s\<lparr> qd_requests := n \<rparr>) = qd_totals as s"
  "qd_totals as (s\<lparr> qd_initialized := b \<rparr>) = qd_totals as s"
  "qd_totals as (s\<lparr> qd_timeout := t \<rparr>) = qd_totals as s"
  "qd_histories as (qd_componentDidUpdate calls s) = qd_histories as s"
  "qd_histories as (qd_resetTimer s) = qd_histories as s"
  "qd_histories as (qd_setQuery q now s) = qd_histories as s"
  "qd_histories as (s\<lparr> qd_requests := n \<rparr>) = qd_histories as s"
  "qd_histories as (s\<lparr> qd_initialized := b \<rparr>) = qd_histories as s"
  "qd_histories as (s\<lparr> qd_timeout := t \<rparr>) = qd_histories as s"
  by (simp_all add: qd_totals_def qd_histories_def qd_resetTimer_def qd_addRates_def qd_setQuery_def Let_def)

lemma qd_histories_addRates:
  assumes "qd_totals as old" "qd_histories as s" "measured (last_answer as) (q, now)"
  shows "qd_histories (as @ [(q, now)]) (qd_addRates q (secs_since (last_answer as) (q, now)) old s)"
  using assms by (simp add: qd_histories_def qd_totals_def qd_addRates_def measurements_last Let_def addToHistory_window_snoc)

lemma qd_onSuccess_history:
  assumes "qd_totals as s" "qd_histories as s" "\<not> qd_ended s"
  shows "qd_totals (as @ [(q, now)]) (qd_onSuccess q now calls1 calls2 s) \<and> qd_histories (as @ [(q, now)]) (qd_onSuccess q now calls1 calls2 s)"
proof -
  let ?s1 = "qd_componentDidUpdate calls1 (qd_setQuery q now s)" and ?p = "last_answer as"
  have refresh: "qd_lastRefresh s = map_option snd ?p" using assms(1) by (simp add: qd_totals_def)
  have t: "qd_totals (as @ [(q, now)]) ?s1" using qd_totals_setQuery by simp
  have h: "qd_histories as ?s1" using assms(2) by simp
  show ?thesis
  proof (cases "measured ?p (q, now)")
    case True
    then have "qd_onSuccess q now calls1 calls2 s = qd_resetTimer (qd_componentDidUpdate calls2 (qd_addRates q (secs_since ?p (q, now)) s ?s1))"
      using assms(3) refresh by (auto simp: qd_onSuccess_def measured_def Let_def)
    then show ?thesis using t qd_histories_addRates[OF assms(1) h True] by simp
  next
    case False
    then have "qd_onSuccess q now calls1 calls2 s = qd_resetTimer ?s1"
      using assms(3) refresh by (auto simp: qd_onSuccess_def measured_def Let_def)
    moreover have "qd_histories (as @ [(q, now)]) ?s1" using h False by (simp add: qd_histories_def measurements_last)
    ultimately show ?thesis using t by simp
  qed
qed

lemma qd_handle_history:
  "qd_handle c s = Some s' \<Longrightarrow> qd_totals as s' = qd_totals as s \<and> qd_histories as s' = qd_histories as s"
  by (cases c) (auto simp: qd_click_defs qd_totals_def qd_histories_def split: if_splits bind_splits)

lemma qd_refreshLoop_history [simp]:
  "qd_totals as (qd_refreshLoop s) = qd_totals as s" "qd_histories as (qd_refreshLoop s) = qd_histories as s"
  by (simp_all add: qd_refreshLoop_def)

lemma qd_history_step:
  assumes "qd_totals as s" "qd_histories as s" "one_series (qd_timeout s) (qd_requests s) (qd_polling s)" "qd_exec e s = Some s'"
  shows "qd_totals (as @ query_answers [e]) s' \<and> qd_histories (as @ query_answers [e]) s'"
proof (cases e)
  case (QdSuccess q now calls1 calls2)
  with assms(4) have r: "0 < qd_requests s" "s' = qd_onSuccess q now calls1 calls2 (s\<lparr> qd_requests := qd_requests s - 1 \<rparr>)"
    by (auto split: if_splits)
  then have "qd_polling s" using assms(3) by (auto simp: one_series_def split: if_splits)
  then have "\<not> qd_ended s" using assms(1) by (auto simp: qd_polling_def qd_totals_def split: option.splits)
  then show ?thesis using qd_onSuccess_history[of as "s\<lparr> qd_requests := qd_requests s - 1 \<rparr>"] assms(1,2) r(2) QdSuccess by simp
next
  case (QdClick c calls)
  then obtain s1 where "qd_handle c s = Some s1" "s' = qd_componentDidUpdate calls s1" using assms(4) by (auto split: bind_splits)
  then show ?thesis using assms(1,2) qd_handle_history QdClick by simp
qed (use assms in \<open>auto simp: qd_onError_def split: if_splits bind_splits\<close>)

lemma qd_history_run:
  assumes "exec_all qd_exec es s = Some s'" "qd_totals as s" "qd_histories as s" "one_series (qd_timeout s) (qd_requests s) (qd_polling s)"
  shows "qd_totals (as @ query_answers es) s' \<and> qd_histories (as @ query_answers es) s'"
  using assms
proof (induction es arbitrary: s as)
  case (Cons e es)
  then obtain s1 where s1: "qd_exec e s = Some s1" "exec_all qd_exec es s1 = Some s'" by auto
  from qd_history_step[OF Cons.prems(2-4) s1(1)] have h: "qd_totals (as @ query_answers [e]) s1" "qd_histories (as @ query_answers [e]) s1" by auto
  from Cons.IH[OF s1(2) h qd_loop.one_series_step[OF Cons.prems(4) _ _ s1(1)]] show ?case
    using query_answers_append[of "[e]" es] by simp
qed simp

lemma qd_history_mount: "qd_totals [] QueryDetail_mount" "qd_histories [] QueryDetail_mount"
  by (simp_all add: qd_totals_def qd_histories_def QueryDetail_mount_def qd_refreshLoop_def QueryDetail_init_def last_answer_def total_before_def)

lemma qd_history_from_mount:
  assumes "exec_all qd_exec es QueryDetail_mount = Some s"
  shows "qd_totals (query_answers es) s" "qd_histories (query_answers es) s"
proof -
  have "one_series (qd_timeout QueryDetail_mount) (qd_requests QueryDetail_mount) (qd_polling QueryDetail_mount)"
    by (rule qd_loop.one_series_run[where es = "[]"]) simp_all
  from qd_history_run[OF assms qd_history_mount this]
  show "qd_totals (query_answers es) s" "qd_histories (query_answers es) s" by simp_all
qed

text \<open>
  C5. The page of a query after any run of timers, answers, failures and clicks: it shows the query of the
  last answer; its five histories are the last 301 measurements, one for every answer with the answer
  before it, except for the first answer of a running query and for answers at which the clock had gone
  backwards; until the final information has arrived one series of refreshes goes on and its next event
  can happen, and after it no request is on its way and no timer is armed.
\<close>

theorem query_detail_run:
  assumes "exec_all qd_exec es QueryDetail_mount = Some s"
  shows "qd_query s = map_option fst (last_answer (query_answers es)) \<and> qd_histories (query_answers es) s
    \<and> (if (case last_answer (query_answers es) of None \<Rightarrow> False | Some a \<Rightarrow> qi_finalQueryInfo (fst a))
       then qd_requests s = 0 \<and> t_armed (qd_timeout s) = []
       else one_series (qd_timeout s) (qd_requests s) True \<and> (\<exists>e. qd_kind e \<noteq> Quiet \<and> qd_exec e s \<noteq> None))"
proof -
  note h = qd_history_from_mount[OF assms]
  have pol: "qd_polling s \<longleftrightarrow> \<not> (case last_answer (query_answers es) of None \<Rightarrow> False | Some a \<Rightarrow> qi_finalQueryInfo (fst a))"
    using h(1) by (auto simp: qd_totals_def qd_polling_def split: option.splits)
  have ok: "list_all (\<lambda>_. True) es" by (simp add: list_all_iff)
  note one = qd_loop.one_series_run[OF refl assms ok] and live = qd_loop.never_stuck[OF refl assms ok]
  show ?thesis using h pol one live by (auto simp: qd_totals_def one_series_def)
qed

definition example_run :: "qd_event list" where
  "example_run =
    [QdSuccess (example_query_info ''RUNNING'' None False) 1000000 [] [], QdTimer 0,
     QdSuccess (example_query_info ''FINISHED'' None True) 1003000 [(1003001, 1003001)] [], QdClick (TaskFilterClick TF_FAILED) []]"

theorem query_detail_run_witness:
  "\<exists>s. exec_all qd_exec example_run QueryDetail_mount = Some s \<and> qd_query s = Some (example_query_info ''FINISHED'' None True)
     \<and> length (qd_cpuTimeRate s) = 1 \<and> qd_requests s = 0 \<and> t_armed (qd_timeout s) = []"
proof -
  let ?q = "example_query_info ''FINISHED'' None True"
  have "exec_all qd_exec example_run QueryDetail_mount \<noteq> None" by code_simp
  then obtain s where s: "exec_all qd_exec example_run QueryDetail_mount = Some s" by blast
  have a: "query_answers example_run = [(example_query_info ''RUNNING'' None False, 1000000), (?q, 1003000)]" by (simp add: example_run_def)
  have m: "length (measurements None (query_answers example_run)) = 1" "qi_finalQueryInfo ?q" unfolding a by code_simp+
  have "qd_query s = Some ?q \<and> length (qd_cpuTimeRate s) = 1 \<and> qd_requests s = 0 \<and> t_armed (qd_timeout s) = []"
    using query_detail_run[OF s] m by (simp add: qd_histories_def a last_answer_def length_window Let_def)
  with s show ?thesis by blast
qed

subsection \<open>Frozen views\<close>

text \<open>
  The answers a view has taken in a run, for the view with the button \<open>b\<close>: those that arrive while its
  automatic refresh is on and, for a view that jumps, the answer on the page when it is turned off.
\<close>

fun taken :: "qd_click \<Rightarrow> bool \<Rightarrow> bool \<Rightarrow> query_info option \<Rightarrow> qd_event list \<Rightarrow> query_info list" where
  "taken b jumps on q0 [] = []"
| "taken b jumps on q0 (QdSuccess q now calls1 calls2 # es) = (if on then [q] else []) @ taken b jumps on (Some q) es"
| "taken b jumps on q0 (QdClick c calls # es) =
    (if c = b then (if on \<and> jumps then [the q0] else []) @ taken b jumps (\<not> on) q0 es else taken b jumps on q0 es)"
| "taken b jumps on q0 (_ # es) = taken b jumps on q0 es"

definition last_taken :: "snapshot \<Rightarrow> query_info list \<Rightarrow> snapshot" where
  "last_taken d qs = (if qs = [] then d else snapshot_of (last qs))"

lemma last_taken_Cons [simp]: "last_taken d (q # qs) = last_taken (snapshot_of q) qs"
  by (simp add: last_taken_def)

lemma last_taken_Nil [simp]: "last_taken d [] = d"
  by (simp add: last_taken_def)

text \<open>What the callbacks and the clicks do to the snapshots.\<close>

lemma qd_onSuccess_snapshots:
  "qd_lastSnapshotStage (qd_onSuccess q now calls1 calls2 s) = (if qd_stageRefresh s then snapshot_of q else qd_lastSnapshotStage s)"
  "qd_lastSnapshotTasks (qd_onSuccess q now calls1 calls2 s) = (if qd_taskRefresh s then snapshot_of q else qd_lastSnapshotTasks s)"
  "qd_stageRefresh (qd_onSuccess q now calls1 calls2 s) = qd_stageRefresh s"
  "qd_taskRefresh (qd_onSuccess q now calls1 calls2 s) = qd_taskRefresh s"
  "qd_query (qd_onSuccess q now calls1 calls2 s) = Some q"
  by (simp_all add: qd_onSuccess_def qd_resetTimer_def qd_addRates_def qd_setQuery_def Let_def)

lemma qd_onError_snapshots:
  "qd_lastSnapshotStage (qd_onError calls s) = qd_lastSnapshotStage s" "qd_lastSnapshotTasks (qd_onError calls s) = qd_lastSnapshotTasks s"
  "qd_stageRefresh (qd_onError calls s) = qd_stageRefresh s" "qd_taskRefresh (qd_onError calls s) = qd_taskRefresh s"
  "qd_query (qd_onError calls s) = qd_query s"
  by (simp_all add: qd_onError_def qd_resetTimer_def Let_def)

lemma snapshots_step:
  assumes "qd_exec e s = Some s1"
  shows "taken StageRefreshClick False (qd_stageRefresh s) (qd_query s) (e # es) =
      taken StageRefreshClick False (qd_stageRefresh s) (qd_query s) [e] @ taken StageRefreshClick False (qd_stageRefresh s1) (qd_query s1) es
    \<and> taken TaskRefreshClick True (qd_taskRefresh s) (qd_query s) (e # es) =
      taken TaskRefreshClick True (qd_taskRefresh s) (qd_query s) [e] @ taken TaskRefreshClick True (qd_taskRefresh s1) (qd_query s1) es
    \<and> qd_lastSnapshotStage s1 = last_taken (qd_lastSnapshotStage s) (taken StageRefreshClick False (qd_stageRefresh s) (qd_query s) [e])
    \<and> qd_lastSnapshotTasks s1 = last_taken (qd_lastSnapshotTasks s) (taken TaskRefreshClick True (qd_taskRefresh s) (qd_query s) [e])"
proof (cases e)
  case (QdClick c calls)
  then obtain s2 where "qd_handle c s = Some s2" "s1 = qd_componentDidUpdate calls s2" using assms by (auto split: bind_splits)
  then show ?thesis using QdClick by (cases c) (auto simp: qd_click_defs split: if_splits bind_splits)
qed (use assms in \<open>auto simp: qd_onSuccess_snapshots qd_onError_snapshots qd_refreshLoop_def split: if_splits bind_splits\<close>)

lemma last_taken_append: "last_taken d (as @ bs) = last_taken (last_taken d as) bs"
  by (simp add: last_taken_def)

lemma snapshots_run:
  assumes "exec_all qd_exec es s = Some s'"
  shows "qd_lastSnapshotStage s' = last_taken (qd_lastSnapshotStage s) (taken StageRefreshClick False (qd_stageRefresh s) (qd_query s) es)
    \<and> qd_lastSnapshotTasks s' = last_taken (qd_lastSnapshotTasks s) (taken TaskRefreshClick True (qd_taskRefresh s) (qd_query s) es)"
  using assms
proof (induction es arbitrary: s)
  case (Cons e es)
  then obtain s1 where s1: "qd_exec e s = Some s1" "exec_all qd_exec es s1 = Some s'" by auto
  from Cons.IH[OF s1(2)] snapshots_step[OF s1(1), of es] show ?case by (simp only: last_taken_append)
qed simp

text \<open>
  C15. What the two views show after any run.  The stages are those of the last answer that arrived while
  their automatic refresh was on.  The tasks are those of the last such answer for their own button, or of
  the answer that was on the page when their refresh was turned off, whichever came later.  The two
  differ: turning the refresh of the stages on and off again between two answers leaves the old stages on
  the page, because the click stores the new ones under a name that is never read.
\<close>

theorem query_detail_snapshots:
  assumes "exec_all qd_exec es QueryDetail_mount = Some s"
  shows "qd_lastSnapshotStage s = last_taken SnUndefined (taken StageRefreshClick False True None es)
    \<and> qd_lastSnapshotTasks s = last_taken SnNull (taken TaskRefreshClick True True None es)"
  using snapshots_run[OF assms] by (simp add: QueryDetail_mount_def qd_refreshLoop_def QueryDetail_init_def)

definition example_freeze :: "query_info \<Rightarrow> query_info \<Rightarrow> qd_event list" where
  "example_freeze q1 q2 =
    [QdSuccess q1 1000000 [] [], QdClick TaskRefreshClick [], QdClick StageRefreshClick [], QdTimer 0, QdSuccess q2 1003000 [] [],
     QdClick TaskRefreshClick [], QdClick StageRefreshClick [], QdClick TaskRefreshClick [], QdClick StageRefreshClick []]"

theorem query_detail_snapshots_witness:
  "\<exists>s. exec_all qd_exec (example_freeze (example_query_info ''RUNNING'' None False) (example_query_info ''RUNNING'' (Some example_stage) False))
      QueryDetail_mount = Some s
    \<and> qd_lastSnapshotStage s = SnUndefined \<and> qd_lastSnapshotTasks s = SnStage example_stage"
proof -
  let ?q1 = "example_query_info ''RUNNING'' None False" and ?q2 = "example_query_info ''RUNNING'' (Some example_stage) False"
  have "exec_all qd_exec (example_freeze ?q1 ?q2) QueryDetail_mount \<noteq> None" by code_simp
  then obtain s where s: "exec_all qd_exec (example_freeze ?q1 ?q2) QueryDetail_mount = Some s" by blast
  have "snapshot_of ?q1 = SnUndefined" "snapshot_of ?q2 = SnStage example_stage"
    by (simp_all add: snapshot_of_def example_query_info_def query.defs query_info.defs)
  then have "qd_lastSnapshotStage s = SnUndefined \<and> qd_lastSnapshotTasks s = SnStage example_stage"
    using query_detail_snapshots[OF s] by (simp add: example_freeze_def)
  with s show ?thesis by blast
qed

subsection \<open>Highlighting\<close>

text \<open>
  The text of the query is highlighted at the first update only.  When the first request fails, there is no
  query on the page at that update, and its text is never highlighted.
\<close>

definition never_highlighted :: "query_detail \<Rightarrow> bool" where
  "never_highlighted s \<longleftrightarrow> qd_lastRender s \<noteq> None \<and> \<not> qd_highlighted s"

lemma never_highlighted_update: "never_highlighted s \<Longrightarrow> never_highlighted (qd_componentDidUpdate calls s)"
  by (induction calls s rule: qd_componentDidUpdate.induct) (auto simp: never_highlighted_def)

lemma never_highlighted_frame [simp]:
  "never_highlighted (qd_resetTimer s) = never_highlighted s" "never_highlighted (qd_setQuery q now s) = never_highlighted s"
  "never_highlighted (qd_addRates q secs old s) = never_highlighted s" "never_highlighted (s\<lparr> qd_requests := n \<rparr>) = never_highlighted s"
  "never_highlighted (s\<lparr> qd_initialized := b \<rparr>) = never_highlighted s" "never_highlighted (s\<lparr> qd_timeout := t \<rparr>) = never_highlighted s"
  "never_highlighted (qd_refreshLoop s) = never_highlighted s"
  by (simp_all add: never_highlighted_def qd_resetTimer_def qd_setQuery_def qd_addRates_def qd_refreshLoop_def Let_def)

lemma never_highlighted_handle: "qd_handle c s = Some s' \<Longrightarrow> never_highlighted s' = never_highlighted s"
  by (cases c) (auto simp: qd_click_defs never_highlighted_def split: if_splits bind_splits)

lemma never_highlighted_step: "never_highlighted s \<Longrightarrow> qd_exec e s = Some s' \<Longrightarrow> never_highlighted s'"
  by (cases e) (auto simp: qd_onSuccess_def qd_onError_def Let_def never_highlighted_update dest: never_highlighted_handle
      split: if_splits bind_splits)

lemma never_highlighted_reaches: "reaches qd_exec s0 s \<Longrightarrow> never_highlighted s0 \<Longrightarrow> never_highlighted s"
  by (induction rule: reaches.induct) (auto intro: never_highlighted_step)

lemma query_never_highlighted:
  assumes "exec_all qd_exec (QdError ((now, renderTimestamp) # calls) # es) QueryDetail_mount = Some s"
  shows "\<not> qd_highlighted s"
proof -
  obtain s1 where s1: "qd_exec (QdError ((now, renderTimestamp) # calls)) QueryDetail_mount = Some s1" "exec_all qd_exec es s1 = Some s"
    using assms by (auto split: bind_splits)
  have "never_highlighted (qd_componentDidUpdate ((now, renderTimestamp) # calls) (QueryDetail_mount\<lparr> qd_requests := 0, qd_initialized := True \<rparr>))"
    by (simp add: QueryDetail_mount_def qd_refreshLoop_def QueryDetail_init_def)
      (rule never_highlighted_update, simp add: never_highlighted_def)
  then have n: "never_highlighted s1" using s1(1)
    by (auto simp: qd_onError_def QueryDetail_mount_def qd_refreshLoop_def QueryDetail_init_def simp del: qd_componentDidUpdate.simps)
  have r: "reaches qd_exec s1 s" unfolding reaches_run using s1(2) by (rule exI)
  have "never_highlighted s" by (rule never_highlighted_reaches[OF r n])
  then show ?thesis by (simp add: never_highlighted_def)
qed

end
