(* ===== verification/QueryDetailView.thy ===== *)
theory QueryDetailView
  imports QueryDetail
begin

text \<open>
  \<^verbatim>\<open>src/components/QueryDetail.jsx\<close>, the rendering of the page of a query: its tables, the warnings, the
  failure, the stages and the tasks.
\<close>

section \<open>Parts of the page\<close>

datatype qd_child = QdQueryHeader query_info | TaskList string "task_info list" | StageList string "stage_info option"

definition refresh_button :: "qd_click \<Rightarrow> bool \<Rightarrow> (qd_click, 'c) vnode" where
  "refresh_button c on = Elem ''button'' [className ''btn btn-info live-button'', onClick c] [Text (if on then ''Auto-Refresh: On'' else ''Auto-Refresh: Off'')]"

definition renderTaskRefreshButton :: "query_detail \<Rightarrow> (qd_click, 'c) vnode" where
  "renderTaskRefreshButton s = refresh_button TaskRefreshClick (qd_taskRefresh s)"

definition renderStageRefreshButton :: "query_detail \<Rightarrow> (qd_click, 'c) vnode" where
  "renderStageRefreshButton s = refresh_button StageRefreshClick (qd_stageRefresh s)"

definition renderTaskFilterListItem :: "task_filter \<Rightarrow> string \<Rightarrow> query_detail \<Rightarrow> (qd_click, 'c) vnode" where
  "renderTaskFilterListItem taskFilter taskFilterText s =
    el ''li'' [Elem ''a'' [attr ''href'' ''#'', className (if qd_taskFilter s = taskFilter then ''selected'' else []), onClick (TaskFilterClick taskFilter)]
      [Text taskFilterText]]"

definition renderTasks :: "query_info \<Rightarrow> query_detail \<Rightarrow> (qd_click, qd_child) vnode" where
  "renderTasks q s =
    (if qd_lastSnapshotTasks s = SnNull then Nothing
     else
      (let tasks = filter (\<lambda>task. TASK_FILTER (qd_taskFilter s) (tk_state task)) (getTasksFromStage (qd_lastSnapshotTasks s))
       in el ''div''
        [divc ''row''
          [divc ''col-xs-9'' [el ''h3'' [Text ''Tasks'']],
           divc ''col-xs-3'' [elc ''table'' ''header-inline-links'' [el ''tbody'' [el ''tr''
            [el ''td'' [divc ''input-group-btn text-right''
              [Elem ''button'' [attr ''type'' ''button'', className ''btn btn-default dropdown-toggle pull-right text-right'', attr ''data-toggle'' ''dropdown'',
                  attr ''aria-haspopup'' ''true'', attr ''aria-expanded'' ''false''] [Text ''Show '', elc ''span'' ''caret'' []],
               elc ''ul'' ''dropdown-menu''
                [renderTaskFilterListItem TF_ALL ''All'' s,
                 renderTaskFilterListItem TF_PLANNED ''Planned'' s,
                 renderTaskFilterListItem TF_RUNNING ''Running'' s,
                 renderTaskFilterListItem TF_FINISHED ''Finished'' s,
                 renderTaskFilterListItem TF_FAILED ''Aborted/Canceled/Failed'' s]]],
             el ''td'' [Text (nbsp @ nbsp), renderTaskRefreshButton s]]]]]],
         divc ''row'' [divc ''col-xs-12'' [Comp (TaskList (queryId q) tasks)]]]))"

definition snapshot_stage :: "snapshot \<Rightarrow> stage_info option" where
  "snapshot_stage sn = (case sn of SnStage stage \<Rightarrow> Some stage | _ \<Rightarrow> None)"

definition renderStages :: "query_info \<Rightarrow> query_detail \<Rightarrow> (qd_click, qd_child) vnode" where
  "renderStages q s =
    (if qd_lastSnapshotStage s = SnNull then Nothing
     else el ''div''
      [divc ''row''
        [divc ''col-xs-9'' [el ''h3'' [Text ''Stages'']],
         divc ''col-xs-3'' [elc ''table'' ''header-inline-links'' [el ''tbody'' [el ''tr'' [el ''td'' [renderStageRefreshButton s]]]]]],
       divc ''row'' [divc ''col-xs-12'' [Comp (StageList (queryId q) (snapshot_stage (qd_lastSnapshotStage s)))]]])"

text \<open>One line \<open>- name=value\<close> of the session; an element found by \<open>for ... in\<close> has a value.\<close>

definition property_span :: "string \<Rightarrow> string \<Rightarrow> ('h, 'c) vnode" where
  "property_span name val = el ''span'' [Text ''- '', Text (name @ ''='' @ val), Text '' '', el ''br'' []]"

definition map_value :: "(string, 'v) jsmap \<Rightarrow> string \<Rightarrow> 'v" where
  "map_value m k = the (map_get m k)"

definition renderSessionProperties :: "query_info \<Rightarrow> ('h, 'c) vnode list" where
  "renderSessionProperties q =
    (let system = sx_systemProperties (qi_session q); catalogs = sx_catalogProperties (qi_session q)
     in map (\<lambda>p. property_span p (map_value system p)) (own_keys system)
        @ concat (map (\<lambda>catalog.
            let props = map_value catalogs catalog
            in map (\<lambda>p. property_span (catalog @ ''.'' @ p) (map_value props p)) (own_keys props)) (own_keys catalogs)))"

definition renderResourceEstimates :: "query_info \<Rightarrow> ('h, 'c) vnode list" where
  "renderResourceEstimates q =
    (let estimates = sx_resourceEstimates (qi_session q)
     in map (\<lambda>resource. property_span (snakeCased resource) (map_value estimates resource)) (own_keys estimates))"

definition renderWarningInfo :: "query_info \<Rightarrow> ('h, 'c) vnode" where
  "renderWarningInfo q =
    (if 0 < length (qi_warnings q)
     then divc ''row'' [divc ''col-xs-12''
       [el ''h3'' [Text ''Warnings''], elc ''hr'' ''h3-hr'' [],
        Elem ''table'' [className ''table'', attr ''id'' ''warnings-table'']
          [Fragment (map (\<lambda>(name, message). el ''tr'' [el ''td'' [Text name], el ''td'' [Text message]]) (qi_warnings q))]]]
     else Nothing)"

text \<open>A row of a table: a title and its value.\<close>

definition info_tr :: "string \<Rightarrow> string \<Rightarrow> ('h, 'c) vnode list \<Rightarrow> ('h, 'c) vnode" where
  "info_tr title cls v = el ''tr'' [elc ''td'' ''info-title'' [Text title], elc ''td'' cls v]"

abbreviation info_text :: string where
  "info_text \<equiv> ''info-text''"

abbreviation info_wrap :: string where
  "info_wrap \<equiv> ''info-text wrap-text''"

definition copy_button :: "string \<Rightarrow> (string \<times> 'h attr) list \<Rightarrow> string \<Rightarrow> ('h, 'c) vnode" where
  "copy_button cls attrs target =
    Elem ''a'' (attrs @ [className cls, attr ''data-clipboard-target'' target, attr ''data-toggle'' ''tooltip'', attr ''data-placement'' ''right'',
        attr ''title'' ''Copy to clipboard''])
      [Elem ''span'' [className ''glyphicon glyphicon-copy'', attr ''aria-hidden'' ''true'', attr ''alt'' ''Copy to clipboard''] []]"

text \<open>Reading the name of an error code that is not there throws.\<close>

definition renderFailureInfo :: "query_info \<Rightarrow> ('h, 'c) vnode throws" where
  "renderFailureInfo q =
    (case qi_failureInfo q of
       None \<Rightarrow> Some (Text [])
     | Some info \<Rightarrow> do {
         code \<leftarrow> errorCode q;
         trace \<leftarrow> formatStackTrace info;
         Some (divc ''row'' [divc ''col-xs-12''
           [el ''h3'' [Text ''Error Information''], elc ''hr'' ''h3-hr'' [],
            elc ''table'' ''table'' [el ''tbody''
              [info_tr ''Error Type'' info_text [text_opt (errorType q)],
               info_tr ''Error Code'' info_text [Text (ec_name code @ '' ('' @ num_to_string (ec_code code) @ '')'')],
               el ''tr''
                [elc ''td'' ''info-title'' [Text ''Stack Trace'', copy_button ''btn copy-button'' [] ''#stack-trace''],
                 elc ''td'' info_text [Elem ''pre'' [attr ''id'' ''stack-trace''] [Text trace]]]]]]]) })"

section \<open>The tables\<close>

definition session_table :: "query_info \<Rightarrow> ('h, 'c) vnode" where
  "session_table q =
    (let se = session q; sx = qi_session q
     in divc ''col-xs-6''
      [el ''h3'' [Text ''Session''], elc ''hr'' ''h3-hr'' [],
       elc ''table'' ''table'' [el ''tbody''
        [info_tr ''User'' info_wrap [Elem ''span'' [attr ''id'' ''query-user''] [Text (s_user se)], Text (nbsp @ nbsp),
           copy_button ''copy-button'' [attr ''href'' ''#''] ''#query-user''],
         info_tr ''Principal'' info_wrap [text_opt (s_principal se)],
         info_tr ''Source'' info_wrap [text_opt (s_source se)],
         info_tr ''Catalog'' info_text [text_opt (sx_catalog sx)],
         info_tr ''Schema'' info_text [text_opt (sx_schema sx)],
         info_tr ''Client Address'' info_text [text_opt (sx_remoteUserAddress sx)],
         info_tr ''Client Tags'' info_text [Text (join '', '' (sx_clientTags sx))],
         info_tr ''Session Properties'' info_wrap [Fragment (renderSessionProperties q)],
         info_tr ''Resource Estimates'' info_wrap [Fragment (renderResourceEstimates q)]]]])"

definition execution_table :: "env \<Rightarrow> query_info \<Rightarrow> ('h, 'c) vnode" where
  "execution_table env q =
    (let st = queryStats q; sd = qi_stats q; date = (\<lambda>t. formatShortDateTime (env_local env (date_parse env t)))
     in divc ''col-xs-6''
      [el ''h3'' [Text ''Execution''], elc ''hr'' ''h3-hr'' [],
       elc ''table'' ''table'' [el ''tbody''
        [info_tr ''Resource Group'' info_wrap [Text (case resourceGroupId q of None \<Rightarrow> ''n/a'' | Some g \<Rightarrow> join ''.'' g)],
         info_tr ''Submission Time'' info_text [Text (date (createTime st))],
         info_tr ''Completion Time'' info_text [Text (case sd_endTime sd of None \<Rightarrow> [] | Some t \<Rightarrow> if t = [] then [] else date t)],
         info_tr ''Elapsed Time'' info_text [Text (elapsedTime st)],
         info_tr ''Queued Time'' info_text [Text (sd_queuedTime sd)],
         info_tr ''Execution Time'' info_text [Text (executionTime st)]]]])"

definition utilization_table :: "query_info \<Rightarrow> ('h, 'c) vnode throws" where
  "utilization_table q =
    (let st = queryStats q; sd = qi_stats q
     in do {
       inputRows \<leftarrow> formatCount (JNum (sd_processedInputPositions sd));
       rawRows \<leftarrow> formatCount (JNum (sd_rawInputPositions sd));
       cumulative \<leftarrow> formatDataSizeBytes (JNum (js_div (cumulativeUserMemory st) (Fin 1000)));
       outputRows \<leftarrow> formatCount (JNum (sd_outputPositions sd));
       writtenRows \<leftarrow> formatCount (JNum (sd_writtenPositions sd));
       Some (divc ''col-xs-6''
        [el ''h3'' [Text ''Resource Utilization Summary''], elc ''hr'' ''h3-hr'' [],
         elc ''table'' ''table'' [el ''tbody''
          [info_tr ''CPU Time'' info_text [Text (totalCpuTime st)],
           info_tr ''Scheduled Time'' info_text [Text (sd_totalScheduledTime sd)],
           info_tr ''Blocked Time'' info_text [Text (sd_totalBlockedTime sd)],
           info_tr ''Input Rows'' info_text [Text inputRows],
           info_tr ''Input Data'' info_text [Text (sd_processedInputDataSize sd)],
           info_tr ''Raw Input Rows'' info_text [Text rawRows],
           info_tr ''Raw Input Data'' info_text [Text (sd_rawInputDataSize sd)],
           info_tr ''Peak User Memory'' info_text [Text (peakUserMemoryReservation st)],
           info_tr ''Peak Total Memory'' info_text [Text (sd_peakTotalMemoryReservation sd)],
           info_tr ''Memory Pool'' info_text [Text (memoryPool q)],
           info_tr ''Cumulative User Memory'' info_text [Text (cumulative @ '' seconds'')],
           info_tr ''Output Rows'' info_text [Text outputRows],
           info_tr ''Output Data'' info_text [Text (sd_outputDataSize sd)],
           info_tr ''Written Rows'' info_text [Text writtenRows],
           info_tr ''Logical Written Data'' info_text [Text (sd_logicalWrittenDataSize sd)],
           info_tr ''Physical Written Data'' info_text [Text (sd_physicalWrittenDataSize sd)],
           (if js_lt (Fin 0) (to_num (parseDataSize (sd_spilledDataSize sd)))
            then info_tr ''Spilled Data'' info_text [Text (sd_spilledDataSize sd)] else Nothing)]]]) })"

definition timeline_rows :: "string \<Rightarrow> string \<Rightarrow> string \<Rightarrow> ('h, 'c) vnode list" where
  "timeline_rows title sparklineId val =
    [el ''tr''
      [elc ''td'' ''info-title'' [Text title],
       Elem ''td'' [attr ''rowSpan'' ''2''] [divc ''query-stats-sparkline-container''
         [Elem ''span'' [className ''sparkline'', attr ''id'' sparklineId] [divc ''loader'' [Text ''Loading ...'']]]]],
     elc ''tr'' ''tr-noborder'' [elc ''td'' ''info-sparkline-text'' [Text val]]]"

definition timeline_table :: "query_detail \<Rightarrow> ('h, 'c) vnode throws" where
  "timeline_table s =
    do {
      cpu \<leftarrow> formatCount (last_num (qd_cpuTimeRate s));
      scheduled \<leftarrow> formatCount (last_num (qd_scheduledTimeRate s));
      rows \<leftarrow> formatCount (last_num (qd_rowInputRate s));
      bytes \<leftarrow> formatDataSize (last_num (qd_byteInputRate s));
      memory \<leftarrow> formatDataSize (last_num (qd_reservedMemory s));
      Some (divc ''col-xs-6''
        [el ''h3'' [Text ''Timeline''], elc ''hr'' ''h3-hr'' [],
         elc ''table'' ''table'' [el ''tbody''
          (timeline_rows ''Parallelism'' ''cpu-time-rate-sparkline'' cpu
           @ timeline_rows ''Scheduled Time/s'' ''scheduled-time-rate-sparkline'' scheduled
           @ timeline_rows ''Input Rows/s'' ''row-input-rate-sparkline'' rows
           @ timeline_rows ''Input Bytes/s'' ''byte-input-rate-sparkline'' bytes
           @ timeline_rows ''Memory Utilization'' ''reserved-memory-sparkline'' memory)]]) }"

definition query_text :: "query_info \<Rightarrow> ('h, 'c) vnode" where
  "query_text q =
    divc ''row'' [divc ''col-xs-12''
      [el ''h3'' [Text ''Query'', copy_button ''btn copy-button'' [] ''#query-text''],
       Elem ''pre'' [attr ''id'' ''query''] [Elem ''code'' [className ''lang-sql'', attr ''id'' ''query-text''] [Text (q_query q)]]]]"

section \<open>The page\<close>

definition qd_message :: "query_detail \<Rightarrow> ('h, 'c) vnode" where
  "qd_message s =
    divc ''row error-message'' [divc ''col-xs-12'' [el ''h4''
      [if qd_initialized s then Text ''Query not found'' else divc ''loader'' [Text ''Loading...'']]]]"

definition QueryDetail_page :: "env \<Rightarrow> query_info \<Rightarrow> query_detail \<Rightarrow> (qd_click, qd_child) vnode throws" where
  "QueryDetail_page env q s =
    do {
      utilization \<leftarrow> utilization_table q;
      timeline \<leftarrow> timeline_table s;
      failure \<leftarrow> renderFailureInfo q;
      Some (el ''div''
        [Comp (QdQueryHeader q),
         divc ''row'' [session_table q, execution_table env q],
         divc ''row'' [divc ''col-xs-12'' [divc ''row'' [utilization, timeline]]],
         renderWarningInfo q,
         failure,
         query_text q,
         renderStages q s,
         renderTasks q s]) }"

definition QueryDetail_render :: "env \<Rightarrow> query_detail \<Rightarrow> (qd_click, qd_child) vnode throws" where
  "QueryDetail_render env s =
    (case qd_query s of
       None \<Rightarrow> Some (qd_message s)
     | Some q \<Rightarrow> if \<not> qd_initialized s then Some (qd_message s) else QueryDetail_page env q s)"

section \<open>Laws\<close>

subsection \<open>What the parts offer\<close>

text \<open>The tables have neither actions nor child components.\<close>

definition inert :: "('h, 'c) vnode \<Rightarrow> bool" where
  "inert n \<longleftrightarrow> handlers n = [] \<and> children n = []"

lemma inert_simps [simp]:
  "inert (Text t)" "inert Nothing" "inert (Number x)" "inert (text_opt y)"
  "inert (Elem t as cs) \<longleftrightarrow> attr_handlers as = [] \<and> list_all inert cs"
  "inert (Fragment cs) \<longleftrightarrow> list_all inert cs"
  by (auto simp: inert_def list_all_iff)

lemma inert_parts [simp]:
  "inert (property_span a b)" "inert (info_tr title cls v) \<longleftrightarrow> list_all inert v"
  "inert (copy_button cls as target) \<longleftrightarrow> attr_handlers as = []"
  by (auto simp: property_span_def info_tr_def copy_button_def attr_handlers_def)

lemma inert_session_properties [simp]: "list_all inert (renderSessionProperties q)" "list_all inert (renderResourceEstimates q)"
  by (auto simp: renderSessionProperties_def renderResourceEstimates_def Let_def list_all_iff)

lemma inert_tables [simp]:
  "inert (session_table q)" "inert (execution_table env q)" "inert (query_text q)"
  by (simp_all add: session_table_def execution_table_def query_text_def Let_def)

lemma inert_warnings [simp]: "inert (renderWarningInfo q)"
  by (simp add: renderWarningInfo_def list.pred_map comp_def case_prod_unfold list.pred_True)

lemma inert_utilization: "utilization_table q = Some n \<Longrightarrow> inert n"
  by (auto simp: utilization_table_def Let_def split: bind_splits)

lemma inert_timeline: "timeline_table s = Some n \<Longrightarrow> inert n"
  by (auto simp: timeline_table_def timeline_rows_def split: bind_splits)

text \<open>Every chart has its element on the page, once there is a query.\<close>

lemma query_charts_shown:
  assumes "QueryDetail_page env q s = Some v"
  shows "charts_shown (qd_sparklines s) v"
proof -
  obtain u :: "(qd_click, qd_child) vnode" where u1: "timeline_table s = Some u" using assms by (auto simp: QueryDetail_page_def split: bind_splits)
  moreover have "set (element_ids u) \<subseteq> set (element_ids v)" using assms u1 by (auto simp: QueryDetail_page_def split: bind_splits)
  ultimately have u: "timeline_table s = Some u" "set (element_ids u) \<subseteq> set (element_ids v)" .
  have "charts_shown (qd_sparklines s) u"
    using u(1) by (auto simp: timeline_table_def timeline_rows_def charts_shown_def qd_sparklines_def selects_def attr_ids_def split: bind_splits)
  then show ?thesis using u(2) by (auto simp: charts_shown_def list_all_iff selects_def split: list.splits)
qed

lemma inert_failure: "renderFailureInfo q = Some n \<Longrightarrow> inert n"
  by (auto simp: renderFailureInfo_def split: bind_splits option.splits)

text \<open>The views of the stages and of the tasks.\<close>

definition task_filter_clicks :: "qd_click list" where
  "task_filter_clicks = map TaskFilterClick [TF_ALL, TF_PLANNED, TF_RUNNING, TF_FINISHED, TF_FAILED]"

definition shown_tasks :: "query_detail \<Rightarrow> task_info list" where
  "shown_tasks s = filter (\<lambda>task. TASK_FILTER (qd_taskFilter s) (tk_state task))
    (concat (map st_tasks (StageList.getStages (snapshot_stage (qd_lastSnapshotTasks s)))))"

lemma getTasksFromStage_list: "getTasksFromStage sn = concat (map st_tasks (StageList.getStages (snapshot_stage sn)))"
  by (cases sn) (simp_all add: getTasksFromStage_def snapshot_stage_def StageList.getStages_def stage_tasks_list)

lemma views_offer:
  assumes "qd_lastSnapshotStage s \<noteq> SnNull" "qd_lastSnapshotTasks s \<noteq> SnNull"
  shows "handlers (renderStages q s) = [StageRefreshClick]" "children (renderStages q s) = [StageList (queryId q) (snapshot_stage (qd_lastSnapshotStage s))]"
    "handlers (renderTasks q s) = task_filter_clicks @ [TaskRefreshClick]" "children (renderTasks q s) = [TaskList (queryId q) (shown_tasks s)]"
  using assms by (simp_all add: renderStages_def renderTasks_def renderStageRefreshButton_def renderTaskRefreshButton_def refresh_button_def
      renderTaskFilterListItem_def task_filter_clicks_def shown_tasks_def getTasksFromStage_list Let_def)

lemma page_offers:
  assumes "QueryDetail_page env q s = Some n" "qd_lastSnapshotStage s \<noteq> SnNull" "qd_lastSnapshotTasks s \<noteq> SnNull"
  shows "handlers n = StageRefreshClick # task_filter_clicks @ [TaskRefreshClick]"
    "children n = [QdQueryHeader q, StageList (queryId q) (snapshot_stage (qd_lastSnapshotStage s)), TaskList (queryId q) (shown_tasks s)]"
proof -
  from assms(1) obtain u t f where "inert u" "inert t" "inert f" and
    n: "n = el ''div''
        [Comp (QdQueryHeader q), divc ''row'' [session_table q, execution_table env q],
         divc ''row'' [divc ''col-xs-12'' [divc ''row'' [u, t]]], renderWarningInfo q, f, query_text q, renderStages q s, renderTasks q s]"
    by (auto simp: QueryDetail_page_def split: bind_splits dest: inert_utilization inert_timeline inert_failure)
  moreover have "inert (session_table q :: (qd_click, qd_child) vnode)" "inert (execution_table env q :: (qd_click, qd_child) vnode)"
    "inert (query_text q :: (qd_click, qd_child) vnode)" "inert (renderWarningInfo q :: (qd_click, qd_child) vnode)" by simp_all
  ultimately show "handlers n = StageRefreshClick # task_filter_clicks @ [TaskRefreshClick]"
    "children n = [QdQueryHeader q, StageList (queryId q) (snapshot_stage (qd_lastSnapshotStage s)), TaskList (queryId q) (shown_tasks s)]"
    using views_offer[OF assms(2,3), of q] by (simp_all add: inert_def)
qed

subsection \<open>Rendering in a run\<close>

text \<open>
  An answer the page can show: a failure comes with an error code and a trace that can be printed, and the
  memory reservation can be read.
\<close>

definition presentable :: "query_info \<Rightarrow> bool" where
  "presentable q \<longleftrightarrow>
     (case qi_failureInfo q of None \<Rightarrow> True | Some info \<Rightarrow> errorCode q \<noteq> None \<and> formatStackTrace info \<noteq> None)
   \<and> parseDataSize (userMemoryReservation (queryStats q)) \<noteq> JNull"

lemma formatDataSize_defined: "v \<noteq> JNull \<Longrightarrow> \<exists>t. formatDataSize v = Some t"
  by (cases v) (auto simp: format_undefined formatDataSize_num)

lemma formatCount_defined: "v \<noteq> JNull \<Longrightarrow> \<exists>t. formatCount v = Some t"
  by (cases v) (auto simp: format_undefined formatCount_num)

lemma last_num_window: "last_num (window (map f xs)) = (if xs = [] then JUndefined else f (last xs))"
proof (cases xs rule: rev_cases)
  case (snoc ys y)
  have "window (map f (ys @ [y])) = drop (length ys - 300) (map f ys) @ [f y]" by (simp add: window_def)
  then show ?thesis using snoc by simp
qed simp

lemma measurements_answers: "(prev, a) \<in> set (measurements p as) \<Longrightarrow> a \<in> set as"
  by (induction p as rule: measurements.induct) (auto split: if_splits)

lemma last_measurement:
  "last_num (window (map f (measurements p as))) = JUndefined \<or>
   (\<exists>prev a. a \<in> set as \<and> last_num (window (map f (measurements p as))) = f (prev, a))"
proof (cases "measurements p as = []")
  case False
  then obtain prev a where "last (measurements p as) = (prev, a)" by (cases "last (measurements p as)") blast
  then have "a \<in> set as" "last_num (window (map f (measurements p as))) = f (prev, a)"
    using last_in_set[OF False] measurements_answers last_num_window[of f "measurements p as"] False by metis+
  then show ?thesis by blast
qed simp

lemma timeline_defined:
  assumes "qd_histories as s" "\<forall>a \<in> set as. parseDataSize (userMemoryReservation (queryStats (fst a))) \<noteq> JNull"
  shows "timeline_table s \<noteq> None"
proof -
  note h = assms(1)[unfolded qd_histories_def Let_def]
  have "last_num (qd_cpuTimeRate s) \<noteq> JNull" using h last_measurement[of cpu_rate None as] by auto
  then obtain t1 where t1: "formatCount (last_num (qd_cpuTimeRate s)) = Some t1" using formatCount_defined by blast
  have "last_num (qd_scheduledTimeRate s) \<noteq> JNull" using h last_measurement[of scheduled_rate None as] by auto
  then obtain t2 where t2: "formatCount (last_num (qd_scheduledTimeRate s)) = Some t2" using formatCount_defined by blast
  have "last_num (qd_rowInputRate s) \<noteq> JNull" using h last_measurement[of row_rate None as] by auto
  then obtain t3 where t3: "formatCount (last_num (qd_rowInputRate s)) = Some t3" using formatCount_defined by blast
  have "last_num (qd_byteInputRate s) \<noteq> JNull" using h last_measurement[of byte_rate None as] by auto
  then obtain t4 where t4: "formatDataSize (last_num (qd_byteInputRate s)) = Some t4" using formatDataSize_defined by blast
  have "last_num (qd_reservedMemory s) \<noteq> JNull" using h assms(2) last_measurement[of memory_point None as] by fastforce
  then obtain t5 where t5: "formatDataSize (last_num (qd_reservedMemory s)) = Some t5" using formatDataSize_defined by blast
  show ?thesis by (simp add: timeline_table_def t1 t2 t3 t4 t5)
qed

lemma utilization_defined: "utilization_table q \<noteq> None"
proof -
  have "formatCount (JNum x) \<noteq> None" "formatDataSizeBytes (JNum x) \<noteq> None" for x
    using formatCount_num[of x] formatDataSize_num(2)[of x] by auto
  then show ?thesis by (auto simp: utilization_table_def Let_def bind_eq_None_conv)
qed

lemma failure_defined: "presentable q \<Longrightarrow> renderFailureInfo q \<noteq> None"
  by (auto simp: presentable_def renderFailureInfo_def split: option.splits)

text \<open>Once there is a query the page is initialised and both snapshots have been taken.\<close>

definition qd_ready :: "query_detail \<Rightarrow> bool" where
  "qd_ready s \<longleftrightarrow> (if qd_query s = None then qd_taskRefresh s else qd_initialized s \<and> qd_lastSnapshotTasks s \<noteq> SnNull)
     \<and> qd_lastSnapshotStage s \<noteq> SnNull"

lemma snapshot_of_not_null [simp]: "snapshot_of q \<noteq> SnNull"
  by (simp add: snapshot_of_def split: option.split)

lemma qd_ready_handle: "qd_handle c s = Some s' \<Longrightarrow> qd_ready s \<Longrightarrow> qd_ready s'"
  by (cases c) (auto simp: qd_click_defs qd_ready_def split: if_splits bind_splits)

lemma qd_onSuccess_initialized: "qd_initialized (qd_onSuccess q now calls1 calls2 s)"
  by (simp add: qd_onSuccess_def qd_resetTimer_def qd_addRates_def qd_setQuery_def Let_def)

lemma qd_onError_initialized: "qd_initialized (qd_onError calls s)"
  by (simp add: qd_onError_def qd_resetTimer_def Let_def)

lemma qd_ready_step: "qd_ready s \<Longrightarrow> qd_exec e s = Some s' \<Longrightarrow> qd_ready s'"
proof (cases e)
  case (QdClick c calls)
  assume r: "qd_ready s" "qd_exec e s = Some s'"
  with QdClick obtain s1 where s1: "qd_handle c s = Some s1" "s' = qd_componentDidUpdate calls s1" by (auto split: bind_splits)
  then show ?thesis using qd_ready_handle[OF s1(1) r(1)] by (simp add: qd_ready_def)
qed (auto simp: qd_ready_def qd_onSuccess_snapshots qd_onError_snapshots qd_onSuccess_initialized qd_onError_initialized qd_refreshLoop_def
      split: if_splits bind_splits)

lemma qd_ready_mount: "qd_ready QueryDetail_mount"
  by (simp add: qd_ready_def QueryDetail_mount_def qd_refreshLoop_def QueryDetail_init_def)

lemma qd_ready_reaches: "reaches qd_exec QueryDetail_mount s \<Longrightarrow> qd_ready s"
  by (induction rule: reaches.induct) (auto intro: qd_ready_mount qd_ready_step)

lemma qd_ready_run: "exec_all qd_exec es QueryDetail_mount = Some s \<Longrightarrow> qd_ready s"
  by (rule qd_ready_reaches) (unfold reaches_run, rule exI)

text \<open>
  C21. In every run on presentable answers the page renders.  Before the first answer it is a message
  without actions; afterwards it hands the query to the header, the stage snapshot to the list of the
  stages and the tasks of all stages of the task snapshot that pass the filter to the list of the tasks,
  and it offers the two refresh buttons and the five filters.  None of the actions it offers throws.
\<close>

theorem query_detail_run_renders:
  assumes "exec_all qd_exec es QueryDetail_mount = Some s" "\<forall>a \<in> set (query_answers es). presentable (fst a)"
  shows "\<exists>n. QueryDetail_render env s = Some n
    \<and> (case qd_query s of
         None \<Rightarrow> handlers n = [] \<and> children n = []
       | Some q \<Rightarrow> handlers n = StageRefreshClick # task_filter_clicks @ [TaskRefreshClick]
           \<and> children n = [QdQueryHeader q, StageList (queryId q) (snapshot_stage (qd_lastSnapshotStage s)), TaskList (queryId q) (shown_tasks s)])
    \<and> (\<forall>c \<in> set (handlers n). qd_handle c s \<noteq> None)"
proof (cases "qd_query s")
  case None
  then show ?thesis by (simp add: QueryDetail_render_def qd_message_def)
next
  case (Some q)
  have ready: "qd_initialized s" "qd_lastSnapshotStage s \<noteq> SnNull" "qd_lastSnapshotTasks s \<noteq> SnNull"
    using qd_ready_run[OF assms(1)] Some by (auto simp: qd_ready_def)
  note h = qd_history_from_mount[OF assms(1)]
  have "\<exists>a \<in> set (query_answers es). q = fst a"
    using h(1) Some by (auto simp: qd_totals_def last_answer_def split: if_splits)
  then have "renderFailureInfo q \<noteq> (None :: (qd_click, qd_child) vnode option)" using assms(2) failure_defined by blast
  moreover have "timeline_table s \<noteq> (None :: (qd_click, qd_child) vnode option)"
    by (rule timeline_defined[OF h(2)]) (use assms(2) in \<open>auto simp: presentable_def\<close>)
  moreover note utilization_defined[of q, where 'a = qd_click and 'b = qd_child]
  ultimately obtain n where n: "QueryDetail_page env q s = Some n" by (auto simp: QueryDetail_page_def)
  have "qd_handle c s \<noteq> None" for c using Some by (cases c) (simp_all add: qd_click_defs)
  then show ?thesis using page_offers[OF n ready(2,3)] n Some ready(1) by (simp add: QueryDetail_render_def)
qed

theorem query_detail_run_renders_witness:
  "\<exists>s n. exec_all qd_exec example_run QueryDetail_mount = Some s \<and> QueryDetail_render example_env s = Some n
     \<and> children n = [QdQueryHeader (example_query_info ''FINISHED'' None True), StageList ''q'' None, TaskList ''q'' []]
     \<and> (\<forall>c \<in> set (handlers n). qd_handle c s \<noteq> None)"
proof -
  let ?q = "example_query_info ''FINISHED'' None True" and ?r = "example_query_info ''RUNNING'' None False"
  have a: "query_answers example_run = [(?r, 1000000), (?q, 1003000)]" by (simp add: example_run_def)
  have "presentable ?r" "presentable ?q" by code_simp+
  then have p: "\<forall>a \<in> set (query_answers example_run). presentable (fst a)" by (simp add: a)
  have "(case exec_all qd_exec example_run QueryDetail_mount of None \<Rightarrow> False
    | Some s \<Rightarrow> qd_query s = Some ?q \<and> snapshot_stage (qd_lastSnapshotStage s) = None \<and> shown_tasks s = []) \<and> queryId ?q = ''q''"
    by code_simp
  then obtain s where s: "exec_all qd_exec example_run QueryDetail_mount = Some s" "qd_query s = Some ?q"
    "snapshot_stage (qd_lastSnapshotStage s) = None" "shown_tasks s = []" "queryId ?q = ''q''" by (auto split: option.splits)
  obtain n where n: "QueryDetail_render example_env s = Some n"
    "children n = [QdQueryHeader ?q, StageList ''q'' None, TaskList ''q'' []]" "\<forall>c \<in> set (handlers n). qd_handle c s \<noteq> None"
    using query_detail_run_renders[OF s(1) p, of example_env] s by auto
  show ?thesis by (intro exI conjI) (fact s(1) n)+
qed

end
