(* ===== verification/Pages.thy ===== *)
theory Pages
  imports QueryListLaws ClusterHUD PageTitle WorkerStatus WorkerThreadList StageDetail LivePlan QueryDetailView
begin

text \<open>
  The entry points \<^verbatim>\<open>src/index.jsx\<close>, \<^verbatim>\<open>query.jsx\<close>, \<^verbatim>\<open>plan.jsx\<close>, \<^verbatim>\<open>embedded_plan.jsx\<close>, \<^verbatim>\<open>stage.jsx\<close> and
  \<^verbatim>\<open>worker.jsx\<close>: the components each page mounts, and the page as their composition.  The components of a
  page share nothing but the event loop of the browser, which takes their events in any order.
\<close>

section \<open>Entry points\<close>

text \<open>What an entry point renders: a component with its props, into the element with an id.\<close>

datatype page_component =
    PagePageTitle string
  | PageClusterHUD
  | PageQueryList
  | PageQueryDetail
  | PageLivePlan string bool
  | PageStageDetail
  | PageWorkerStatus
  | PageWorkerThreadList

type_synonym entry_point = "(page_component \<times> string) list"

definition index_entry :: entry_point where
  "index_entry = [(PagePageTitle ''Cluster Overview'', ''title''), (PageClusterHUD, ''cluster-hud''), (PageQueryList, ''query-list'')]"

definition query_entry :: entry_point where
  "query_entry = [(PagePageTitle ''Query Details'', ''title''), (PageQueryDetail, ''query-detail'')]"

definition plan_entry :: "string \<Rightarrow> entry_point" where
  "plan_entry search = [(PagePageTitle ''Query Details'', ''title''), (PageLivePlan (getFirstParameter search) False, ''live-plan-container'')]"

definition embedded_plan_entry :: "string \<Rightarrow> entry_point" where
  "embedded_plan_entry search = [(PageLivePlan (getFirstParameter search) True, ''live-plan-container'')]"

definition stage_entry :: entry_point where
  "stage_entry = [(PagePageTitle ''Query Details'', ''title''), (PageStageDetail, ''stage-performance-header'')]"

definition worker_entry :: entry_point where
  "worker_entry =
    [(PagePageTitle ''Worker Status'', ''title''), (PageWorkerStatus, ''worker-status''), (PageWorkerThreadList, ''worker-threads'')]"

section \<open>Composition\<close>

text \<open>Two components side by side: an event of one leaves the other alone.\<close>

fun beside :: "('a \<Rightarrow> 's \<Rightarrow> 's option) \<Rightarrow> ('b \<Rightarrow> 't \<Rightarrow> 't option) \<Rightarrow> 'a + 'b \<Rightarrow> 's \<times> 't \<Rightarrow> ('s \<times> 't) option" where
  "beside f g (Inl a) (s, t) = map_option (\<lambda>s'. (s', t)) (f a s)"
| "beside f g (Inr b) (s, t) = map_option (\<lambda>t'. (s, t')) (g b t)"

fun lefts :: "('a + 'b) list \<Rightarrow> 'a list" where
  "lefts [] = []"
| "lefts (Inl a # es) = a # lefts es"
| "lefts (Inr b # es) = lefts es"

fun rights :: "('a + 'b) list \<Rightarrow> 'b list" where
  "rights [] = []"
| "rights (Inl a # es) = rights es"
| "rights (Inr b # es) = b # rights es"

text \<open>
  The pages, with the state each component has once it is mounted; the integers are the readings of the
  clock by the constructors.
\<close>

definition index_exec :: "env \<Rightarrow> pt_event + hud_event + ql_event \<Rightarrow> page_title \<times> cluster_hud \<times> query_list
    \<Rightarrow> (page_title \<times> cluster_hud \<times> query_list) option" where
  "index_exec env = beside pt_exec (beside hud_exec (ql_exec env))"

definition index_mount :: "int \<Rightarrow> int \<Rightarrow> int \<Rightarrow> page_title \<times> cluster_hud \<times> query_list" where
  "index_mount now n1 n2 = (PageTitle_mount now, ClusterHUD_mount, QueryList_mount n1 n2)"

definition query_exec :: "pt_event + qd_event \<Rightarrow> page_title \<times> query_detail \<Rightarrow> (page_title \<times> query_detail) option" where
  "query_exec = beside pt_exec qd_exec"

definition query_mount :: "int \<Rightarrow> page_title \<times> query_detail" where
  "query_mount now = (PageTitle_mount now, QueryDetail_mount)"

definition plan_exec :: "pt_event + lp_event \<Rightarrow> page_title \<times> live_plan \<Rightarrow> (page_title \<times> live_plan) option" where
  "plan_exec = beside pt_exec (lp_exec False)"

definition plan_mount :: "int \<Rightarrow> page_title \<times> live_plan" where
  "plan_mount now = (PageTitle_mount now, LivePlan_mount)"

definition embedded_plan_exec :: "lp_event \<Rightarrow> live_plan \<Rightarrow> live_plan option" where
  "embedded_plan_exec = lp_exec True"

definition stage_exec :: "string \<Rightarrow> pt_event + sg_event \<Rightarrow> page_title \<times> stage_detail \<Rightarrow> (page_title \<times> stage_detail) option" where
  "stage_exec search = beside pt_exec (sg_exec search)"

definition stage_mount :: "string \<Rightarrow> int \<Rightarrow> page_title \<times> stage_detail" where
  "stage_mount search now = (PageTitle_mount now, StageDetail_mount search)"

definition worker_exec :: "pt_event + ws_event + wt_event \<Rightarrow> page_title \<times> worker_status \<times> worker_thread_list
    \<Rightarrow> (page_title \<times> worker_status \<times> worker_thread_list) option" where
  "worker_exec = beside pt_exec (beside ws_exec wt_exec)"

definition worker_mount :: "int \<Rightarrow> page_title \<times> worker_status \<times> worker_thread_list" where
  "worker_mount now = (PageTitle_mount now, WorkerStatus_mount, WorkerThreadList_init)"

section \<open>Laws\<close>

text \<open>A run of a composition is a run of each part: how their events are interleaved does not matter.\<close>

lemma beside_run:
  "exec_all (beside f g) es (s, t) = Some (s', t') \<longleftrightarrow> exec_all f (lefts es) s = Some s' \<and> exec_all g (rights es) t = Some t'"
proof (induction es arbitrary: s t)
  case (Cons e es)
  then show ?case by (cases e) (auto split: bind_splits)
qed auto

lemma beside_interleaving:
  assumes "lefts es = lefts fs" "rights es = rights fs"
  shows "exec_all (beside f g) es st = exec_all (beside f g) fs st"
proof (cases st)
  case (Pair s t)
  have "exec_all (beside f g) es (s, t) = Some u \<longleftrightarrow> exec_all (beside f g) fs (s, t) = Some u" for u
    by (cases u) (simp add: beside_run assms)
  then show ?thesis unfolding Pair by (metis not_None_eq)
qed

lemma all_True [simp]: "list_all (\<lambda>_. True) es"
  by (simp add: list_all_iff)

text \<open>
  C24. The seven polling components refine one abstract machine that is asking, waiting or has stopped.
  Every run of a component, with its events reduced to what they mean for the refresh loop, is a run of
  the machine from asking to the phase the component is in.  Hence in the events of every component the
  timeouts and the answers of its loop take turns, beginning with an answer.
\<close>

theorem components_refine_machine:
  assumes "exec_all pt_exec es1 (PageTitle_mount now) = Some s1" "exec_all hud_exec es2 ClusterHUD_mount = Some s2"
    and "exec_all (ql_exec env) es3 (QueryList_mount n1 n2) = Some s3" "list_all ql_ok es3"
    and "exec_all ws_exec es4 WorkerStatus_mount = Some s4" "exec_all (sg_exec search) es5 (StageDetail_mount search) = Some s5"
    and "exec_all (lp_exec isEmbedded) es6 LivePlan_mount = Some s6" "exec_all qd_exec es7 QueryDetail_mount = Some s7"
  shows "poll_run (map pt_kind es1) Asking (phase_of (pt_timeout s1) (pt_requests s1))
    \<and> poll_run (map hud_kind es2) Asking (phase_of (h_timeout s2) (h_requests s2))
    \<and> poll_run (map ql_kind es3) Asking (phase_of (ql_timeout s3) (ql_requests s3))
    \<and> poll_run (map ws_kind es4) Asking (phase_of (ws_timeout s4) (ws_requests s4))
    \<and> poll_run (map sg_kind es5) Asking (phase_of (sg_timeout s5) (length (sg_requests s5)))
    \<and> poll_run (map lp_kind es6) Asking (phase_of (lp_timeout s6) (lp_requests s6))
    \<and> poll_run (map qd_kind es7) Asking (phase_of (qd_timeout s7) (qd_requests s7))
    \<and> list_all (takes_turns Asking) [map pt_kind es1, map hud_kind es2, map ql_kind es3, map ws_kind es4, map sg_kind es5, map lp_kind es6, map qd_kind es7]"
proof -
  show ?thesis
    using title_loop.refines_machine[OF _ assms(1)] hud_loop.refines_machine[OF refl assms(2)] ql_loop.refines_machine[OF _ assms(3,4)]
      ws_loop.refines_machine[OF refl assms(5)] sg_loop.refines_machine[OF refl assms(6)] lp_loop.refines_machine[OF refl assms(7)]
      qd_loop.refines_machine[OF refl assms(8)] poll_run_turns by auto
qed

theorem components_refine_machine_witness:
  "\<exists>s. exec_all qd_exec example_run QueryDetail_mount = Some s
    \<and> poll_run [Answers, Fires 0, Answers, Quiet] Asking (phase_of (qd_timeout s) (qd_requests s))
    \<and> phase_of (qd_timeout s) (qd_requests s) = Stopped"
proof -
  have "(case exec_all qd_exec example_run QueryDetail_mount of None \<Rightarrow> False | Some s \<Rightarrow> phase_of (qd_timeout s) (qd_requests s) = Stopped)"
    by code_simp
  then obtain s where s: "exec_all qd_exec example_run QueryDetail_mount = Some s" "phase_of (qd_timeout s) (qd_requests s) = Stopped"
    by (auto split: option.splits)
  have run: "exec_all f [] t = Some t" for f :: "'x \<Rightarrow> 'y \<Rightarrow> 'y option" and t by simp
  have k: "map qd_kind example_run = [Answers, Fires 0, Answers, Quiet]" by (simp add: example_run_def)
  have "poll_run (map qd_kind example_run) Asking (phase_of (qd_timeout s) (qd_requests s))"
    using components_refine_machine[OF run[of pt_exec "PageTitle_mount 0"] run run[of "ql_exec example_env" "QueryList_mount 0 0"] _ run run[of "sg_exec []"] run s(1)] by simp
  then show ?thesis using s unfolding k by blast
qed

end
