(* ===== verification/Timeline.thy ===== *)
theory Timeline
  imports TaskList OperatorGraph JsJson
begin

text \<open>
  \<^verbatim>\<open>webapp/timeline.html\<close>: the page behind the tab of the splits, which draws the tasks of a query on a time
  line: one group of bars per stage, and for every task four bars, from its creation over the starts of its
  first and last split and the end of the last one to its own end.  The library \<open>vis\<close> draws them; what it is
  given is modelled.
\<close>

section \<open>Numbers of texts\<close>

text \<open>\<open>Number(s)\<close>, as \<open>s == 0\<close> and \<open>-s\<close> take it of a string.\<close>

definition unsigned_number :: "string \<Rightarrow> jsnum" where
  "unsigned_number s =
    (if s = ''Infinity'' then PInf
     else let ip = takeWhile is_digit s; u = dropWhile is_digit s;
              frac = hd_is (CHR ''.'') u;
              fp = (if frac then takeWhile is_digit (tl u) else []);
              v = (if frac then dropWhile is_digit (tl u) else u)
          in if ip = [] \<and> fp = [] then NaN
             else case parse_exp v of Some (e, []) \<Rightarrow> fl (decimal_val ip fp * 10 powi e) | _ \<Rightarrow> NaN)"

definition radix_number :: "int \<Rightarrow> string \<Rightarrow> jsnum" where
  "radix_number radix s =
    (if s \<noteq> [] \<and> list_all (\<lambda>c. case hex_val (lower_char c) of None \<Rightarrow> False | Some d \<Rightarrow> d < radix) s
     then fl (of_int (foldl (\<lambda>n c. radix * n + the (hex_val (lower_char c))) 0 s)) else NaN)"

definition to_number :: "string \<Rightarrow> jsnum" where
  "to_number s =
    (let t = trim s
     in if t = [] then Fin 0
        else if take 2 t \<in> {''0x'', ''0X''} then radix_number 16 (drop 2 t)
        else if take 2 t \<in> {''0o'', ''0O''} then radix_number 8 (drop 2 t)
        else if take 2 t \<in> {''0b'', ''0B''} then radix_number 2 (drop 2 t)
        else if hd t = CHR ''-'' then js_neg (unsigned_number (tl t))
        else if hd t = CHR ''+'' then unsigned_number (tl t)
        else unsigned_number t)"

section \<open>The time line\<close>

definition timeline_url :: "string \<Rightarrow> string" where
  "timeline_url search = ''/v1/query/'' @ substring_from search 1"

definition getTasks :: "stage_info \<Rightarrow> task_info list" where
  "getTasks stage = stage_tasks stage"

record timeline_task =
  tt_taskId :: string
  tt_create :: string
  tt_firstStart :: "string option"
  tt_lastStart :: "string option"
  tt_lastEnd :: "string option"
  tt_end :: "string option"

definition timeline_task :: "task_info \<Rightarrow> timeline_task" where
  "timeline_task task =
    \<lparr> tt_taskId = substring_from (tk_taskId task) (index_of ''.'' (tk_taskId task) + 1), tt_create = tk_createTime task,
      tt_firstStart = tk_firstStartTime task, tt_lastStart = tk_lastStartTime task, tt_lastEnd = tk_lastEndTime task, tt_end = tk_endTime task \<rparr>"

record timeline_group =
  gr_id :: string
  gr_content :: string
  gr_sort :: string
  gr_subgroupOrder :: string

record timeline_item =
  it_group :: string
  it_start :: "string option"
  it_end :: "string option"
  it_className :: string
  it_subgroup :: string
  it_sort :: jsnum

text \<open>\<open>s.substr(0, n)\<close>, which is empty for a negative \<open>n\<close>, and \<open>s.substr(n)\<close> for \<open>n\<close> within the string.\<close>

definition timeline_stage :: "timeline_task \<Rightarrow> string" where
  "timeline_stage task = take (nat (index_of ''.'' (tt_taskId task))) (tt_taskId task)"

definition taskNumber :: "timeline_task \<Rightarrow> string" where
  "taskNumber task = drop (nat (index_of ''.'' (tt_taskId task) + 1)) (tt_taskId task)"

definition task_groups :: "timeline_task \<Rightarrow> timeline_group list" where
  "task_groups task =
    (if js_eq (to_number (taskNumber task)) (Fin 0)
     then [\<lparr> gr_id = timeline_stage task, gr_content = timeline_stage task, gr_sort = timeline_stage task, gr_subgroupOrder = ''sort'' \<rparr>] else [])"

definition task_item :: "timeline_task \<Rightarrow> string option \<Rightarrow> string option \<Rightarrow> string \<Rightarrow> timeline_item" where
  "task_item task start stop cls =
    \<lparr> it_group = timeline_stage task, it_start = start, it_end = stop, it_className = cls, it_subgroup = taskNumber task,
      it_sort = js_neg (to_number (taskNumber task)) \<rparr>"

definition task_items :: "timeline_task \<Rightarrow> timeline_item list" where
  "task_items task =
    [task_item task (Some (tt_create task)) (tt_firstStart task) ''red'',
     task_item task (tt_firstStart task) (tt_lastStart task) ''green'',
     task_item task (tt_lastStart task) (tt_lastEnd task) ''blue'',
     task_item task (tt_lastEnd task) (tt_end task) ''orange'']"

definition renderTimeline :: "query_info \<Rightarrow> (timeline_group list \<times> timeline_item list) throws" where
  "renderTimeline q =
    do {
      outputStage \<leftarrow> qi_outputStage q;
      let tasks = map timeline_task (getTasks outputStage);
      Some (concat (map task_groups tasks), concat (map task_items tasks)) }"

text \<open>The callback of the request; a failed one is answered with \<open>null\<close>, of which nothing can be read.\<close>

definition timeline_callback :: "query_info option \<Rightarrow> (string \<times> timeline_group list \<times> timeline_item list) throws" where
  "timeline_callback response = do { q \<leftarrow> response; (groups, items) \<leftarrow> renderTimeline q; Some (queryId q, groups, items) }"

section \<open>Laws\<close>

lemma to_number_show_nat:
  assumes "0 \<le> n" "n \<le> 2 ^ 53"
  shows "to_number (show_nat n) = num_int n"
proof -
  let ?s = "show_nat n"
  have d: "\<forall>c \<in> set ?s. is_digit c" using show_nat_digits[OF assms(1)] by (simp add: list_all_iff)
  then have w: "\<forall>c \<in> set ?s. \<not> is_ws c" by (auto simp: is_ws_def is_digit_def)
  then have "\<not> is_ws (hd ?s)" "\<not> is_ws (hd (rev ?s))" by (simp_all add: hd_rev)
  then have "dropWhile is_ws ?s = ?s" "dropWhile is_ws (rev ?s) = rev ?s" by (simp_all add: dropWhile_eq_self_iff)
  then have t: "trim ?s = ?s" by (simp add: trim_def trim_start_def trim_end_def)
  have h: "is_digit (hd ?s)" using d by simp
  then have sg: "hd ?s \<noteq> CHR ''-''" "hd ?s \<noteq> CHR ''+''" by (auto simp: is_digit_def)
  have "\<forall>c \<in> set (take 2 ?s). is_digit c" using d in_set_takeD by fast
  then have r: "take 2 ?s \<notin> {''0x'', ''0X''} \<union> {''0o'', ''0O''} \<union> {''0b'', ''0B''}" by (auto simp: is_digit_def)
  have i: "?s \<noteq> ''Infinity''" using h by (auto simp: is_digit_def)
  have u: "takeWhile is_digit ?s = ?s" "dropWhile is_digit ?s = []" using d by (simp_all add: takeWhile_eq_all_conv)
  have "unsigned_number ?s = fl (of_int n)"
    using i by (simp add: unsigned_number_def u hd_is_def parse_exp_def decimal_val_def digits_val_show_nat[OF assms(1)])
  also have "\<dots> = num_int n" using assms by (intro fl_of_int) simp
  finally show ?thesis using r sg by (simp add: to_number_def t Let_def)
qed

text \<open>The tasks as the server names them: \<open>query.stage.number\<close>.\<close>

lemma timeline_names:
  assumes "tk_taskId task = i @ ''.'' @ show_nat s @ ''.'' @ show_nat n" "CHR ''.'' \<notin> set i" "0 \<le> s"
  shows "timeline_stage (timeline_task task) = show_nat s" "taskNumber (timeline_task task) = show_nat n"
proof -
  have "CHR ''.'' \<notin> set (show_nat s)" using show_nat_digits[OF assms(3)] by (auto simp: list_all_iff is_digit_def)
  note d = index_of_first[OF this]
  have "tt_taskId (timeline_task task) = show_nat s @ ''.'' @ show_nat n"
    using index_of_first[OF assms(2)] by (simp add: timeline_task_def assms(1) substring_from_nonneg nat_add_distrib)
  then show "timeline_stage (timeline_task task) = show_nat s" "taskNumber (timeline_task task) = show_nat n"
    using d by (simp_all add: timeline_stage_def taskNumber_def nat_add_distrib)
qed

lemma concat_filter_unique:
  assumes "x \<in> set xs" "distinct xs" "\<And>y. y \<in> set xs \<Longrightarrow> filter P (f y) = (if y = x then f y else [])"
  shows "filter P (concat (map f xs)) = f x"
  using assms
proof (induction xs)
  case (Cons y ys)
  show ?case
  proof (cases "y = x")
    case True
    then have "filter P (concat (map f ys)) = []" using Cons.prems(2,3) by (force simp: filter_concat)
    then show ?thesis using True Cons.prems(3)[of y] by simp
  next
    case False
    then show ?thesis using Cons by auto
  qed
qed simp

text \<open>
  C19. The time line of a query whose tasks the server named.  Every task has exactly four bars in the group
  of its stage, red, green, blue and orange, which follow one another without a gap from the creation of
  the task to its end; and there is one group for every stage that has a task with number zero, and no other.
\<close>

theorem timeline_complete:
  assumes "qi_outputStage q = Some outputStage" "distinct (map tk_taskId (stage_tasks outputStage))" "CHR ''.'' \<notin> set i"
    and all: "\<forall>t \<in> set (stage_tasks outputStage).
      tk_taskId t = i @ ''.'' @ show_nat (st t) @ ''.'' @ show_nat (nr t) \<and> 0 \<le> st t \<and> 0 \<le> nr t \<and> nr t \<le> 2 ^ 53"
  shows "\<exists>groups items. renderTimeline q = Some (groups, items)
    \<and> map gr_id groups = map (\<lambda>t. show_nat (st t)) (filter (\<lambda>t. nr t = 0) (stage_tasks outputStage)) \<and> distinct (map gr_id groups)
    \<and> (\<forall>t \<in> set (stage_tasks outputStage). \<exists>a b c d.
        filter (\<lambda>x. it_group x = show_nat (st t) \<and> it_subgroup x = show_nat (nr t)) items = [a, b, c, d]
      \<and> map it_className [a, b, c, d] = [''red'', ''green'', ''blue'', ''orange'']
      \<and> it_start a = Some (tk_createTime t) \<and> it_end a = it_start b \<and> it_end b = it_start c \<and> it_end c = it_start d \<and> it_end d = tk_endTime t)"
proof -
  note ids = bspec[OF all]
  let ?ts = "stage_tasks outputStage" and ?g = "\<lambda>t. task_groups (timeline_task t)" and ?f = "\<lambda>t. task_items (timeline_task t)"
  have n: "timeline_stage (timeline_task t) = show_nat (st t)" "taskNumber (timeline_task t) = show_nat (nr t)" if "t \<in> set ?ts" for t
    using timeline_names[OF _ assms(3)] ids[OF that] by blast+
  have z: "js_eq (to_number (show_nat (nr t))) (Fin 0) \<longleftrightarrow> nr t = 0" if "t \<in> set ?ts" for t
    using ids[OF that] by (simp add: to_number_show_nat js_eq_def)
  have gid: "map gr_id (concat (map ?g ts)) = map (\<lambda>t. show_nat (st t)) (filter (\<lambda>t. nr t = 0) ts)" if "set ts \<subseteq> set ?ts" for ts
    using that by (induction ts) (simp_all add: task_groups_def n z)
  have inj: "t = u" if "t \<in> set ?ts" "u \<in> set ?ts" "show_nat (st t) = show_nat (st u)" "show_nat (nr t) = show_nat (nr u)" for t u
    using that ids[OF that(1)] ids[OF that(2)] by (intro distinct_map_inj[OF assms(2)]) auto
  have "distinct ?ts" using assms(2) by (simp add: distinct_map)
  then have dg: "distinct (map (\<lambda>t. show_nat (st t)) (filter (\<lambda>t. nr t = 0) ?ts))"
    by (auto simp: distinct_map inj_on_def intro: inj)
  have items: "filter (\<lambda>x. it_group x = show_nat (st t) \<and> it_subgroup x = show_nat (nr t)) (concat (map ?f ?ts)) = ?f t" if "t \<in> set ?ts" for t
  proof (rule concat_filter_unique[OF that \<open>distinct ?ts\<close>])
    fix u assume u: "u \<in> set ?ts"
    show "filter (\<lambda>x. it_group x = show_nat (st t) \<and> it_subgroup x = show_nat (nr t)) (?f u) = (if u = t then ?f u else [])"
      using inj[OF u that] by (auto simp: task_items_def task_item_def n[OF u] n[OF that])
  qed
  have r: "renderTimeline q = Some (concat (map ?g ?ts), concat (map ?f ?ts))"
    by (simp add: renderTimeline_def assms(1) getTasks_def comp_def)
  have bars: "\<exists>a b c d. ?f t = [a, b, c, d] \<and> map it_className [a, b, c, d] = [''red'', ''green'', ''blue'', ''orange'']
    \<and> it_start a = Some (tk_createTime t) \<and> it_end a = it_start b \<and> it_end b = it_start c \<and> it_end c = it_start d \<and> it_end d = tk_endTime t" for t
    by (simp add: task_items_def task_item_def timeline_task_def)
  show ?thesis
    by (rule exI, rule exI, intro conjI ballI, rule r) (simp_all only: gid[OF order_refl] dg items bars)
qed

definition example_split_stages :: stage_info where
  "example_split_stages =
    StageInfo ''q.0'' ''RUNNING'' None example_stats [(example_task ''q.0.0'' [] ''FINISHED'')\<lparr> tk_firstStartTime := Some ''t1'', tk_endTime := Some ''t2'' \<rparr>]
      [StageInfo ''q.1'' ''RUNNING'' None example_stats [example_task ''q.1.0'' [] ''RUNNING'', example_task ''q.1.1'' [] ''RUNNING''] []]"

theorem timeline_complete_witness:
  "\<exists>groups items. renderTimeline (example_query_info ''RUNNING'' (Some example_split_stages) False) = Some (groups, items) \<and> map gr_id groups = [''0'', ''1'']"
proof -
  let ?q = "example_query_info ''RUNNING'' (Some example_split_stages) False"
  let ?t = "(example_task ''q.0.0'' [] ''FINISHED'')\<lparr> tk_firstStartTime := Some ''t1'', tk_endTime := Some ''t2'' \<rparr>"
  let ?u = "example_task ''q.1.0'' [] ''RUNNING''" and ?v = "example_task ''q.1.1'' [] ''RUNNING''"
  let ?st = "\<lambda>t. if tk_taskId t = ''q.0.0'' then 0 else 1 :: int" and ?nr = "\<lambda>t. if tk_taskId t = ''q.1.1'' then 1 else 0 :: int"
  have q: "qi_outputStage ?q = Some example_split_stages" by (simp add: example_query_info_def query.defs query_info.defs)
  have ts: "stage_tasks example_split_stages = [?t, ?u, ?v]" by (simp add: stage_tasks_list example_split_stages_def)
  have i: "tk_taskId ?t = ''q.0.0''" "tk_taskId ?u = ''q.1.0''" "tk_taskId ?v = ''q.1.1''" by (simp_all add: example_task_def)
  have s: "show_nat 0 = ''0''" "show_nat 1 = ''1''" by code_simp+
  have d: "distinct (map tk_taskId (stage_tasks example_split_stages))" by (simp add: ts i)
  have dot: "CHR ''.'' \<notin> set ''q''" by simp
  have ids: "\<forall>t \<in> set (stage_tasks example_split_stages). tk_taskId t = ''q'' @ ''.'' @ show_nat (?st t) @ ''.'' @ show_nat (?nr t) \<and> 0 \<le> ?st t \<and> 0 \<le> ?nr t \<and> ?nr t \<le> 2 ^ 53"
    unfolding ts by (auto simp: i s)
  from timeline_complete[OF q d dot, of ?st ?nr, OF ids] obtain groups items where "renderTimeline ?q = Some (groups, items)"
    "map gr_id groups = map (\<lambda>t. show_nat (?st t)) (filter (\<lambda>t. ?nr t = 0) (stage_tasks example_split_stages))"
    by (elim exE conjE) (rule that)
  then show ?thesis by (simp add: ts i s)
qed

end
