(* ===== verification/Navigation.thy ===== *)
theory Navigation
  imports Pages Timeline
begin

text \<open>
  The links between the pages: the addresses one page opens and what the page behind them asks for and
  shows.
\<close>

text \<open>The search part of an address that has one.\<close>

definition location_search :: "string \<Rightarrow> string" where
  "location_search address = dropWhile (\<lambda>c. c \<noteq> CHR ''?'') address"

lemma stage_address:
  assumes "CHR ''.'' \<notin> set i" "CHR ''&'' \<notin> set i" "0 \<le> n"
  shows "location_search (handleStageClick (i @ ''.'' @ show_nat n)) = ''?'' @ i @ ''.'' @ show_nat n"
    "split_char (CHR ''.'') (getFirstParameter (''?'' @ i @ ''.'' @ show_nat n)) = [i, show_nat n]"
proof -
  have d: "list_all is_digit (show_nat n)" using show_nat_digits[OF assms(3)] by blast
  then have "CHR ''&'' \<notin> set (show_nat n)" "CHR ''.'' \<notin> set (show_nat n)" by (auto simp: list_all_iff is_digit_def)
  then show "split_char (CHR ''.'') (getFirstParameter (''?'' @ i @ ''.'' @ show_nat n)) = [i, show_nat n]"
    using assms getFirstParameter_first(2)[of "i @ ''.'' @ show_nat n"]
    by (simp add: split_char_append split_char_no_sep)
  show "location_search (handleStageClick (i @ ''.'' @ show_nat n)) = ''?'' @ i @ ''.'' @ show_nat n"
    by (simp add: location_search_def handleStageClick_def)
qed

text \<open>
  C11. From the plan to the stage.  A click on the cluster of a stage in the live plan opens an address from
  which the stage page reads the id of the query and the number of the stage: its first request asks for
  that query, and on the answer it shows the stage clicked on, with its operator graph once the query
  has ended.  This holds for the ids of the server: a query id without dots and ampersands, stages
  numbered by their plan fragments, and answers the page can show.
\<close>

theorem stage_click_shows_stage:
  assumes "qi_outputStage q = Some outputStage" "numbered_stages q outputStage"
    and "t \<in> set (stage_list outputStage)" "st_plan t = Some plan" "pf_id plan = show_nat n" "0 \<le> n" "n \<le> 2 ^ 53"
    and "CHR ''.'' \<notin> set (queryId q)" "CHR ''&'' \<notin> set (queryId q)" "sg_presentable q"
  defines "search \<equiv> location_search (handleStageClick (st_stageId t))"
  shows "map fst (sg_requests (StageDetail_mount search)) = [''/v1/query/'' @ queryId q]
    \<and> (\<exists>s v. sg_exec search (StageSuccess 0 q) (StageDetail_mount search) = Some s \<and> sg_mounted s \<and> StageDetail_render s = Some v
        \<and> children v = SgQueryHeader q # (if isQueryEnded q then [StageOperatorGraph t] else []))"
proof -
  have i: "st_stageId t = queryId q @ ''.'' @ show_nat n" using assms(2-5) by (auto simp: numbered_stages_def list_all_iff)
  note a = stage_address[OF assms(8,9,6)]
  have m: "sg_requests (StageDetail_mount search) = [(''/v1/query/'' @ queryId q, SelNum (num_int n))]"
    unfolding search_def i a StageDetail_mount_def sg_refreshLoop_def Let_def
    using parse_int_show_nat[OF assms(6,7)] by (simp add: StageDetail_init_def a(2)[simplified])
  let ?u = "(drop_request 0 (StageDetail_mount search))\<lparr> sg_initialized := True, sg_ended := qi_finalQueryInfo q,
    sg_selectedStageId := Some (SelNum (num_int n)), sg_query := Some q \<rparr>"
  define s where "s = sg_resetTimer ?u"
  have "sg_renders ?u" using assms(10) by (intro sg_renders_presentable) simp
  moreover have "sg_mounted (drop_request 0 (StageDetail_mount search))" 
    by (simp add: drop_request_def StageDetail_mount_def sg_refreshLoop_def StageDetail_init_def Let_def)
  ultimately have "sg_exec search (StageSuccess 0 q) (StageDetail_mount search) = Some s" "sg_mounted s"
    by (simp_all add: m s_def sg_onSuccess_def sg_setState_def then_resetTimer_def)
  moreover have "show_selection (sg_selectedStageId s) = pf_id plan"
    using num_to_string_int[of n] assms(5-7) by (simp add: s_def show_int_def del: num_to_string.simps)
  then have "\<exists>v. StageDetail_render s = Some v \<and> children v = SgQueryHeader q # (if isQueryEnded q then [StageOperatorGraph t] else [])"
    using render_selected[of s q outputStage t plan] assms(1-4) by (auto simp: s_def)
  ultimately show ?thesis using m by auto
qed

theorem stage_click_shows_stage_witness:
  "\<exists>s v. sg_exec ''?q.1'' (StageSuccess 0 (example_query_info ''FINISHED'' (Some example_stages) True)) (StageDetail_mount ''?q.1'') = Some s
    \<and> StageDetail_render s = Some v
    \<and> children v = [SgQueryHeader (example_query_info ''FINISHED'' (Some example_stages) True), StageOperatorGraph (hd (st_subStages example_stages))]"
proof -
  let ?q = "example_query_info ''FINISHED'' (Some example_stages) True" and ?t = "hd (st_subStages example_stages)"
  let ?plan = "\<lparr> pf_id = ''1'', pf_root = example_root, pf_jsonRepresentation = None \<rparr>"
  have t: "?t \<in> set (stage_list example_stages)" "st_plan ?t = Some ?plan" by (simp_all add: example_stages_def)
  have q: "qi_outputStage ?q = Some example_stages" by (simp add: example_query_info_def query.defs query_info.defs)
  have h: "numbered_stages ?q example_stages" "isQueryEnded ?q" "pf_id ?plan = show_nat 1" "queryId ?q = ''q''"
    "location_search (handleStageClick (st_stageId ?t)) = ''?q.1''" by code_simp+
  have c: "error_consistent ?q" by code_simp
  show ?thesis using stage_click_shows_stage[OF q h(1) t h(3) _ _ _ _ example_presentable[OF c]] h(2,4,5) by (auto simp del: sg_exec.simps)
qed

text \<open>
  The tabs of the header: each of the four pages of a query reads the id of the query back from the
  address of its tab and asks for that query.
\<close>

lemma tabs_lead_to_query:
  assumes "CHR ''.'' \<notin> set (queryId q)" "CHR ''&'' \<notin> set (queryId q)"
  shows "query_url (''?'' @ queryId q) = ''/v1/query/'' @ queryId q"
    "live_plan_url (getFirstParameter (''?'' @ queryId q)) = ''/v1/query/'' @ queryId q"
    "sg_requests (StageDetail_mount (''?'' @ queryId q)) = [(''/v1/query/'' @ queryId q, SelNum (Fin 0))]"
    "timeline_url (''?'' @ queryId q) = ''/v1/query/'' @ queryId q"
  using assms getFirstParameter_first(2)[of "queryId q"]
  by (simp_all add: query_url_def live_plan_url_def StageDetail_mount_def sg_refreshLoop_def StageDetail_init_def split_char_no_sep timeline_url_def substring_from_nonneg)

end
