(* ===== verification/QueryListView.thy ===== *)
theory QueryListView
  imports QueryListLaws
begin

text \<open>
  \<^verbatim>\<open>src/components/QueryList.jsx\<close>, the \<open>render\<close> methods of the class \<open>QueryList\<close>: the toolbar with
  its filters and menus and the list below it, and what the tree they return shows and offers.
\<close>

datatype ql_handler = OnClick ql_event | OnSearchChange

datatype ql_child = DisplayedQueriesList "query list"

type_synonym ql_node = "(ql_handler, ql_child) vnode"

definition selected_class :: "bool \<Rightarrow> string" where
  "selected_class b = (if b then ''selected'' else [])"

definition renderMaxQueriesListItem :: "query_list \<Rightarrow> nat \<Rightarrow> string \<Rightarrow> ql_node" where
  "renderMaxQueriesListItem s n maxQueriesText =
    el ''li'' [Elem ''a'' [attr ''href'' ''#'', className (selected_class (maxQueries s = n)), onClick (OnClick (MaxQueriesClick n))]
      [Text maxQueriesText]]"

definition renderReorderListItem :: "query_list \<Rightarrow> int \<Rightarrow> string \<Rightarrow> ql_node" where
  "renderReorderListItem s interval intervalText =
    el ''li'' [Elem ''a'' [attr ''href'' ''#'', className (selected_class (reorderInterval s = interval)), onClick (OnClick (ReorderClick interval))]
      [Text intervalText]]"

definition renderSortListItem :: "query_list \<Rightarrow> sort_type \<Rightarrow> string \<Rightarrow> ql_node" where
  "renderSortListItem s sortType sortText =
    (if currentSortType s = sortType
     then let directionArrow = (if currentSortOrder s = ASCENDING then elc ''span'' ''glyphicon glyphicon-triangle-top'' []
                                else elc ''span'' ''glyphicon glyphicon-triangle-bottom'' [])
          in el ''li'' [Elem ''a'' [attr ''href'' ''#'', className ''selected'', onClick (OnClick (SortClick sortType))]
               [Text sortText, Text '' '', directionArrow]]
     else el ''li'' [Elem ''a'' [attr ''href'' ''#'', onClick (OnClick (SortClick sortType))] [Text sortText]])"

definition renderFilterButton :: "query_list \<Rightarrow> filter_type \<Rightarrow> string \<Rightarrow> ql_node" where
  "renderFilterButton s filterType filterText =
    (let active = (- 1 < array_index_of (stateFilters s) filterType);
         checkmarkStyle = (if active then [(''color'', ''#ffffff'')] else [(''color'', ''#57aac7'')]);
         classNames = ''btn btn-sm btn-info style-check'' @ (if active then '' active'' else [])
     in Elem ''button'' [attr ''type'' ''button'', className classNames, onClick (OnClick (StateFilterClick filterType))]
          [Elem ''span'' [className ''glyphicon glyphicon-ok'', style_attr checkmarkStyle] [], Text nbsp, Text filterText])"

definition renderErrorTypeListItem :: "query_list \<Rightarrow> error_type \<Rightarrow> string \<Rightarrow> ql_node" where
  "renderErrorTypeListItem s et errorTypeText =
    (let checkmarkStyle = (if - 1 < array_index_of (errorTypeFilters s) et then GLYPHICON_HIGHLIGHT
                           else [(''color'', ''#ffffff'')])
     in el ''li'' [Elem ''a'' [attr ''href'' ''#'', onClick (OnClick (ErrorTypeFilterClick et))]
          [Elem ''span'' [className ''glyphicon glyphicon-ok'', style_attr checkmarkStyle] [], Text nbsp, Text errorTypeText]])"

definition dropdown_toggle :: "(string \<times> ql_handler attr) list \<Rightarrow> string \<Rightarrow> ql_node" where
  "dropdown_toggle extra label =
    Elem ''button'' ([attr ''type'' ''button''] @ extra @ [className ''btn btn-default dropdown-toggle'',
        attr ''data-toggle'' ''dropdown'', attr ''aria-haspopup'' ''true'', attr ''aria-expanded'' ''false''])
      [Text label, elc ''span'' ''caret'' []]"

definition divider :: ql_node where
  "divider = Elem ''li'' [attr ''role'' ''separator'', className ''divider''] []"

definition QueryList_toolbar :: "query_list \<Rightarrow> ql_node" where
  "QueryList_toolbar s =
    divc ''row toolbar-row''
      [divc ''col-xs-12 toolbar-col''
        [divc ''input-group input-group-sm''
          [Elem ''input'' [attr ''type'' ''text'', className ''form-control form-control-small search-bar'',
              attr ''placeholder'' ''User, source, query ID, resource group, or query text'',
              (''onChange'', AHandler OnSearchChange), attr ''value'' (searchString s)] [],
           elc ''span'' ''input-group-addon filter-addon'' [Text ''State:''],
           divc ''input-group-btn''
            [renderFilterButton s F_RUNNING ''Running'',
             renderFilterButton s F_QUEUED ''Queued'',
             renderFilterButton s F_FINISHED ''Finished'',
             dropdown_toggle [attr ''id'' ''error-type-dropdown''] ''Failed '',
             elc ''ul'' ''dropdown-menu error-type-dropdown-menu''
              [renderErrorTypeListItem s E_INTERNAL_ERROR ''Internal Error'',
               renderErrorTypeListItem s E_EXTERNAL ''External Error'',
               renderErrorTypeListItem s E_INSUFFICIENT_RESOURCES ''Resources Error'',
               renderErrorTypeListItem s E_USER_ERROR ''User Error'']],
           Text nbsp,
           divc ''input-group-btn''
            [dropdown_toggle [] ''Sort '',
             elc ''ul'' ''dropdown-menu''
              [renderSortListItem s CREATED ''Creation Time'',
               renderSortListItem s ELAPSED ''Elapsed Time'',
               renderSortListItem s CPU ''CPU Time'',
               renderSortListItem s EXECUTION ''Execution Time'',
               renderSortListItem s CURRENT_MEMORY ''Current Memory'',
               renderSortListItem s CUMULATIVE_MEMORY ''Cumulative User Memory'']],
           Text nbsp,
           divc ''input-group-btn''
            [dropdown_toggle [] ''Reorder Interval '',
             elc ''ul'' ''dropdown-menu''
              [renderReorderListItem s 1000 ''1s'',
               renderReorderListItem s 5000 ''5s'',
               renderReorderListItem s 10000 ''10s'',
               renderReorderListItem s 30000 ''30s'',
               divider,
               renderReorderListItem s 0 ''Off'']],
           Text nbsp,
           divc ''input-group-btn''
            [dropdown_toggle [] ''Show '',
             elc ''ul'' ''dropdown-menu''
              [renderMaxQueriesListItem s 20 ''20 queries'',
               renderMaxQueriesListItem s 50 ''50 queries'',
               renderMaxQueriesListItem s 100 ''100 queries'',
               divider,
               renderMaxQueriesListItem s 0 ''All queries'']]]]]"

definition query_list_node :: "query_list \<Rightarrow> ql_node" where
  "query_list_node s =
    (if length (displayedQueries s) = 0
     then let label = (if ql_initialized s
                       then (if length (allQueries s) = 0 then Text ''No queries'' else Text ''No queries matched filters'')
                       else divc ''loader'' [Text ''Loading...''])
          in divc ''row error-message'' [divc ''col-xs-12'' [el ''h4'' [label]]]
     else Comp (DisplayedQueriesList (displayedQueries s)))"

definition QueryList_render :: "query_list \<Rightarrow> ql_node" where
  "QueryList_render s = el ''div'' [QueryList_toolbar s, query_list_node s]"

section \<open>Laws\<close>

lemmas toolbar_item_defs = renderMaxQueriesListItem_def renderReorderListItem_def renderSortListItem_def
  renderFilterButton_def renderErrorTypeListItem_def dropdown_toggle_def divider_def

lemma handlers_items:
  "handlers (renderMaxQueriesListItem s n u) = [OnClick (MaxQueriesClick n)]"
  "handlers (renderReorderListItem s i u) = [OnClick (ReorderClick i)]"
  "handlers (renderSortListItem s t u) = [OnClick (SortClick t)]"
  "handlers (renderFilterButton s f u) = [OnClick (StateFilterClick f)]"
  "handlers (renderErrorTypeListItem s e u) = [OnClick (ErrorTypeFilterClick e)]"
  "handlers (dropdown_toggle [attr a b] u) = []" "handlers (dropdown_toggle [] u) = []" "handlers divider = []"
  by (simp_all add: toolbar_item_defs Let_def)

text \<open>
  The toolbar offers the same actions in every state: the search field, every state filter, every
  error type, every sort key, the reorder intervals and the limits; together with the list it is
  the whole tree, and no other handler is bound.
\<close>

theorem QueryList_render_handlers:
  "handlers (QueryList_render s) =
    OnSearchChange #
    map (\<lambda>f. OnClick (StateFilterClick f)) [F_RUNNING, F_QUEUED, F_FINISHED] @
    map (\<lambda>e. OnClick (ErrorTypeFilterClick e)) [E_INTERNAL_ERROR, E_EXTERNAL, E_INSUFFICIENT_RESOURCES, E_USER_ERROR] @
    map (\<lambda>t. OnClick (SortClick t)) [CREATED, ELAPSED, CPU, EXECUTION, CURRENT_MEMORY, CUMULATIVE_MEMORY] @
    map (\<lambda>i. OnClick (ReorderClick i)) [1000, 5000, 10000, 30000, 0] @
    map (\<lambda>n. OnClick (MaxQueriesClick n)) [20, 50, 100, 0]"
proof -
  have "handlers (query_list_node s) = []" by (simp add: query_list_node_def Let_def)
  then show ?thesis by (simp add: QueryList_render_def QueryList_toolbar_def handlers_items)
qed

lemma children_items:
  "children (renderMaxQueriesListItem s n u) = []" "children (renderReorderListItem s i u) = []"
  "children (renderSortListItem s t u) = []" "children (renderFilterButton s f u) = []"
  "children (renderErrorTypeListItem s e u) = []" "children (dropdown_toggle as u) = []" "children divider = []"
  by (simp_all add: toolbar_item_defs Let_def)

text \<open>
  The list below the toolbar shows the displayed queries when there are any; the item of every one
  of them renders without throwing when its error is consistent.
\<close>

lemma QueryList_render_children:
  "children (QueryList_render s) = (if displayedQueries s = [] then [] else [DisplayedQueriesList (displayedQueries s)])"
  by (simp add: QueryList_render_def QueryList_toolbar_def children_items query_list_node_def Let_def)

lemma DisplayedQueriesList_render_defined:
  fixes qs :: "'a query_scheme list"
  assumes "list_all error_consistent qs"
  shows "(DisplayedQueriesList_render env qs :: ('h, 'c) vnode throws) \<noteq> None"
proof -
  define r :: "'a query_scheme \<Rightarrow> ('h, 'c) vnode throws" where "r = QueryListItem_render env"
  have "r q = Some (the (r q))" if "q \<in> set qs" for q
    unfolding r_def using assms that
    by (intro option.collapse[symmetric] QueryListItem_render_defined) (simp add: list_all_iff)
  then have "mapM (QueryListItem_render env) qs = Some (map (\<lambda>q. the (r q)) qs)"
    unfolding r_def[symmetric] by (rule mapM_pure)
  then show ?thesis by (simp add: DisplayedQueriesList_render_def)
qed

text \<open>
  C36. In every run against a consistent server the page can be drawn: the list that \<open>render\<close> hands to
  its child component consists of the displayed queries, and none of their items throws.
\<close>

theorem query_list_run_renders:
  assumes "exec_all (ql_exec env) es (QueryList_mount n1 n2) = Some s" "list_all ql_ok es"
  shows "children (QueryList_render s) = (if displayedQueries s = [] then [] else [DisplayedQueriesList (displayedQueries s)])
    \<and> (DisplayedQueriesList_render env (displayedQueries s) :: ('h, 'c) vnode throws) \<noteq> None"
proof -
  have "ql_wf s" by (rule exec_all_invariant[where I = ql_wf, OF assms ql_wf_mount]) (rule ql_wf_step)
  then have "list_all error_consistent (displayedQueries s)" by (auto simp: ql_wf_def list_all_iff)
  then show ?thesis using QueryList_render_children DisplayedQueriesList_render_defined by blast
qed

theorem query_list_run_renders_witness:
  "\<exists>s. exec_all (ql_exec example_env) example_run (QueryList_mount 0 0) = Some s
     \<and> (DisplayedQueriesList_render example_env (displayedQueries s) :: (unit, unit) vnode throws) \<noteq> None"
proof -
  obtain s where s: "exec_all (ql_exec example_env) example_run (QueryList_mount 0 0) = Some s" using example_run_runs by blast
  from query_list_run_renders[OF s example_run_ok] show ?thesis using s by blast
qed

end
