(* ===== verification/StatementClient.thy ===== *)
theory StatementClient
  imports JsJson
begin

text \<open>
  \<^verbatim>\<open>webapp/tableau/presto-client.js\<close>: the client that runs a statement for the Tableau connector.  It
  posts the query and follows the \<open>nextUri\<close> of each response; columns, rows and errors go to
  callbacks, whose calls are recorded in order.

  The requests are synchronous.  The server is a parameter: \<open>sv u\<close> is the outcome of a \<open>GET\<close> of the
  address \<open>u\<close> (every page of a result has its own address), and the outcome of the \<open>POST\<close> is given
  where the client is created.
\<close>

section \<open>Requests and responses\<close>

record ('col, 'row) response =
  re_error :: "(string \<times> string) option"
  re_columns :: "'col list option"
  re_data :: "'row list option"
  re_nextUri :: "string option"

datatype ('col, 'row) reply = Success "('col, 'row) response" | Failure string string

type_synonym ('col, 'row) server = "string \<Rightarrow> ('col, 'row) reply"

text \<open>The calls of the three callbacks.\<close>

datatype ('col, 'row) callback =
    Header "'col list option"
  | Data "'row list" "'col list option" nat
  | Error string string

record connection_data =
  cd_query :: string
  cd_catalog :: "string option"
  cd_schema :: "string option"
  cd_userName :: string
  cd_sessionParameters :: "string option"

datatype header_value = HStr string | HList "string list"

record ('col, 'row) client =
  sc_query :: string
  sc_headers :: "(string \<times> header_value) list"
  currentResults :: "('col, 'row) response option"
  sc_valid :: bool
  sc_calls :: "('col, 'row) callback list"

section \<open>Operations\<close>

definition session_parameters :: "connection_data \<Rightarrow> string list throws" where
  "session_parameters cd =
    (case cd_sessionParameters cd of
       None \<Rightarrow> Some []
     | Some t \<Rightarrow> do { parameterMap \<leftarrow> json_parse t; Some (map (\<lambda>(name, v). name @ ''='' @ js_text v) (for_in parameterMap)) })"

definition client_headers :: "connection_data \<Rightarrow> string list \<Rightarrow> (string \<times> header_value) list" where
  "client_headers cd sessionParameters =
    [(''X-Presto-User'', HStr (if cd_userName cd \<noteq> [] then cd_userName cd else ''N/A'')),
     (''X-Presto-Source'', HStr ''Tableau Web Connector''),
     (''X-Presto-Session'', HList sessionParameters)]
    @ (case cd_catalog cd of None \<Rightarrow> [] | Some c \<Rightarrow> [(''X-Presto-Catalog'', HStr c)])
    @ (case cd_schema cd of None \<Rightarrow> [] | Some c \<Rightarrow> [(''X-Presto-Schema'', HStr c)])"

definition response_calls :: "('col, 'row) response \<Rightarrow> nat \<Rightarrow> ('col, 'row) callback list" where
  "response_calls r lastRecordNumber =
    (case re_error r of None \<Rightarrow> [] | Some (name, message) \<Rightarrow> [Error name message])
    @ (case re_columns r of None \<Rightarrow> [] | Some cols \<Rightarrow> [Header (Some cols)])
    @ (case re_data r of None \<Rightarrow> []
       | Some rows \<Rightarrow> [Header (re_columns r), Data rows (re_columns r) lastRecordNumber])"

definition responseHandler :: "('col, 'row) response \<Rightarrow> nat \<Rightarrow> ('col, 'row) client \<Rightarrow> ('col, 'row) client" where
  "responseHandler r lastRecordNumber c = c\<lparr> sc_calls := sc_calls c @ response_calls r lastRecordNumber \<rparr>"

definition submitQuery :: "('col, 'row) reply \<Rightarrow> nat \<Rightarrow> ('col, 'row) client \<Rightarrow> ('col, 'row) client" where
  "submitQuery posted lastRecordNumber c =
    (case posted of
       Failure responseText errorStr \<Rightarrow> c\<lparr> sc_calls := sc_calls c @ [Error responseText errorStr] \<rparr>
     | Success r \<Rightarrow> responseHandler r lastRecordNumber (c\<lparr> currentResults := Some r \<rparr>))"

definition StatementClient :: "connection_data \<Rightarrow> ('col, 'row) reply \<Rightarrow> ('col, 'row) client throws" where
  "StatementClient cd posted =
    do {
      params \<leftarrow> session_parameters cd;
      Some (submitQuery posted 0 \<lparr> sc_query = cd_query cd, sc_headers = client_headers cd params, currentResults = None,
              sc_valid = True, sc_calls = [] \<rparr>) }"

text \<open>The address of the next page; the empty string counts as none.\<close>

definition next_uri :: "('col, 'row) client \<Rightarrow> string option" where
  "next_uri c =
    (case currentResults c of
       None \<Rightarrow> None
     | Some r \<Rightarrow> (case re_nextUri r of None \<Rightarrow> None | Some u \<Rightarrow> if u = [] then None else Some u))"

definition has_result :: "('col, 'row) response \<Rightarrow> bool" where
  "has_result r \<longleftrightarrow> re_data r \<noteq> None \<or> re_error r \<noteq> None"

partial_function (option) advance :: "('col, 'row) server \<Rightarrow> nat \<Rightarrow> ('col, 'row) client \<Rightarrow> ('col, 'row) client option" where
  "advance sv lastRecordNumber c =
    (case next_uri c of
       None \<Rightarrow> Some (c\<lparr> sc_valid := False \<rparr>)
     | Some u \<Rightarrow>
         (case sv u of
            Failure responseText errorStr \<Rightarrow> Some (c\<lparr> sc_calls := sc_calls c @ [Error responseText errorStr] \<rparr>)
          | Success r \<Rightarrow>
              (let c' = responseHandler r lastRecordNumber (c\<lparr> currentResults := Some r \<rparr>)
               in if has_result r then Some c' else advance sv lastRecordNumber c')))"

section \<open>Laws\<close>

text \<open>The pages that follow a response, up to the last one.\<close>

fun pages :: "('col, 'row) server \<Rightarrow> ('col, 'row) response \<Rightarrow> ('col, 'row) response list \<Rightarrow> bool" where
  "pages sv r [] \<longleftrightarrow> (re_nextUri r = None \<or> re_nextUri r = Some [])"
| "pages sv r (p # ps) \<longleftrightarrow> (\<exists>u. re_nextUri r = Some u \<and> u \<noteq> [] \<and> sv u = Success p) \<and> pages sv p ps"

text \<open>The calls of \<open>advance\<close> one after the other, each with its record number, while the client is valid.\<close>

fun drain :: "('col, 'row) server \<Rightarrow> nat list \<Rightarrow> ('col, 'row) client \<Rightarrow> ('col, 'row) client option" where
  "drain sv [] c = Some c"
| "drain sv (n # ns) c = (if sc_valid c then advance sv n c \<bind> drain sv ns else Some c)"

text \<open>The rows the callbacks received.\<close>

definition rows_of :: "('col, 'row) callback list \<Rightarrow> 'row list" where
  "rows_of cs = concat (map (\<lambda>c. case c of Data rows _ _ \<Rightarrow> rows | _ \<Rightarrow> []) cs)"

definition page_rows :: "('col, 'row) response \<Rightarrow> 'row list" where
  "page_rows r = (case re_data r of None \<Rightarrow> [] | Some rows \<Rightarrow> rows)"

lemma rows_of_append [simp]: "rows_of (cs @ ds) = rows_of cs @ rows_of ds"
  by (simp add: rows_of_def)

lemma rows_of_response [simp]: "rows_of (response_calls r n) = page_rows r"
  by (cases "re_error r"; cases "re_columns r"; cases "re_data r")
    (auto simp: rows_of_def response_calls_def page_rows_def)

lemma page_rows_no_result: "\<not> has_result p \<Longrightarrow> page_rows p = []"
  by (simp add: has_result_def page_rows_def)

text \<open>One call of \<open>advance\<close> on a finite result: it returns, at the next page with data or an error.\<close>

lemma advance_pages:
  assumes "currentResults c = Some r" "pages sv r ps"
  shows "\<exists>c'. advance sv n c = Some c' \<and>
    (if list_ex has_result ps
     then \<exists>pre p post. ps = pre @ p # post \<and> \<not> list_ex has_result pre \<and> has_result p \<and> currentResults c' = Some p
       \<and> pages sv p post \<and> sc_valid c' = sc_valid c \<and> sc_calls c' = sc_calls c @ concat (map (\<lambda>q. response_calls q n) (pre @ [p]))
     else \<not> sc_valid c' \<and> (\<exists>q. currentResults c' = Some q \<and> pages sv q [])
       \<and> sc_calls c' = sc_calls c @ concat (map (\<lambda>q. response_calls q n) ps))"
  using assms
proof (induction ps arbitrary: c r)
  case Nil
  then have "next_uri c = None" by (auto simp: next_uri_def)
  then show ?case using Nil.prems by (subst advance.simps) simp
next
  case (Cons p ps)
  then obtain u where u: "re_nextUri r = Some u" "u \<noteq> []" "sv u = Success p" and ps: "pages sv p ps" by auto
  define c1 where "c1 = responseHandler p n (c\<lparr> currentResults := Some p \<rparr>)"
  have c1: "currentResults c1 = Some p" "sc_valid c1 = sc_valid c" "sc_calls c1 = sc_calls c @ response_calls p n"
    by (simp_all add: c1_def responseHandler_def)
  have "next_uri c = Some u" using u Cons.prems(1) by (simp add: next_uri_def)
  then have step: "advance sv n c = (if has_result p then Some c1 else advance sv n c1)"
    by (subst advance.simps) (simp add: u c1_def Let_def)
  show ?case
  proof (cases "has_result p")
    case True
    then have "\<exists>pre q post. p # ps = pre @ q # post \<and> \<not> list_ex has_result pre \<and> has_result q \<and> currentResults c1 = Some q
       \<and> pages sv q post \<and> sc_valid c1 = sc_valid c \<and> sc_calls c1 = sc_calls c @ concat (map (\<lambda>q. response_calls q n) (pre @ [q]))"
      using c1 ps by (intro exI[of _ "[]"] exI[of _ p] exI[of _ ps]) simp
    then show ?thesis using step True by (intro exI[of _ c1]) simp
  next
    case False
    obtain c' where a: "advance sv n c1 = Some c'" and r:
      "if list_ex has_result ps
       then \<exists>pre q post. ps = pre @ q # post \<and> \<not> list_ex has_result pre \<and> has_result q \<and> currentResults c' = Some q
         \<and> pages sv q post \<and> sc_valid c' = sc_valid c1 \<and> sc_calls c' = sc_calls c1 @ concat (map (\<lambda>q. response_calls q n) (pre @ [q]))
       else \<not> sc_valid c' \<and> (\<exists>q. currentResults c' = Some q \<and> pages sv q [])
         \<and> sc_calls c' = sc_calls c1 @ concat (map (\<lambda>q. response_calls q n) ps)"
      using Cons.IH[OF c1(1) ps] by blast
    show ?thesis
    proof (cases "list_ex has_result ps")
      case True
      then obtain pre q post where "ps = pre @ q # post" "\<not> list_ex has_result pre" "has_result q" "currentResults c' = Some q"
         "pages sv q post" "sc_valid c' = sc_valid c1" "sc_calls c' = sc_calls c1 @ concat (map (\<lambda>q. response_calls q n) (pre @ [q]))"
        using r by auto
      then have "\<exists>pre q post. p # ps = pre @ q # post \<and> \<not> list_ex has_result pre \<and> has_result q \<and> currentResults c' = Some q
       \<and> pages sv q post \<and> sc_valid c' = sc_valid c \<and> sc_calls c' = sc_calls c @ concat (map (\<lambda>q. response_calls q n) (pre @ [q]))"
        using c1 False by (intro exI[of _ "p # pre"] exI[of _ q] exI[of _ post]) simp
      then show ?thesis using a step False True by (intro exI[of _ c']) simp
    next
      case ex: False
      then show ?thesis using a step False r c1 by (intro exI[of _ c']) simp
    qed
  qed
qed

text \<open>
  The address after \<open>k\<close> pages without data and error have been skipped: \<open>None\<close> once there is no further
  page, a request fails or a page has a result.
\<close>

fun skip_pages :: "('col, 'row) server \<Rightarrow> nat \<Rightarrow> string option \<Rightarrow> string option" where
  "skip_pages sv 0 u = u"
| "skip_pages sv (Suc k) u =
    (case u of
       None \<Rightarrow> None
     | Some a \<Rightarrow>
         (case sv a of
            Failure responseText errorStr \<Rightarrow> None
          | Success r \<Rightarrow> if has_result r then None
              else skip_pages sv k (case re_nextUri r of None \<Rightarrow> None | Some b \<Rightarrow> if b = [] then None else Some b)))"

lemma next_uri_response:
  "next_uri (responseHandler r n (c\<lparr> currentResults := Some r \<rparr>)) =
    (case re_nextUri r of None \<Rightarrow> None | Some b \<Rightarrow> if b = [] then None else Some b)"
  by (simp add: next_uri_def responseHandler_def)

lemma advance_returns: "skip_pages sv k (next_uri c) = None \<Longrightarrow> \<exists>c'. advance sv n c = Some c'"
proof (induction k arbitrary: c)
  case 0
  then show ?case by (subst advance.simps) simp
next
  case (Suc k)
  show ?case
  proof (cases "\<exists>u r. next_uri c = Some u \<and> sv u = Success r \<and> \<not> has_result r")
    case True
    then obtain u r where u: "next_uri c = Some u" "sv u = Success r" "\<not> has_result r" by blast
    have "skip_pages sv k (next_uri (responseHandler r n (c\<lparr> currentResults := Some r \<rparr>))) = None"
      using Suc.prems u by (simp add: next_uri_response)
    from Suc.IH[OF this] show ?thesis using u by (subst advance.simps) (simp add: Let_def)
  next
    case False
    then show ?thesis by (subst advance.simps) (auto simp: Let_def split: option.split reply.split)
  qed
qed

lemma advance_skips:
  assumes "advance sv n c = Some c'"
  shows "\<exists>k. skip_pages sv k (next_uri c) = None"
proof (rule advance.raw_induct[where P = "\<lambda>sv n c y. \<exists>k. skip_pages sv k (next_uri c) = None", OF _ assms], goal_cases)
  case (1 adv sv n c c')
  show ?case
  proof (cases "\<exists>u r. next_uri c = Some u \<and> sv u = Success r \<and> \<not> has_result r")
    case True
    then obtain u r where u: "next_uri c = Some u" "sv u = Success r" "\<not> has_result r" by blast
    then have "adv sv n (responseHandler r n (c\<lparr> currentResults := Some r \<rparr>)) = Some c'" using 1(2) by (simp add: Let_def)
    from 1(1)[OF this] obtain k where "skip_pages sv k (next_uri (responseHandler r n (c\<lparr> currentResults := Some r \<rparr>))) = None" by blast
    then show ?thesis using u by (intro exI[of _ "Suc k"]) (simp add: next_uri_response)
  next
    case False
    then show ?thesis by (intro exI[of _ 1]) (auto split: option.split reply.split)
  qed
qed

text \<open>
  A call of \<open>advance\<close> returns exactly when the pages without data and error come to an end: when
  after finitely many of them there is a page with a result, a failed request or no further page.  A
  server that answers forever with empty pages keeps the call going forever.
\<close>

theorem advance_terminates_iff: "(\<exists>c'. advance sv n c = Some c') \<longleftrightarrow> (\<exists>k. skip_pages sv k (next_uri c) = None)"
  using advance_returns advance_skips by blast

text \<open>Draining a finite result delivers the rows of all its pages.\<close>

lemma drain_pages:
  assumes "currentResults c = Some r" "pages sv r ps" "sc_valid c" "length ps < length ns"
  shows "\<exists>c'. drain sv ns c = Some c' \<and> \<not> sc_valid c' \<and> rows_of (sc_calls c') = rows_of (sc_calls c) @ concat (map page_rows ps)"
  using assms
proof (induction ns arbitrary: c r ps)
  case (Cons n ns)
  have rc: "rows_of (concat (map (\<lambda>q. response_calls q n) qs)) = concat (map page_rows qs)" for qs :: "('a, 'b) response list"
    by (induction qs) (simp_all add: rows_of_def[of "[]"])
  have nr: "concat (map page_rows qs) = []" if "\<not> list_ex has_result qs" for qs :: "('a, 'b) response list"
    using that by (auto simp: list_ex_iff page_rows_no_result)
  obtain c1 where a: "advance sv n c = Some c1" and r:
    "if list_ex has_result ps
     then \<exists>pre p post. ps = pre @ p # post \<and> \<not> list_ex has_result pre \<and> has_result p \<and> currentResults c1 = Some p
       \<and> pages sv p post \<and> sc_valid c1 = sc_valid c \<and> sc_calls c1 = sc_calls c @ concat (map (\<lambda>q. response_calls q n) (pre @ [p]))
     else \<not> sc_valid c1 \<and> (\<exists>q. currentResults c1 = Some q \<and> pages sv q [])
       \<and> sc_calls c1 = sc_calls c @ concat (map (\<lambda>q. response_calls q n) ps)"
    using advance_pages[OF Cons.prems(1,2), of n] by blast
  show ?case
  proof (cases "list_ex has_result ps")
    case True
    then obtain pre p post where p: "ps = pre @ p # post" "\<not> list_ex has_result pre" "currentResults c1 = Some p"
       "pages sv p post" "sc_valid c1" "sc_calls c1 = sc_calls c @ concat (map (\<lambda>q. response_calls q n) (pre @ [p]))"
      using r Cons.prems(3) by auto
    have "length post < length ns" using Cons.prems(4) p(1) by simp
    from Cons.IH[OF p(3,4,5) this] obtain c' where
      c': "drain sv ns c1 = Some c'" "\<not> sc_valid c'" "rows_of (sc_calls c') = rows_of (sc_calls c1) @ concat (map page_rows post)"
      by blast
    show ?thesis using c' a Cons.prems(3) p(1) nr[OF p(2)] unfolding p(6) rows_of_append rc by simp
  next
    case False
    then have "\<not> sc_valid c1" "sc_calls c1 = sc_calls c @ concat (map (\<lambda>q. response_calls q n) ps)" using r by auto
    moreover have "drain sv ns c1 = Some c1" using \<open>\<not> sc_valid c1\<close> by (cases ns) simp_all
    ultimately show ?thesis using a Cons.prems(3) by (simp add: rc)
  qed
qed simp

text \<open>
  C4. A statement whose result has finitely many pages is read to its end: creating the client and
  calling \<open>advance\<close> often enough (one call more than there are pages) always returns, leaves the
  client invalid, and the data callback has received the rows of all pages, in order, each once.
\<close>

theorem statement_rows:
  assumes "session_parameters cd = Some params" "pages sv first ps" "length ps < length ns"
  shows "\<exists>c c'. StatementClient cd (Success first) = Some c \<and> drain sv ns c = Some c' \<and> \<not> sc_valid c'
    \<and> rows_of (sc_calls c') = page_rows first @ concat (map page_rows ps)"
proof -
  obtain c where c: "StatementClient cd (Success first) = Some c" "currentResults c = Some first" "sc_valid c"
    "sc_calls c = response_calls first 0"
    using assms(1) by (simp add: StatementClient_def submitQuery_def responseHandler_def)
  from drain_pages[OF c(2) assms(2) c(3) assms(3)] c show ?thesis by auto
qed

text \<open>
  A request that fails is reported and changes nothing else: the client stays valid on the same
  page, so calling \<open>advance\<close> again repeats the request.
\<close>

theorem advance_failure:
  assumes "next_uri c = Some u" "sv u = Failure responseText errorStr"
  shows "\<exists>c'. advance sv n c = Some c' \<and> sc_calls c' = sc_calls c @ [Error responseText errorStr]
    \<and> sc_valid c' = sc_valid c \<and> next_uri c' = Some u"
  using assms by (subst advance.simps) (simp add: next_uri_def)

definition example_page :: "int list option \<Rightarrow> string option \<Rightarrow> (string, int) response" where
  "example_page rows u = \<lparr> re_error = None, re_columns = Some [''x''], re_data = rows, re_nextUri = u \<rparr>"

definition example_server :: "(string, int) server" where
  "example_server u =
    (if u = ''/1'' then Success (example_page None (Some ''/2''))
     else if u = ''/2'' then Success (example_page (Some [1, 2]) (Some ''/3''))
     else Success (example_page (Some [3]) None))"

theorem advance_failure_witness:
  "\<exists>c'. advance (\<lambda>_. Failure ''timeout'' ''error'')  0 \<lparr> sc_query = [], sc_headers = [],
        currentResults = Some (example_page None (Some ''/1'')), sc_valid = True, sc_calls = [] \<rparr> = Some c' \<and> sc_valid c'"
proof -
  let ?c = "\<lparr> sc_query = [], sc_headers = [], currentResults = Some (example_page None (Some ''/1'')), sc_valid = True, sc_calls = [] \<rparr>"
  have "next_uri ?c = Some ''/1''" by code_simp
  from advance_failure[OF this, of "\<lambda>_. Failure ''timeout'' ''error''" "''timeout''" "''error''" 0] show ?thesis by auto
qed

theorem statement_rows_witness:
  "\<exists>c c'. StatementClient \<lparr> cd_query = ''SELECT x'', cd_catalog = None, cd_schema = None, cd_userName = [],
        cd_sessionParameters = None \<rparr> (Success (example_page None (Some ''/1''))) = Some c
    \<and> drain example_server [0, 0, 2, 3] c = Some c' \<and> \<not> sc_valid c' \<and> rows_of (sc_calls c') = [1, 2, 3]"
  using statement_rows[of "\<lparr> cd_query = ''SELECT x'', cd_catalog = None, cd_schema = None, cd_userName = [],
        cd_sessionParameters = None \<rparr>" "[]" example_server "example_page None (Some ''/1'')"
      "[example_page None (Some ''/2''), example_page (Some [1, 2]) (Some ''/3''), example_page (Some [3]) None]" "[0, 0, 2, 3]"]
  by (simp add: session_parameters_def example_page_def example_server_def page_rows_def)

end
