(* ===== verification/Connector.thy ===== *)
theory Connector
  imports StatementClient
begin

text \<open>
  \<^verbatim>\<open>webapp/tableau/presto-connector.html\<close>, the functions Tableau calls: \<open>getColumnHeaders\<close> runs the
  statement until its columns are known and keeps the rows that come with them in a buffer;
  \<open>getTableData\<close> hands over one page of rows per call, the buffered ones first.

  The global variables of the page form one record.  What Tableau is told is recorded as a list of
  calls; the log is left out.  The statement client (\<open>StatementClient\<close>) records the calls of its
  callbacks, which the page handles here: none of them touches the client.  A function that may also run
  forever returns \<open>None\<close> then, and \<open>Some None\<close> when it throws.
\<close>

section \<open>State\<close>

record column =
  col_name :: string
  col_type :: string

text \<open>A row as Tableau gets it: the values by column name; \<open>None\<close> is \<open>undefined\<close>.\<close>

type_synonym tableau_row = "(string, json option) jsmap"

datatype tableau_call =
    HeadersCallback "string list" "string list"
  | DataCallback "tableau_row list" nat bool
  | AbortWithError string

type_synonym page = "(column, json list) response"
type_synonym data_server = "(column, json list) server"
type_synonym data_client = "(column, json list) client"

record connector =
  headersPushed :: bool
  statementClient :: "data_client option"
  getTableDataCalled :: bool
  buffer :: "json list list list"
  cn_schema :: "column list option"
  errorName :: "string option"
  errorMessage :: "string option"
  tableau_calls :: "tableau_call list"

definition connector_init :: connector where
  "connector_init =
    \<lparr> headersPushed = False, statementClient = None, getTableDataCalled = False, buffer = [], cn_schema = None,
      errorName = None, errorMessage = None, tableau_calls = [] \<rparr>"

definition tell :: "tableau_call \<Rightarrow> connector \<Rightarrow> connector" where
  "tell c s = s\<lparr> tableau_calls := tableau_calls s @ [c] \<rparr>"

section \<open>Callbacks of the client\<close>

definition tableau_type :: "string \<Rightarrow> string" where
  "tableau_type columnType =
    (if columnType = ''boolean'' then ''bool'' else if columnType = ''date'' then ''date'' else ''string'')"

definition pushHeadersToTableau :: "column list option \<Rightarrow> connector \<Rightarrow> connector" where
  "pushHeadersToTableau columns s =
    (case columns of
       None \<Rightarrow> s
     | Some cols \<Rightarrow>
         if headersPushed s then s
         else (tell (HeadersCallback (map col_name cols) (map (\<lambda>c. tableau_type (col_type c)) cols)) (s\<lparr> cn_schema := Some cols \<rparr>))
                \<lparr> headersPushed := True \<rparr>)"

definition isComplexType :: "string \<Rightarrow> bool" where
  "isComplexType typeName \<longleftrightarrow> index_of ''map'' typeName = 0 \<or> index_of ''array'' typeName = 0 \<or> index_of ''row'' typeName = 0"

text \<open>A cell beyond the end of a row is \<open>undefined\<close>, and so is its text.\<close>

definition tableau_cell :: "column \<Rightarrow> json option \<Rightarrow> json option" where
  "tableau_cell c v = (if isComplexType (col_type c) then map_option (\<lambda>v. JsonStr (json_print v)) v else v)"

definition tableau_row :: "column list \<Rightarrow> json list \<Rightarrow> tableau_row" where
  "tableau_row columns dataArray =
    foldl (\<lambda>row j. map_set (col_name (columns ! j)) (tableau_cell (columns ! j) (nth_opt dataArray (int j))) row) [] [0..<length columns]"

definition pushDataToTableau :: "json list list \<Rightarrow> column list option \<Rightarrow> nat \<Rightarrow> connector \<Rightarrow> connector throws" where
  "pushDataToTableau rows columns lastRecordNumber s =
    (if 0 < length rows
     then if \<not> getTableDataCalled s then Some (s\<lparr> buffer := buffer s @ [rows] \<rparr>)
          else do { cols \<leftarrow> columns; Some (tell (DataCallback (map (tableau_row cols) rows) lastRecordNumber True) s) }
     else Some s)"

definition errorHandler :: "string \<Rightarrow> string \<Rightarrow> connector \<Rightarrow> connector" where
  "errorHandler errName errMessage s = s\<lparr> errorName := Some errName, errorMessage := Some errMessage \<rparr>"

fun connector_callback :: "connector \<Rightarrow> (column, json list) callback \<Rightarrow> connector throws" where
  "connector_callback s (Header columns) = Some (pushHeadersToTableau columns s)"
| "connector_callback s (Data rows columns n) = pushDataToTableau rows columns n s"
| "connector_callback s (Error errName errMessage) = Some (errorHandler errName errMessage s)"

text \<open>
  The callbacks run in the handler of a synchronous request.  An exception leaves that handler, so that the
  callbacks after it do not run, and is reported; it does not reach the code that made the request.
\<close>

primrec run_callbacks :: "connector \<Rightarrow> (column, json list) callback list \<Rightarrow> connector" where
  "run_callbacks s [] = s"
| "run_callbacks s (c # cs) = (case connector_callback s c of None \<Rightarrow> s | Some s' \<Rightarrow> run_callbacks s' cs)"

section \<open>Functions Tableau calls\<close>

text \<open>
  The connection data Tableau keeps, a text the page wrote; its fields are strings, or \<open>null\<close> for a catalog or a
  schema that was not chosen, which is sent as the text \<open>null\<close>.
\<close>

definition str_field :: "string \<Rightarrow> json \<Rightarrow> string option" where
  "str_field k v = json_field k v \<bind> json_str"

definition header_field :: "string \<Rightarrow> json \<Rightarrow> string option" where
  "header_field k v = json_field k v \<bind> (\<lambda>x. if x = JsonNull then Some ''null'' else json_str x)"

definition read_connection :: "string \<Rightarrow> connection_data throws" where
  "read_connection connectionData =
    do {
      v \<leftarrow> json_parse connectionData;
      if v = JsonNull then None
      else Some \<lparr> cd_query = (case str_field ''query'' v of None \<Rightarrow> [] | Some t \<Rightarrow> t), cd_catalog = header_field ''catalog'' v,
             cd_schema = header_field ''schema'' v, cd_userName = (case str_field ''userName'' v of None \<Rightarrow> [] | Some t \<Rightarrow> t),
             cd_sessionParameters = str_field ''sessionParameters'' v \<rparr> }"

definition connector_client :: "connection_data \<Rightarrow> (column, json list) reply \<Rightarrow> connector \<Rightarrow> connector throws" where
  "connector_client cd posted s =
    do { c \<leftarrow> StatementClient cd posted; Some (run_callbacks (s\<lparr> statementClient := Some c \<rparr>) (sc_calls c)) }"

text \<open>\<open>statementClient.advance(n)\<close>; the variable is \<open>null\<close> until \<open>getColumnHeaders\<close> sets it.\<close>

definition connector_advance :: "data_server \<Rightarrow> nat \<Rightarrow> connector \<Rightarrow> connector throws option" where
  "connector_advance sv lastRecordNumber s =
    (case statementClient s of
       None \<Rightarrow> Some None
     | Some c \<Rightarrow>
         (case advance sv lastRecordNumber c of
            None \<Rightarrow> None
          | Some c' \<Rightarrow> Some (Some (run_callbacks (s\<lparr> statementClient := Some c' \<rparr>) (drop (length (sc_calls c)) (sc_calls c'))))))"

text \<open>\<open>errorMessage\<close> as a condition: neither \<open>null\<close> nor empty.\<close>

definition failed :: "connector \<Rightarrow> bool" where
  "failed s \<longleftrightarrow> (case errorMessage s of None \<Rightarrow> False | Some m \<Rightarrow> m \<noteq> [])"

partial_function (option) headers_loop :: "data_server \<Rightarrow> connector \<Rightarrow> connector throws option" where
  "headers_loop sv s =
    (if headersPushed s \<or> failed s then Some (Some s)
     else (case connector_advance sv 0 s of
             None \<Rightarrow> None
           | Some None \<Rightarrow> Some None
           | Some (Some s') \<Rightarrow> headers_loop sv s'))"

definition abort_if_failed :: "connector \<Rightarrow> connector" where
  "abort_if_failed s =
    (if failed s then tell (AbortWithError (''Error: ['' @ the (errorName s) @ '']: '' @ the (errorMessage s))) s else s)"

definition getColumnHeaders :: "data_server \<Rightarrow> string \<Rightarrow> (column, json list) reply \<Rightarrow> connector \<Rightarrow> connector throws option" where
  "getColumnHeaders sv connectionData posted s =
    (case read_connection connectionData of
       None \<Rightarrow> Some None
     | Some cd \<Rightarrow>
         (case connector_client cd posted s of
            None \<Rightarrow> Some None
          | Some s1 \<Rightarrow> map_option (map_option abort_if_failed) (headers_loop sv s1)))"

definition client_valid :: "connector \<Rightarrow> bool" where
  "client_valid s \<longleftrightarrow> (case statementClient s of None \<Rightarrow> False | Some c \<Rightarrow> sc_valid c)"

definition getTableData :: "data_server \<Rightarrow> nat \<Rightarrow> connector \<Rightarrow> connector throws option" where
  "getTableData sv lastRecordNumber s =
    (let s1 = s\<lparr> getTableDataCalled := True \<rparr>
     in case buffer s1 of
          rows # rest \<Rightarrow> Some (pushDataToTableau rows (cn_schema s1) lastRecordNumber (s1\<lparr> buffer := rest \<rparr>))
        | [] \<Rightarrow> map_option (map_option (\<lambda>s2. if \<not> client_valid s2 then tell (DataCallback [] lastRecordNumber False) s2 else s2))
                  (connector_advance sv lastRecordNumber s1))"

text \<open>
  Tableau asks for data as long as the last call told it that there is more; \<open>ns\<close> are the record numbers
  it passes.
\<close>

definition asks_again :: "tableau_call list \<Rightarrow> bool" where
  "asks_again cs \<longleftrightarrow> (case rev cs of DataCallback rows n m # _ \<Rightarrow> m | _ \<Rightarrow> False)"

fun gather_data :: "data_server \<Rightarrow> nat list \<Rightarrow> connector \<Rightarrow> connector throws option" where
  "gather_data sv [] s = Some (Some s)"
| "gather_data sv (n # ns) s =
    (case getTableData sv n s of
       None \<Rightarrow> None
     | Some None \<Rightarrow> Some None
     | Some (Some s') \<Rightarrow> if asks_again (drop (length (tableau_calls s)) (tableau_calls s')) then gather_data sv ns s' else Some (Some s'))"

section \<open>Laws\<close>

text \<open>What the server promises of a page of a result with the columns \<open>cols\<close>: no error, and rows only with the columns.\<close>

definition good_page :: "column list \<Rightarrow> page \<Rightarrow> bool" where
  "good_page cols p \<longleftrightarrow> re_error p = None \<and> re_columns p \<in> {None, Some cols}
    \<and> (case re_data p of None \<Rightarrow> True | Some rows \<Rightarrow> rows \<noteq> [] \<and> re_columns p = Some cols)"

definition headers_call :: "column list \<Rightarrow> tableau_call" where
  "headers_call cols = HeadersCallback (map col_name cols) (map (\<lambda>c. tableau_type (col_type c)) cols)"

definition page_data :: "page \<Rightarrow> json list list list" where
  "page_data p = (case re_data p of None \<Rightarrow> [] | Some rows \<Rightarrow> [rows])"

fun received :: "tableau_call list \<Rightarrow> tableau_row list" where
  "received [] = []"
| "received (DataCallback rows n m # cs) = rows @ received cs"
| "received (_ # cs) = received cs"

lemma received_append [simp]: "received (cs @ ds) = received cs @ received ds"
  by (induction cs rule: received.induct) simp_all

lemma concat_page_data: "concat (concat (map page_data ps)) = concat (map page_rows ps)"
  by (induction ps) (auto simp: page_data_def page_rows_def split: option.split)

subsection \<open>Until the columns are known\<close>

lemma run_callbacks_foldM [simp]:
  "foldM connector_callback s cs \<noteq> None \<Longrightarrow> run_callbacks s cs = the (foldM connector_callback s cs)"
  by (induction cs arbitrary: s) (auto split: option.splits bind_splits)

definition header_phase :: "column list \<Rightarrow> page list \<Rightarrow> connector \<Rightarrow> bool" where
  "header_phase cols seen s \<longleftrightarrow>
     \<not> getTableDataCalled s \<and> errorMessage s = None \<and> (headersPushed s \<longleftrightarrow> list_ex (\<lambda>p. re_columns p \<noteq> None) seen)
   \<and> buffer s = concat (map page_data seen)
   \<and> (if headersPushed s then cn_schema s = Some cols \<and> tableau_calls s = [headers_call cols] else tableau_calls s = [])"

lemma header_phase_page:
  assumes "header_phase cols seen s" "good_page cols p"
  shows "\<exists>s'. foldM connector_callback s (response_calls p n) = Some s' \<and> header_phase cols (seen @ [p]) s' \<and> statementClient s' = statementClient s"
  using assms
  by (cases "re_columns p"; cases "re_data p")
    (auto simp: header_phase_def good_page_def response_calls_def pushHeadersToTableau_def pushDataToTableau_def tell_def headers_call_def page_data_def)

lemma header_phase_pages:
  assumes "header_phase cols seen s" "list_all (good_page cols) ps"
  shows "\<exists>s'. foldM connector_callback s (concat (map (\<lambda>p. response_calls p n) ps)) = Some s' \<and> header_phase cols (seen @ ps) s'
    \<and> statementClient s' = statementClient s"
  using assms
proof (induction ps arbitrary: seen s)
  case (Cons p ps)
  obtain s1 where s1: "foldM connector_callback s (response_calls p n) = Some s1" "header_phase cols (seen @ [p]) s1" "statementClient s1 = statementClient s"
    using header_phase_page[OF Cons.prems(1), of p n] Cons.prems(2) by auto
  obtain s' where "foldM connector_callback s1 (concat (map (\<lambda>p. response_calls p n) ps)) = Some s'" "header_phase cols ((seen @ [p]) @ ps) s'"
    "statementClient s' = statementClient s1"
    using Cons.IH[OF s1(2)] Cons.prems(2) by auto
  then show ?case using s1 by (simp add: foldM_append)
qed auto

text \<open>The client stands at a response after which the pages \<open>ps\<close> follow.\<close>

definition at_pages :: "data_server \<Rightarrow> page list \<Rightarrow> connector \<Rightarrow> bool" where
  "at_pages sv ps s \<longleftrightarrow> (\<exists>c r. statementClient s = Some c \<and> currentResults c = Some r \<and> pages sv r ps)"

definition reading :: "data_server \<Rightarrow> page list \<Rightarrow> connector \<Rightarrow> bool" where
  "reading sv ps s \<longleftrightarrow> at_pages sv ps s \<and> (ps \<noteq> [] \<longrightarrow> client_valid s)"

text \<open>
  The pages one call of \<open>advance\<close> reads: up to and including the first with a result, or all.  The
  callbacks of these pages run one after the other.
\<close>

lemma connector_advance_pages:
  assumes "at_pages sv ps s"
  shows "\<exists>pre post c'. ps = pre @ post \<and> (list_ex has_result ps \<longrightarrow> pre \<noteq> [] \<and> has_result (last pre)) \<and> \<not> list_ex has_result (butlast pre)
     \<and> (\<not> list_ex has_result ps \<longrightarrow> post = []) \<and> (\<exists>r. currentResults c' = Some r \<and> pages sv r post)
     \<and> connector_advance sv n s = Some (Some (run_callbacks (s\<lparr> statementClient := Some c' \<rparr>) (concat (map (\<lambda>p. response_calls p n) pre))))
     \<and> (sc_valid c' \<longleftrightarrow> client_valid s \<and> list_ex has_result ps)"
proof -
  obtain c r where c: "statementClient s = Some c" "currentResults c = Some r" "pages sv r ps"
    using assms by (auto simp: at_pages_def)
  obtain c' where a: "advance sv n c = Some c'" and r:
    "if list_ex has_result ps
     then \<exists>pre p post. ps = pre @ p # post \<and> \<not> list_ex has_result pre \<and> has_result p \<and> currentResults c' = Some p
       \<and> pages sv p post \<and> sc_valid c' = sc_valid c \<and> sc_calls c' = sc_calls c @ concat (map (\<lambda>q. response_calls q n) (pre @ [p]))
     else \<not> sc_valid c' \<and> (\<exists>q. currentResults c' = Some q \<and> pages sv q [])
       \<and> sc_calls c' = sc_calls c @ concat (map (\<lambda>q. response_calls q n) ps)"
    using advance_pages[OF c(2,3), of n] by blast
  show ?thesis
  proof (cases "list_ex has_result ps")
    case True
    then obtain pre p post where "ps = pre @ p # post" "\<not> list_ex has_result pre" "has_result p" "currentResults c' = Some p"
       "pages sv p post" "sc_valid c' = sc_valid c" "sc_calls c' = sc_calls c @ concat (map (\<lambda>q. response_calls q n) (pre @ [p]))"
      using r by auto
    then show ?thesis using True a c(1)
      by (intro exI[of _ "pre @ [p]"] exI[of _ post] exI[of _ c']) (simp add: connector_advance_def client_valid_def)
  next
    case False
    moreover have "\<not> list_ex has_result (butlast ps)" using False by (auto simp: list_ex_iff dest: in_set_butlastD)
    ultimately show ?thesis using r a c(1) by (intro exI[of _ ps] exI[of _ "[]"] exI[of _ c']) (simp add: connector_advance_def)
  qed
qed

subsection \<open>Handing over the rows\<close>

definition data_phase :: "column list \<Rightarrow> connector \<Rightarrow> bool" where
  "data_phase cols s \<longleftrightarrow> headersPushed s \<and> cn_schema s = Some cols"

lemma data_phase_page:
  assumes "data_phase cols s" "getTableDataCalled s" "good_page cols p"
  shows "foldM connector_callback s (response_calls p n) =
    Some (if has_result p then tell (DataCallback (map (tableau_row cols) (page_rows p)) n True) s else s)"
  using assms
  by (cases "re_columns p"; cases "re_data p")
    (auto simp: data_phase_def good_page_def response_calls_def pushHeadersToTableau_def pushDataToTableau_def has_result_def page_rows_def)

lemma data_phase_skip:
  assumes "data_phase cols s" "getTableDataCalled s" "list_all (good_page cols) ps" "\<not> list_ex has_result ps"
  shows "foldM connector_callback s (concat (map (\<lambda>p. response_calls p n) ps)) = Some s"
  using assms by (induction ps) (simp_all add: foldM_append data_phase_page)

text \<open>One call when the buffer is empty: a page of rows, or the end.\<close>

lemma getTableData_page:
  assumes "data_phase cols s" "buffer s = []" "reading sv ps s" "list_all (good_page cols) ps"
  shows "\<exists>pre post s'. ps = pre @ post \<and> getTableData sv n s = Some (Some s') \<and>
    (if list_ex has_result ps
     then pre \<noteq> [] \<and> data_phase cols s' \<and> buffer s' = [] \<and> reading sv post s'
       \<and> tableau_calls s' = tableau_calls s @ [DataCallback (map (tableau_row cols) (concat (map page_rows pre))) n True]
     else post = [] \<and> concat (map page_rows pre) = [] \<and> tableau_calls s' = tableau_calls s @ [DataCallback [] n False])"
proof -
  let ?s = "s\<lparr> getTableDataCalled := True \<rparr>"
  have "at_pages sv ps ?s" "list_ex has_result ps \<Longrightarrow> client_valid ?s" using assms(3) by (auto simp: reading_def at_pages_def client_valid_def)
  with connector_advance_pages[of sv ps ?s n] obtain pre post c' where p: "ps = pre @ post"
    "list_ex has_result ps \<Longrightarrow> pre \<noteq> [] \<and> has_result (last pre)" "\<not> list_ex has_result (butlast pre)" "\<not> list_ex has_result ps \<Longrightarrow> post = []"
    "connector_advance sv n ?s = Some (Some (run_callbacks (?s\<lparr> statementClient := Some c' \<rparr>) (concat (map (\<lambda>p. response_calls p n) pre))))"
    "\<exists>r. currentResults c' = Some r \<and> pages sv r post" "sc_valid c' \<longleftrightarrow> list_ex has_result ps"
    by blast
  let ?t = "?s\<lparr> statementClient := Some c' \<rparr>"
  have t: "data_phase cols ?t" "getTableDataCalled ?t" using assms(1) by (simp_all add: data_phase_def)
  show ?thesis
  proof (cases "list_ex has_result ps")
    case True
    let ?p = "last pre" and ?qs = "butlast pre"
    have pre: "pre = ?qs @ [?p]" "has_result ?p" using p(2)[OF True] by auto
    have good: "list_all (good_page cols) ?qs" "good_page cols ?p"
      using assms(4) p(1) p(2)[OF True] by (auto simp: list_all_iff dest: in_set_butlastD)
    have rows: "concat (map page_rows pre) = page_rows ?p"
      using p(3) by (subst pre(1)) (auto simp: list_ex_iff page_rows_no_result)
    have "foldM connector_callback ?t (concat (map (\<lambda>p. response_calls p n) pre)) =
        Some (tell (DataCallback (map (tableau_row cols) (page_rows ?p)) n True) ?t)"
      using data_phase_skip[OF t good(1) p(3), of n] data_phase_page[OF t good(2), of n] pre(2)
      by (subst pre(1)) (simp add: foldM_append)
    then show ?thesis using p True assms(1,2) rows
      by (intro exI[of _ pre] exI[of _ post] exI[of _ "tell (DataCallback (map (tableau_row cols) (page_rows ?p)) n True) ?t"])
        (auto simp: getTableData_def tell_def client_valid_def data_phase_def at_pages_def reading_def)
  next
    case False
    then have pre: "pre = ps" "post = []" "\<not> list_ex has_result pre" using p by auto
    have "foldM connector_callback ?t (concat (map (\<lambda>p. response_calls p n) pre)) = Some ?t"
      using assms(4) pre by (intro data_phase_skip[OF t]) auto
    then have "getTableData sv n s = Some (Some (tell (DataCallback [] n False) ?t))"
      using p(5,7) False assms(2) by (simp add: getTableData_def tell_def client_valid_def)
    moreover have "concat (map page_rows ps) = []" using False by (auto simp: list_ex_iff page_rows_no_result)
    ultimately show ?thesis using False
      by (intro exI[of _ ps] exI[of _ "[]"] exI[of _ "tell (DataCallback [] n False) ?t"]) (simp add: tell_def)
  qed
qed

lemma gather_pages:
  assumes "data_phase cols s" "buffer s = []" "reading sv ps s" "list_all (good_page cols) ps" "length ps < length ns"
  shows "\<exists>s' n. gather_data sv ns s = Some (Some s') \<and> last (tableau_calls s') = DataCallback [] n False
    \<and> received (tableau_calls s') = received (tableau_calls s) @ map (tableau_row cols) (concat (map page_rows ps))"
  using assms
proof (induction ns arbitrary: s ps)
  case (Cons n ns)
  from getTableData_page[OF Cons.prems(1-4), of n] obtain pre post s1 where g: "ps = pre @ post" "getTableData sv n s = Some (Some s1)"
    "if list_ex has_result ps
     then pre \<noteq> [] \<and> data_phase cols s1 \<and> buffer s1 = [] \<and> reading sv post s1
       \<and> tableau_calls s1 = tableau_calls s @ [DataCallback (map (tableau_row cols) (concat (map page_rows pre))) n True]
     else post = [] \<and> concat (map page_rows pre) = [] \<and> tableau_calls s1 = tableau_calls s @ [DataCallback [] n False]" by blast
  show ?case
  proof (cases "list_ex has_result ps")
    case True
    then have s1: "pre \<noteq> []" "data_phase cols s1" "buffer s1 = []" "reading sv post s1"
      "tableau_calls s1 = tableau_calls s @ [DataCallback (map (tableau_row cols) (concat (map page_rows pre))) n True]" using g(3) by auto
    have l: "list_all (good_page cols) post" "length post < length ns" using Cons.prems(4,5) g(1) s1(1) by (cases pre; auto)+
    from Cons.IH[OF s1(2-4) l] obtain s' m where "gather_data sv ns s1 = Some (Some s')" "last (tableau_calls s') = DataCallback [] m False"
      "received (tableau_calls s') = received (tableau_calls s1) @ map (tableau_row cols) (concat (map page_rows post))" by blast
    then show ?thesis using g(1,2) s1(5) by (intro exI[of _ s'] exI[of _ m]) (simp add: asks_again_def)
  next
    case False
    then show ?thesis using g by (intro exI[of _ s1] exI[of _ n]) (auto simp: asks_again_def)
  qed
qed simp

lemma gather_buffer:
  assumes "data_phase cols s" "list_all (\<lambda>rows. rows \<noteq> []) (buffer s)" "reading sv ps s" "list_all (good_page cols) ps"
    and "length (buffer s) + length ps < length ns"
  shows "\<exists>s' n. gather_data sv ns s = Some (Some s') \<and> last (tableau_calls s') = DataCallback [] n False
    \<and> received (tableau_calls s') = received (tableau_calls s) @ map (tableau_row cols) (concat (buffer s) @ concat (map page_rows ps))"
  using assms
proof (induction "buffer s" arbitrary: s ns)
  case Nil
  then show ?case using gather_pages[of cols s sv ps ns] by simp
next
  case (Cons rows rest)
  obtain n ms where ns: "ns = n # ms" using Cons.prems(5) by (cases ns) auto
  let ?s = "tell (DataCallback (map (tableau_row cols) rows) n True) (s\<lparr> getTableDataCalled := True, buffer := rest \<rparr>)"
  have "rows \<noteq> []" using Cons.prems(2) Cons.hyps(2)[symmetric] by simp
  then have g: "getTableData sv n s = Some (Some ?s)"
    using Cons.prems(1) Cons.hyps(2)[symmetric] by (simp add: getTableData_def pushDataToTableau_def data_phase_def)
  have "\<exists>s' m. gather_data sv ms ?s = Some (Some s') \<and> last (tableau_calls s') = DataCallback [] m False
    \<and> received (tableau_calls s') = received (tableau_calls ?s) @ map (tableau_row cols) (concat (buffer ?s) @ concat (map page_rows ps))"
    using Cons.prems Cons.hyps(2)[symmetric] ns
    by (intro Cons.hyps(1)) (auto simp: tell_def data_phase_def reading_def at_pages_def client_valid_def)
  then show ?case using g Cons.hyps(2)[symmetric] by (auto simp: ns tell_def asks_again_def)
qed

subsection \<open>The loop of \<open>getColumnHeaders\<close>\<close>

text \<open>A page that ends the loop: with columns, or with an error whose message is not empty.\<close>

definition ends_headers :: "page \<Rightarrow> bool" where
  "ends_headers p \<longleftrightarrow> re_columns p \<noteq> None \<or> (case re_error p of None \<Rightarrow> False | Some (name, m) \<Rightarrow> m \<noteq> [])"

lemma page_outcome:
  assumes "\<not> getTableDataCalled s"
  shows "\<exists>s'. foldM connector_callback s (response_calls p n) = Some s' \<and> \<not> getTableDataCalled s' \<and> statementClient s' = statementClient s
    \<and> (headersPushed s' \<longleftrightarrow> headersPushed s \<or> re_columns p \<noteq> None)
    \<and> (failed s' \<longleftrightarrow> (case re_error p of None \<Rightarrow> failed s | Some (name, m) \<Rightarrow> m \<noteq> []))"
  using assms
  by (cases "re_error p"; cases "re_columns p"; cases "re_data p")
    (auto simp: response_calls_def pushHeadersToTableau_def pushDataToTableau_def errorHandler_def tell_def failed_def)

text \<open>The outcome of the pages of one \<open>advance\<close>, of which at most the last has a result.\<close>

lemma pages_outcome:
  assumes "\<not> getTableDataCalled s" "\<not> headersPushed s" "\<not> failed s" "\<not> list_ex has_result (butlast ps)"
  shows "\<exists>s'. foldM connector_callback s (concat (map (\<lambda>p. response_calls p n) ps)) = Some s' \<and> \<not> getTableDataCalled s'
    \<and> statementClient s' = statementClient s \<and> (headersPushed s' \<or> failed s' \<longleftrightarrow> list_ex ends_headers ps)"
proof -
  have run: "\<exists>s'. foldM connector_callback s (concat (map (\<lambda>p. response_calls p n) ps)) = Some s' \<and> \<not> getTableDataCalled s'
    \<and> statementClient s' = statementClient s \<and> (headersPushed s' \<longleftrightarrow> list_ex (\<lambda>p. re_columns p \<noteq> None) ps)
    \<and> (failed s' \<longleftrightarrow> ps \<noteq> [] \<and> (case re_error (last ps) of None \<Rightarrow> False | Some (name, m) \<Rightarrow> m \<noteq> []))"
    using assms(4)
  proof (induction ps rule: rev_induct)
    case Nil
    then show ?case using assms by simp
  next
    case (snoc p ps)
    then have n: "\<not> list_ex has_result ps" "\<not> list_ex has_result (butlast ps)" by (auto simp: list_ex_iff dest: in_set_butlastD)
    then have e: "\<not> (ps \<noteq> [] \<and> (case re_error (last ps) of None \<Rightarrow> False | Some (name, m) \<Rightarrow> m \<noteq> []))"
      by (cases ps rule: rev_cases) (auto simp: has_result_def split: option.splits)
    obtain s1 where s1: "foldM connector_callback s (concat (map (\<lambda>p. response_calls p n) ps)) = Some s1" "\<not> getTableDataCalled s1"
      "statementClient s1 = statementClient s" "headersPushed s1 \<longleftrightarrow> list_ex (\<lambda>p. re_columns p \<noteq> None) ps" "\<not> failed s1"
      using snoc.IH[OF n(2)] e by blast
    have "(case re_error p of None \<Rightarrow> failed s1 | Some (name, m) \<Rightarrow> m \<noteq> []) \<longleftrightarrow> (case re_error p of None \<Rightarrow> False | Some (name, m) \<Rightarrow> m \<noteq> [])"
      using s1(5) by (simp split: option.split)
    with page_outcome[OF s1(2), of p n] s1(1,3,4) show ?case by (auto simp: foldM_append)
  qed
  have "list_ex ends_headers ps \<longleftrightarrow> list_ex (\<lambda>p. re_columns p \<noteq> None) ps
      \<or> ps \<noteq> [] \<and> (case re_error (last ps) of None \<Rightarrow> False | Some (name, m) \<Rightarrow> m \<noteq> [])"
    using assms(4) by (cases ps rule: rev_cases) (auto simp: list_ex_iff ends_headers_def has_result_def split: option.splits)
  with run show ?thesis by blast
qed

text \<open>One round of the loop.\<close>

lemma headers_round:
  assumes "\<not> getTableDataCalled s" "\<not> headersPushed s" "\<not> failed s" "at_pages sv ps s"
  shows "\<exists>pre post s'. ps = pre @ post \<and> connector_advance sv 0 s = Some (Some s') \<and> \<not> getTableDataCalled s' \<and> at_pages sv post s'
    \<and> (headersPushed s' \<or> failed s' \<longleftrightarrow> list_ex ends_headers pre) \<and> (post \<noteq> [] \<longrightarrow> pre \<noteq> [])"
proof -
  from connector_advance_pages[OF assms(4), of 0] obtain pre post c' where p: "ps = pre @ post"
    "list_ex has_result ps \<Longrightarrow> pre \<noteq> []" "\<not> list_ex has_result (butlast pre)" "\<not> list_ex has_result ps \<Longrightarrow> post = []"
    "connector_advance sv 0 s = Some (Some (run_callbacks (s\<lparr> statementClient := Some c' \<rparr>) (concat (map (\<lambda>p. response_calls p 0) pre))))"
    "\<exists>r. currentResults c' = Some r \<and> pages sv r post" by blast
  let ?t = "s\<lparr> statementClient := Some c' \<rparr>"
  have "\<not> getTableDataCalled ?t" "\<not> headersPushed ?t" "\<not> failed ?t" using assms(1-3) by (simp_all add: failed_def)
  from pages_outcome[OF this p(3), of 0] obtain s' where
    "foldM connector_callback ?t (concat (map (\<lambda>p. response_calls p 0) pre)) = Some s'" "\<not> getTableDataCalled s'"
    "statementClient s' = Some c'" "headersPushed s' \<or> failed s' \<longleftrightarrow> list_ex ends_headers pre" by auto
  then show ?thesis using p by (intro exI[of _ pre] exI[of _ post] exI[of _ s']) (auto simp: at_pages_def)
qed

lemma headers_loop_returns:
  assumes "\<not> getTableDataCalled s" "at_pages sv ps s" "headersPushed s \<or> failed s \<or> list_ex ends_headers ps"
  shows "\<exists>s'. headers_loop sv s = Some (Some s')"
  using assms
proof (induction ps arbitrary: s rule: length_induct)
  case (1 ps)
  show ?case
  proof (cases "headersPushed s \<or> failed s")
    case True
    then show ?thesis by (subst headers_loop.simps) simp
  next
    case False
    from headers_round[OF 1(2) _ _ 1(3)] False obtain pre post s1 where r: "ps = pre @ post" "connector_advance sv 0 s = Some (Some s1)"
      "\<not> getTableDataCalled s1" "at_pages sv post s1" "headersPushed s1 \<or> failed s1 \<longleftrightarrow> list_ex ends_headers pre" "post \<noteq> [] \<longrightarrow> pre \<noteq> []"
      by blast
    have "headersPushed s1 \<or> failed s1 \<or> list_ex ends_headers post" using 1(4) False r(1,5) by auto
    moreover have "\<exists>s'. headers_loop sv s1 = Some (Some s')" if "headersPushed s1 \<or> failed s1"
      using that by (subst headers_loop.simps) simp
    moreover have "\<exists>s'. headers_loop sv s1 = Some (Some s')" if "list_ex ends_headers post"
    proof -
      have "length post < length ps" using that r(1,6) by (cases post; cases pre) auto
      then show ?thesis using 1(1) r(3,4) that by blast
    qed
    ultimately show ?thesis using False r(2) by (subst headers_loop.simps) auto
  qed
qed

lemma headers_loop_diverges:
  assumes "\<not> getTableDataCalled s" "\<not> headersPushed s" "\<not> failed s" "at_pages sv ps s" "\<not> list_ex ends_headers ps"
  shows "headers_loop sv s = None"
proof (rule ccontr)
  assume "headers_loop sv s \<noteq> None"
  then obtain y where y: "headers_loop sv s = Some y" by blast
  have "\<not> (\<exists>ps. \<not> getTableDataCalled s \<and> \<not> headersPushed s \<and> \<not> failed s \<and> at_pages sv ps s \<and> \<not> list_ex ends_headers ps)"
  proof (rule headers_loop.raw_induct[where P = "\<lambda>sv s y. \<not> (\<exists>ps. \<not> getTableDataCalled s \<and> \<not> headersPushed s \<and> \<not> failed s
      \<and> at_pages sv ps s \<and> \<not> list_ex ends_headers ps)", OF _ y], goal_cases)
    case (1 loop sv s y)
    show ?case
    proof
      assume "\<exists>ps. \<not> getTableDataCalled s \<and> \<not> headersPushed s \<and> \<not> failed s \<and> at_pages sv ps s \<and> \<not> list_ex ends_headers ps"
      then obtain ps where ps: "\<not> getTableDataCalled s" "\<not> headersPushed s" "\<not> failed s" "at_pages sv ps s" "\<not> list_ex ends_headers ps" by blast
      from headers_round[OF ps(1-4)] obtain pre post s1 where r: "ps = pre @ post" "connector_advance sv 0 s = Some (Some s1)"
        "\<not> getTableDataCalled s1" "at_pages sv post s1" "headersPushed s1 \<or> failed s1 \<longleftrightarrow> list_ex ends_headers pre" by blast
      have "loop sv s1 = Some y" using 1(2) ps(2,3) r(2) by simp
      from 1(1)[OF this] show False using r ps(5) by (auto simp: list_ex_iff)
    qed
  qed
  with assms show False by blast
qed

text \<open>On pages without errors one round is enough.\<close>

lemma header_loop_pages:
  assumes "header_phase cols [first] s" "reading sv ps s" "list_all (good_page cols) ps" "list_ex (\<lambda>p. re_columns p \<noteq> None) (first # ps)"
  shows "\<exists>s' pre post. headers_loop sv s = Some (Some s') \<and> ps = pre @ post \<and> header_phase cols (first # pre) s' \<and> headersPushed s' \<and> reading sv post s'"
proof (cases "headersPushed s")
  case True
  then have "headers_loop sv s = Some (Some s)" by (subst headers_loop.simps) simp
  then show ?thesis using assms(1,2) True by (intro exI[of _ s] exI[of _ "[]"] exI[of _ ps]) simp
next
  case False
  have "at_pages sv ps s" using assms(2) by (simp add: reading_def)
  from connector_advance_pages[OF this, of 0] obtain pre post c' where p: "ps = pre @ post"
    "list_ex has_result ps \<Longrightarrow> pre \<noteq> [] \<and> has_result (last pre)" "\<not> list_ex has_result ps \<Longrightarrow> post = []"
    "connector_advance sv 0 s = Some (Some (run_callbacks (s\<lparr> statementClient := Some c' \<rparr>) (concat (map (\<lambda>p. response_calls p 0) pre))))"
    "\<exists>r. currentResults c' = Some r \<and> pages sv r post" "sc_valid c' \<longleftrightarrow> client_valid s \<and> list_ex has_result ps"
    by blast
  let ?t = "s\<lparr> statementClient := Some c' \<rparr>"
  have "header_phase cols [first] ?t" using assms(1) by (simp add: header_phase_def)
  from header_phase_pages[OF this, of pre 0] assms(3)[unfolded p(1)] obtain s' where
    s': "foldM connector_callback ?t (concat (map (\<lambda>p. response_calls p 0) pre)) = Some s'" "header_phase cols (first # pre) s'" "statementClient s' = Some c'"
    by auto
  have "re_columns (last pre) \<noteq> None \<and> last pre \<in> set pre" if "list_ex has_result ps"
    using p(2)[OF that] assms(3)[unfolded p(1)] by (cases pre rule: rev_cases) (auto simp: good_page_def has_result_def split: option.splits)
  then have "list_ex (\<lambda>p. re_columns p \<noteq> None) (first # pre)"
  proof (cases "list_ex has_result ps")
    case False
    then show ?thesis using assms(4) p(1) p(3)[OF False] by simp
  qed (auto simp: list_ex_iff)
  then have h: "headersPushed s'" using s'(2) by (simp add: header_phase_def)
  have f: "\<not> failed s" using assms(1) by (simp add: header_phase_def failed_def)
  have "headers_loop sv s' = Some (Some s')" using h by (subst headers_loop.simps) simp
  then have "headers_loop sv s = Some (Some s')" using False f p(4) s'(1) by (subst headers_loop.simps) simp
  moreover have "reading sv post s'"
  proof -
    have "sc_valid c'" if "post \<noteq> []" using that p(1,3,6) assms(2) by (auto simp: reading_def)
    then show ?thesis using p(5) s'(3) by (auto simp: reading_def at_pages_def client_valid_def)
  qed
  ultimately show ?thesis using p(1) s'(2) h by blast
qed

lemma page_data_good:
  "list_all (good_page cols) ps \<Longrightarrow> list_all (\<lambda>rows. rows \<noteq> []) (concat (map page_data ps)) \<and> length (concat (map page_data ps)) \<le> length ps"
  by (induction ps) (auto simp: good_page_def page_data_def split: option.splits)

subsection \<open>Properties\<close>

lemma connector_client_first:
  assumes "session_parameters cd = Some params"
  shows "\<exists>c. connector_client cd (Success first) connector_init = Some (run_callbacks (connector_init\<lparr> statementClient := Some c \<rparr>) (response_calls first 0))
    \<and> currentResults c = Some first \<and> sc_valid c"
  using assms
  by (intro exI[of _ "\<lparr> sc_query = cd_query cd, sc_headers = client_headers cd params, currentResults = Some first, sc_valid = True,
      sc_calls = response_calls first 0 \<rparr>"])
    (simp add: connector_client_def StatementClient_def submitQuery_def responseHandler_def)

text \<open>
  C23. \<open>getColumnHeaders\<close> on a statement whose result has finitely many pages: it returns exactly when one
  of the pages has columns or an error with a message; when no page has, its loop goes on forever, asking
  a client that has nothing left to read.
\<close>

theorem getColumnHeaders_terminates_iff:
  assumes "read_connection connectionData = Some cd" "session_parameters cd = Some params" "pages sv first ps"
  shows "getColumnHeaders sv connectionData (Success first) connector_init \<noteq> None \<longleftrightarrow> list_ex ends_headers (first # ps)"
proof -
  obtain c where c: "connector_client cd (Success first) connector_init
      = Some (run_callbacks (connector_init\<lparr> statementClient := Some c \<rparr>) (response_calls first 0))" "currentResults c = Some first"
    using connector_client_first[OF assms(2), of first] by blast
  let ?t = "connector_init\<lparr> statementClient := Some c \<rparr>"
  have t: "\<not> getTableDataCalled ?t" "\<not> headersPushed ?t" "\<not> failed ?t" by (simp_all add: connector_init_def failed_def)
  from pages_outcome[OF t, of "[first]" 0] obtain s1 where s1: "foldM connector_callback ?t (response_calls first 0) = Some s1"
    "\<not> getTableDataCalled s1" "statementClient s1 = Some c" "headersPushed s1 \<or> failed s1 \<longleftrightarrow> ends_headers first" by auto
  have at: "at_pages sv ps s1" using s1(3) c(2) assms(3) by (simp add: at_pages_def)
  have e: "getColumnHeaders sv connectionData (Success first) connector_init = map_option (map_option abort_if_failed) (headers_loop sv s1)"
    using assms(1) c(1) s1(1) by (simp add: getColumnHeaders_def)
  show ?thesis
  proof (cases "list_ex ends_headers (first # ps)")
    case True
    then have "headersPushed s1 \<or> failed s1 \<or> list_ex ends_headers ps" using s1(4) by auto
    from headers_loop_returns[OF s1(2) at this] show ?thesis using True e by auto
  next
    case False
    then have "headers_loop sv s1 = None" using s1(4) by (intro headers_loop_diverges[OF s1(2) _ _ at]) auto
    then show ?thesis using False e by simp
  qed
qed

text \<open>
  C3. Tableau gets the whole table.  For a statement whose pages carry no error and rows only together with
  the columns, and a Tableau that asks for data as long as it is told that there is more: \<open>getColumnHeaders\<close>
  returns after telling the names and types of the columns once; the calls of \<open>getTableData\<close> that follow,
  one more than there are pages, all return; Tableau receives every row of every page, those that
  came with the columns included, in order and once each; and the last call tells that there is no more.
\<close>

theorem connector_delivers:
  assumes "read_connection connectionData = Some cd" "session_parameters cd = Some params" "pages sv first ps"
    and "list_all (good_page cols) (first # ps)" "list_ex (\<lambda>p. re_columns p \<noteq> None) (first # ps)" "length ps + 1 < length ns"
  shows "\<exists>s s' n. getColumnHeaders sv connectionData (Success first) connector_init = Some (Some s) \<and> tableau_calls s = [headers_call cols]
    \<and> gather_data sv ns s = Some (Some s') \<and> last (tableau_calls s') = DataCallback [] n False
    \<and> received (tableau_calls s') = map (tableau_row cols) (concat (map page_rows (first # ps)))"
proof -
  obtain c where c: "connector_client cd (Success first) connector_init
      = Some (run_callbacks (connector_init\<lparr> statementClient := Some c \<rparr>) (response_calls first 0))" "currentResults c = Some first" "sc_valid c"
    using connector_client_first[OF assms(2), of first] by blast
  let ?t = "connector_init\<lparr> statementClient := Some c \<rparr>"
  have "header_phase cols [] ?t" by (simp add: header_phase_def connector_init_def)
  from header_phase_page[OF this, of first 0] assms(4) obtain s1 where s1: "foldM connector_callback ?t (response_calls first 0) = Some s1"
    "header_phase cols [first] s1" "statementClient s1 = Some c" by auto
  have at: "reading sv ps s1" using s1(3) c(2,3) assms(3) by (simp add: reading_def at_pages_def client_valid_def)
  have good: "list_all (good_page cols) ps" using assms(4) by simp
  from header_loop_pages[OF s1(2) at good assms(5)] obtain s2 pre post where l: "headers_loop sv s1 = Some (Some s2)" "ps = pre @ post"
    "header_phase cols (first # pre) s2" "headersPushed s2" "reading sv post s2" by auto
  have h: "getColumnHeaders sv connectionData (Success first) connector_init = Some (Some s2)"
    using assms(1) c(1) s1(1) l(1,3) by (simp add: getColumnHeaders_def abort_if_failed_def failed_def header_phase_def)
  have ph: "data_phase cols s2" "tableau_calls s2 = [headers_call cols]" "buffer s2 = concat (map page_data (first # pre))"
    using l(3,4) by (simp_all add: header_phase_def data_phase_def)
  have b: "list_all (\<lambda>rows. rows \<noteq> []) (buffer s2)" "length (buffer s2) \<le> length (first # pre)"
    unfolding ph(3) using page_data_good[of cols "first # pre"] assms(4) l(2) by auto
  have "list_all (good_page cols) post" "length (buffer s2) + length post < length ns" using good l(2) b(2) assms(6) by auto
  from gather_buffer[OF ph(1) b(1) l(5) this] obtain s' n where "gather_data sv ns s2 = Some (Some s')" "last (tableau_calls s') = DataCallback [] n False"
    "received (tableau_calls s') = map (tableau_row cols) (concat (buffer s2) @ concat (map page_rows post))"
    using ph(2) by (auto simp: headers_call_def)
  moreover have "concat (buffer s2) = concat (map page_rows (first # pre))" unfolding ph(3) by (rule concat_page_data)
  ultimately show ?thesis using h ph(2) l(2) by auto
qed

text \<open>A statement whose columns come with the second page, together with its first rows.\<close>

definition example_columns :: "column list" where
  "example_columns = [\<lparr> col_name = ''ok'', col_type = ''boolean'' \<rparr>, \<lparr> col_name = ''xs'', col_type = ''array(varchar)'' \<rparr>]"

definition data_page :: "column list option \<Rightarrow> json list list option \<Rightarrow> string option \<Rightarrow> page" where
  "data_page cols rows u = \<lparr> re_error = None, re_columns = cols, re_data = rows, re_nextUri = u \<rparr>"

definition example_pages :: "page list" where
  "example_pages =
    [data_page (Some example_columns) (Some [[JsonBool True, JsonArr [JsonStr ''a'']]]) (Some ''/2''),
     data_page (Some example_columns) None (Some ''/3''),
     data_page (Some example_columns) (Some [[JsonBool False, JsonArr []], [JsonNull, JsonNull]]) None]"

definition example_data_server :: data_server where
  "example_data_server u = (if u = ''/1'' then Success (example_pages ! 0) else if u = ''/2'' then Success (example_pages ! 1) else Success (example_pages ! 2))"

definition example_connection :: string where
  "example_connection = json_print (JsonObj [(''query'', JsonStr ''SELECT 1''), (''userName'', JsonStr ''u''), (''sessionParameters'', JsonStr ''{}'')])"

lemma example_connected:
  "\<exists>cd. read_connection example_connection = Some cd \<and> session_parameters cd = Some []"
proof -
  have "(case read_connection example_connection of None \<Rightarrow> False | Some cd \<Rightarrow> session_parameters cd = Some [])" by code_simp
  then show ?thesis by (auto split: option.splits)
qed

lemma example_data_pages:
  "pages example_data_server (data_page None None (Some ''/1'')) example_pages" "list_all (good_page example_columns) (data_page None None (Some ''/1'') # example_pages)"
  by (simp_all add: example_pages_def example_data_server_def data_page_def good_page_def)

theorem connector_delivers_witness:
  "\<exists>s s' n. getColumnHeaders example_data_server example_connection (Success (data_page None None (Some ''/1''))) connector_init = Some (Some s)
    \<and> tableau_calls s = [HeadersCallback [''ok'', ''xs''] [''bool'', ''string'']]
    \<and> gather_data example_data_server [0, 1, 3, 3, 3] s = Some (Some s') \<and> last (tableau_calls s') = DataCallback [] n False
    \<and> received (tableau_calls s') =
      [[(''ok'', Some (JsonBool True)), (''xs'', Some (JsonStr ''[\"a\"]''))],
       [(''ok'', Some (JsonBool False)), (''xs'', Some (JsonStr ''[]''))],
       [(''ok'', Some JsonNull), (''xs'', Some (JsonStr ''null''))]]"
proof -
  obtain cd where cd: "read_connection example_connection = Some cd" "session_parameters cd = Some []" using example_connected by blast
  have c: "list_ex (\<lambda>p. re_columns p \<noteq> None) (data_page None None (Some ''/1'') # example_pages)" "length example_pages + 1 < length [0, 1, 3, 3, 3 :: nat]"
    by (simp_all add: example_pages_def data_page_def)
  have r: "map (tableau_row example_columns) (concat (map page_rows (data_page None None (Some ''/1'') # example_pages))) =
      [[(''ok'', Some (JsonBool True)), (''xs'', Some (JsonStr ''[\"a\"]''))],
       [(''ok'', Some (JsonBool False)), (''xs'', Some (JsonStr ''[]''))],
       [(''ok'', Some JsonNull), (''xs'', Some (JsonStr ''null''))]]"
    "headers_call example_columns = HeadersCallback [''ok'', ''xs''] [''bool'', ''string'']" by code_simp+
  show ?thesis using connector_delivers[OF cd example_data_pages c] unfolding r .
qed

theorem getColumnHeaders_terminates_iff_witness:
  "getColumnHeaders (\<lambda>_. Success (data_page None None None)) example_connection (Success (data_page None None (Some ''/1''))) connector_init = None"
proof -
  obtain cd where cd: "read_connection example_connection = Some cd" "session_parameters cd = Some []" using example_connected by blast
  have "pages (\<lambda>_. Success (data_page None None None)) (data_page None None (Some ''/1'')) [data_page None None None]" by (simp add: data_page_def)
  moreover have "\<not> list_ex ends_headers [data_page None None (Some ''/1''), data_page None None None]" by (simp add: data_page_def ends_headers_def)
  ultimately show ?thesis using getColumnHeaders_terminates_iff[OF cd, of "\<lambda>_. Success (data_page None None None)"] by blast
qed

text \<open>
  An error after the headers is not reported.  When the next page of the result carries an error and no
  rows, \<open>getTableData\<close> returns without any call to Tableau: neither rows, nor the end of the data, nor the
  message.
\<close>

theorem late_error_unreported:
  assumes "headersPushed s" "buffer s = []" "statementClient s = Some c" "sc_valid c" "next_uri c = Some u" "sv u = Success p"
    and "re_error p = Some (name, message)" "re_data p = None"
  shows "\<exists>s'. getTableData sv n s = Some (Some s') \<and> tableau_calls s' = tableau_calls s \<and> errorMessage s' = Some message"
proof -
  let ?c = "responseHandler p n (c\<lparr> currentResults := Some p \<rparr>)"
  have "advance sv n c = Some ?c" using assms(5-8) by (subst advance.simps) (simp add: has_result_def Let_def)
  moreover have "drop (length (sc_calls c)) (sc_calls ?c) = response_calls p n" by (simp add: responseHandler_def)
  moreover have "sc_valid ?c" using assms(4) by (simp add: responseHandler_def)
  ultimately show ?thesis using assms(1-3,7,8)
    by (cases "re_columns p") (auto simp: getTableData_def connector_advance_def response_calls_def pushHeadersToTableau_def errorHandler_def client_valid_def)
qed

theorem late_error_unreported_witness:
  "\<exists>s'. getTableData (\<lambda>_. Success ((data_page None None None)\<lparr> re_error := Some (''EXCEEDED_TIME_LIMIT'', ''too slow'') \<rparr>)) 5
      (connector_init\<lparr> headersPushed := True, statementClient := Some \<lparr> sc_query = [], sc_headers = [],
         currentResults = Some (data_page None None (Some ''/1'')), sc_valid = True, sc_calls = [] \<rparr> \<rparr>) = Some (Some s')
    \<and> tableau_calls s' = [] \<and> errorMessage s' = Some ''too slow''"
proof -
  let ?c = "\<lparr> sc_query = [], sc_headers = [], currentResults = Some (data_page None None (Some ''/1'')), sc_valid = True, sc_calls = [] \<rparr> :: data_client"
  have "next_uri ?c = Some ''/1''" by code_simp
  from late_error_unreported[OF _ _ _ _ this, of "connector_init\<lparr> headersPushed := True, statementClient := Some ?c \<rparr>"
      "\<lambda>_. Success ((data_page None None None)\<lparr> re_error := Some (''EXCEEDED_TIME_LIMIT'', ''too slow'') \<rparr>)" _ "''EXCEEDED_TIME_LIMIT''" "''too slow''" 5]
  show ?thesis by (simp add: connector_init_def data_page_def)
qed

end
