(* ===== verification/ConnectorForm.thy ===== *)
theory ConnectorForm
  imports Connector
begin

text \<open>
  \<^verbatim>\<open>webapp/tableau/presto-connector.html\<close>, the form in which the user describes the connection: the menus of
  the catalogs and schemas, filled by statements of their own, the session parameters, and the text the
  form is stored in when it is submitted, from which the connection is made and the form restored.

  What the server answers to the statement of a client is the parameter \<open>post\<close>, a function of the headers
  and the query.  The pages are asked for in a loop, in which a request can be repeated: \<open>svs i\<close> is what the
  server does during the round \<open>i\<close> of the loop.  \<open>html\<close> is the value of an input element whose attribute \<open>value\<close> has the given text.
\<close>

section \<open>State\<close>

text \<open>
  The row of a session parameter: its number, its two inputs, and how many handlers have been attached to
  its link \<open>X\<close>.  The options of the second menu carry the mark \<open>selected\<close>; the chosen values are \<open>None\<close> when a
  menu is empty.
\<close>

record param_row =
  pr_id :: int
  pr_name :: string
  pr_value :: string
  pr_handlers :: nat

record form =
  fm_catalogs :: "string list"
  fm_schemas :: "(string \<times> bool) list"
  fm_catalog :: "string option"
  fm_schema :: "string option"
  fm_query :: string
  fm_userName :: string
  fm_dataSourceName :: string
  fm_params :: "param_row list"
  sessionParameterCount :: int

definition form_init :: form where
  "form_init =
    \<lparr> fm_catalogs = [], fm_schemas = [], fm_catalog = None, fm_schema = None, fm_query = [], fm_userName = [], fm_dataSourceName = [],
      fm_params = [], sessionParameterCount = 0 \<rparr>"

section \<open>Menus\<close>

type_synonym post_server = "(string \<times> header_value) list \<Rightarrow> string \<Rightarrow> (column, json list) reply"

type_synonym get_server = "nat \<Rightarrow> data_server"

partial_function (option) read_all :: "get_server \<Rightarrow> nat \<Rightarrow> data_client \<Rightarrow> data_client option" where
  "read_all svs i c = (if sc_valid c then advance (svs i) 0 c \<bind> read_all svs (Suc i) else Some c)"

definition run_statement :: "post_server \<Rightarrow> get_server \<Rightarrow> connection_data \<Rightarrow> data_client throws option" where
  "run_statement post svs cd =
    (case session_parameters cd of
       None \<Rightarrow> Some None
     | Some params \<Rightarrow>
         (case StatementClient cd (post (client_headers cd params) (cd_query cd)) of
            None \<Rightarrow> Some None
          | Some c \<Rightarrow> map_option Some (read_all svs 0 c)))"

definition handle_errors :: "(column, json list) callback list \<Rightarrow> connector \<Rightarrow> connector" where
  "handle_errors calls s = foldl (\<lambda>s c. case c of Error a b \<Rightarrow> errorHandler a b s | _ \<Rightarrow> s) s calls"

text \<open>A row, an array, assigned to the text of an option.\<close>

definition option_text :: "json list \<Rightarrow> string" where
  "option_text row = js_text (JsonArr row)"

definition catalogs_statement :: connection_data where
  "catalogs_statement = \<lparr> cd_query = ''show catalogs'', cd_catalog = None, cd_schema = None, cd_userName = [], cd_sessionParameters = None \<rparr>"

definition schemas_statement :: "string option \<Rightarrow> connection_data" where
  "schemas_statement catalogName =
    \<lparr> cd_query = ''show schemas'', cd_catalog = catalogName, cd_schema = Some ''default'', cd_userName = [], cd_sessionParameters = None \<rparr>"

text \<open>A drop-down menu without a choice chooses its first option; a marked option takes the choice when it is inserted.\<close>

definition first_option :: "string list \<Rightarrow> string option" where
  "first_option vs = (case vs of [] \<Rightarrow> None | v # _ \<Rightarrow> Some v)"

definition populateCatalogs :: "post_server \<Rightarrow> get_server \<Rightarrow> connector \<times> form \<Rightarrow> (connector \<times> form) throws option" where
  "populateCatalogs post svs = (\<lambda>(s, f).
    map_option (map_option (\<lambda>c.
        let catalogs = fm_catalogs f @ map option_text (rows_of (sc_calls c))
        in (handle_errors (sc_calls c) s,
            f\<lparr> fm_catalogs := catalogs, fm_catalog := (if fm_catalog f = None then first_option catalogs else fm_catalog f) \<rparr>)))
      (run_statement post svs catalogs_statement))"

definition populateSchemas :: "post_server \<Rightarrow> get_server \<Rightarrow> string option \<Rightarrow> connector \<times> form \<Rightarrow> (connector \<times> form) throws option" where
  "populateSchemas post svs catalogName = (\<lambda>(s, f).
    map_option (map_option (\<lambda>c.
        let schemas = map option_text (rows_of (sc_calls c))
        in (handle_errors (sc_calls c) s,
            f\<lparr> fm_schemas := map (\<lambda>t. (t, t = ''default'')) schemas,
              fm_schema := (if ''default'' \<in> set schemas then Some ''default'' else first_option schemas) \<rparr>)))
      (run_statement post svs (schemas_statement catalogName)))"

text \<open>The user chooses another catalog.\<close>

definition catalog_change :: "post_server \<Rightarrow> get_server \<Rightarrow> string \<Rightarrow> connector \<times> form \<Rightarrow> (connector \<times> form) throws option" where
  "catalog_change post svs v = (\<lambda>(s, f). populateSchemas post svs (Some v) (s, f\<lparr> fm_catalog := Some v \<rparr>))"

section \<open>Session parameters\<close>

text \<open>\<open>$('#removeSessionProp_' + i).click(...)\<close>: the handler goes to the first element with the id.\<close>

fun attach_handler :: "int \<Rightarrow> param_row list \<Rightarrow> param_row list" where
  "attach_handler i [] = []"
| "attach_handler i (r # rs) = (if pr_id r = i then r\<lparr> pr_handlers := Suc (pr_handlers r) \<rparr> # rs else r # attach_handler i rs)"

definition addSessionParameterToForm :: "(string \<Rightarrow> string) \<Rightarrow> string \<Rightarrow> string \<Rightarrow> form \<Rightarrow> form" where
  "addSessionParameterToForm html name v f =
    (let i = sessionParameterCount f
     in f\<lparr> fm_params := attach_handler i (fm_params f @ [\<lparr> pr_id = i, pr_name = html name, pr_value = html v, pr_handlers = 0 \<rparr>]),
           sessionParameterCount := i + 1 \<rparr>)"

definition addSessionProp_click :: "(string \<Rightarrow> string) \<Rightarrow> form \<Rightarrow> form" where
  "addSessionProp_click html f = addSessionParameterToForm html [] [] f"

text \<open>The click on the link \<open>X\<close> of row \<open>k\<close> runs every handler attached to it; each of them counts down.\<close>

definition removeSessionProp_click :: "nat \<Rightarrow> form \<Rightarrow> form" where
  "removeSessionProp_click k f =
    (if k < length (fm_params f) \<and> 0 < pr_handlers (fm_params f ! k)
     then f\<lparr> fm_params := take k (fm_params f) @ drop (Suc k) (fm_params f),
             sessionParameterCount := sessionParameterCount f - int (pr_handlers (fm_params f ! k)) \<rparr>
     else f)"

section \<open>Submitting and restoring\<close>

definition sessionParameters :: "form \<Rightarrow> (string \<times> json) list" where
  "sessionParameters f = foldl (\<lambda>m r. map_set (pr_name r) (JsonStr (pr_value r)) (map_set (pr_name r) JsonNull m)) [] (fm_params f)"

definition json_option :: "string option \<Rightarrow> json" where
  "json_option v = (case v of None \<Rightarrow> JsonNull | Some t \<Rightarrow> JsonStr t)"

definition connectionData :: "form \<Rightarrow> json" where
  "connectionData f =
    JsonObj [(''catalog'', json_option (fm_catalog f)), (''schema'', json_option (fm_schema f)), (''query'', JsonStr (fm_query f)),
      (''userName'', JsonStr (fm_userName f)), (''sessionParameters'', JsonStr (json_print (JsonObj (sessionParameters f))))]"

definition filled_in :: "form \<Rightarrow> bool" where
  "filled_in f \<longleftrightarrow> fm_query f \<noteq> [] \<and> fm_schema f \<notin> {None, Some []} \<and> fm_catalog f \<notin> {None, Some []}
    \<and> fm_userName f \<noteq> [] \<and> fm_dataSourceName f \<noteq> []"

text \<open>The state, the texts \<open>tableau.connectionData\<close> and \<open>tableau.connectionName\<close>, and whether \<open>tableau.submit\<close> is called.\<close>

definition inputForm_submit :: "form \<Rightarrow> connector \<Rightarrow> connector \<times> string \<times> string \<times> bool" where
  "inputForm_submit f s =
    (s\<lparr> statementClient := None, headersPushed := False \<rparr>, json_print (connectionData f), fm_dataSourceName f, filled_in f)"

definition val_of :: "string option \<Rightarrow> string" where
  "val_of v = (case v of None \<Rightarrow> [] | Some t \<Rightarrow> t)"

text \<open>
  The values the page puts back into the form when it is loaded: the session parameters, the stored data,
  and the name of the data source.
\<close>

definition restore_params :: "(string \<Rightarrow> string) \<Rightarrow> string \<Rightarrow> form \<Rightarrow> form throws" where
  "restore_params html stored f =
    (if stored = [] then Some f
     else do {
       parameterMap \<leftarrow> json_parse stored;
       Some (foldl (\<lambda>g (name, v). addSessionParameterToForm html name (js_text v) g) f (for_in parameterMap)) })"

definition restore_data :: "(string \<Rightarrow> string) \<Rightarrow> string \<Rightarrow> form \<Rightarrow> form throws" where
  "restore_data html stored f =
    (if stored = [] then Some f
     else do {
       v \<leftarrow> json_parse stored;
       if v = JsonNull then None
       else restore_params html (val_of (str_field ''sessionParameters'' v))
              (f\<lparr> fm_query := val_of (str_field ''query'' v), fm_userName := val_of (str_field ''userName'' v) \<rparr>) })"

definition restore_form :: "(string \<Rightarrow> string) \<Rightarrow> string option \<Rightarrow> string option \<Rightarrow> form \<Rightarrow> form throws" where
  "restore_form html storedData storedName f =
    do {
      g \<leftarrow> restore_data html (val_of storedData) f;
      Some (if val_of storedName = [] then g else g\<lparr> fm_dataSourceName := val_of storedName \<rparr>) }"

text \<open>
  What happens when the document is ready: the menus are filled, with \<open>svs\<close> for the catalogs and \<open>svt\<close> for the
  schemas, and the stored form is put back.
\<close>

definition document_ready ::
  "post_server \<Rightarrow> get_server \<Rightarrow> get_server \<Rightarrow> (string \<Rightarrow> string) \<Rightarrow> string option \<Rightarrow> string option \<Rightarrow> connector \<times> form \<Rightarrow> (connector \<times> form) throws option" where
  "document_ready post svs svt html storedData storedName sf =
    (case populateCatalogs post svs sf of
       Some (Some (s1, f1)) \<Rightarrow>
         (case populateSchemas post svt (fm_catalog f1) (s1, f1) of
            Some (Some (s2, f2)) \<Rightarrow> Some (map_option (Pair s2) (restore_form html storedData storedName f2))
          | Some None \<Rightarrow> Some None
          | None \<Rightarrow> None)
     | Some None \<Rightarrow> Some None
     | None \<Rightarrow> None)"

section \<open>Laws\<close>

subsection \<open>Menus\<close>

text \<open>
  A server that holds the pages \<open>sv\<close> and answers a request for one of them with the page or with a failure.
  It is fair when no address fails for ever.
\<close>

definition flaky :: "data_server \<Rightarrow> data_server \<Rightarrow> bool" where
  "flaky sv f \<longleftrightarrow> (\<forall>u. f u = sv u \<or> (\<exists>a b. f u = Failure a b))"

definition fair :: "data_server \<Rightarrow> get_server \<Rightarrow> bool" where
  "fair sv svs \<longleftrightarrow> (\<forall>u i. \<exists>j \<ge> i. svs j u = sv u)"

lemma next_uri_results: "currentResults c = Some r \<Longrightarrow> re_nextUri r = Some u \<Longrightarrow> u \<noteq> [] \<Longrightarrow> next_uri c = Some u"
  by (simp add: next_uri_def)

lemma advance_failed: "next_uri c = Some u \<Longrightarrow> f u = Failure a b \<Longrightarrow> advance f 0 c = Some (c\<lparr> sc_calls := sc_calls c @ [Error a b] \<rparr>)"
  by (subst advance.simps) simp

lemma advance_got:
  assumes "next_uri c = Some u" "f u = Success p"
  obtains c1 where "advance f 0 c = (if has_result p then Some c1 else advance f 0 c1)" "currentResults c1 = Some p" "sc_valid c1 = sc_valid c"
    "rows_of (sc_calls c1) = rows_of (sc_calls c) @ page_rows p"
  using assms by (intro that[of "responseHandler p 0 (c\<lparr> currentResults := Some p \<rparr>)"])
    (subst advance.simps, simp_all add: responseHandler_def Let_def)

text \<open>One call of \<open>advance\<close>: it takes over some of the pages that are left, and none only when the next one failed.\<close>

lemma advance_flaky:
  assumes "currentResults c = Some r" "pages sv r ps" "flaky sv f" "sc_valid c"
  shows "\<exists>c' pre rest r'. advance f 0 c = Some c' \<and> ps = pre @ rest \<and> currentResults c' = Some r' \<and> pages sv r' rest
    \<and> rows_of (sc_calls c') = rows_of (sc_calls c) @ concat (map page_rows pre) \<and> (sc_valid c' \<or> rest = [])
    \<and> (pre = [] \<longrightarrow> r' = r) \<and> (pre = [] \<and> sc_valid c' \<longrightarrow> (\<exists>u. next_uri c = Some u \<and> f u \<noteq> sv u))"
  using assms
proof (induction ps arbitrary: c r)
  case Nil
  then have "next_uri c = None" by (auto simp: next_uri_def)
  then have "advance f 0 c = Some (c\<lparr> sc_valid := False \<rparr>)" by (subst advance.simps) simp
  then show ?case using Nil.prems by (intro exI[of _ "c\<lparr> sc_valid := False \<rparr>"] exI[of _ "[]"] exI[of _ r]) simp
next
  case (Cons p ps)
  then obtain u where u: "re_nextUri r = Some u" "u \<noteq> []" "sv u = Success p" and ps: "pages sv p ps" by auto
  note n = next_uri_results[OF Cons.prems(1) u(1,2)]
  show ?case
  proof (cases "f u = sv u")
    case False
    then obtain a b where f: "f u = Failure a b" using Cons.prems(3) by (auto simp: flaky_def)
    let ?c = "c\<lparr> sc_calls := sc_calls c @ [Error a b] \<rparr>"
    have "rows_of [Error a b] = []" by (simp add: rows_of_def)
    then show ?thesis using advance_failed[where f = f, OF n f] Cons.prems(1,2,4) n False
      by (intro exI[of _ ?c] exI[of _ "[]"] exI[of _ "p # ps"] exI[of _ r]) simp
  next
    case True
    obtain c1 where c1: "advance f 0 c = (if has_result p then Some c1 else advance f 0 c1)" "currentResults c1 = Some p" "sc_valid c1 = sc_valid c"
      "rows_of (sc_calls c1) = rows_of (sc_calls c) @ page_rows p" using advance_got[where f = f, OF n] True u(3) by metis
    show ?thesis
    proof (cases "has_result p")
      case True
      then show ?thesis using c1 ps Cons.prems(4) by (intro exI[of _ c1] exI[of _ "[p]"] exI[of _ ps] exI[of _ p]) simp
    next
      case False
      obtain c' pre rest r' where "advance f 0 c1 = Some c'" "ps = pre @ rest" "currentResults c' = Some r'" "pages sv r' rest"
        "rows_of (sc_calls c') = rows_of (sc_calls c1) @ concat (map page_rows pre)" "sc_valid c' \<or> rest = []"
        using Cons.IH[OF c1(2) ps Cons.prems(3)] c1(3) Cons.prems(4) by blast
      then show ?thesis using c1 False by (intro exI[of _ c'] exI[of _ "p # pre"] exI[of _ rest] exI[of _ r']) simp
    qed
  qed
qed

text \<open>On a fair server the loop ends, with the rows of all pages once each and in order.\<close>

lemma read_all_fair:
  assumes "\<And>i. flaky sv (svs i)" "fair sv svs" "currentResults c = Some r" "pages sv r ps" "sc_valid c"
  shows "\<exists>c'. read_all svs i c = Some c' \<and> rows_of (sc_calls c') = rows_of (sc_calls c) @ concat (map page_rows ps)"
  using assms(3-5)
proof (induction ps arbitrary: c r i rule: length_induct)
  case (1 ps)
  note outer = 1(1)[rule_format] and pages = 1(3)
  let ?done = "\<lambda>i c. \<exists>c'. read_all svs i c = Some c' \<and> rows_of (sc_calls c') = rows_of (sc_calls c) @ concat (map page_rows ps)"
  have step: "?done i c \<or> (\<exists>c'. read_all svs i c = read_all svs (Suc i) c' \<and> currentResults c' = Some r \<and> sc_valid c'
      \<and> rows_of (sc_calls c') = rows_of (sc_calls c) \<and> (\<exists>u. next_uri c = Some u \<and> svs i u \<noteq> sv u))"
    if c: "currentResults c = Some r" "sc_valid c" for i c
  proof -
    obtain c' pre rest r' where a: "advance (svs i) 0 c = Some c'" "ps = pre @ rest" "currentResults c' = Some r'" "pages sv r' rest"
      "rows_of (sc_calls c') = rows_of (sc_calls c) @ concat (map page_rows pre)" "sc_valid c' \<or> rest = []" "pre = [] \<longrightarrow> r' = r"
      "pre = [] \<and> sc_valid c' \<longrightarrow> (\<exists>u. next_uri c = Some u \<and> svs i u \<noteq> sv u)"
      using advance_flaky[OF c(1) pages assms(1) c(2), of i] by blast
    have again: "read_all svs i c = read_all svs (Suc i) c'" using a(1) c(2) by (subst read_all.simps) simp
    show ?thesis
    proof (cases "sc_valid c' \<and> pre \<noteq> []")
      case True
      then have "length rest < length ps" using a(2) by simp
      from outer[OF this a(3,4), of "Suc i"] True show ?thesis using again a(2,5) by auto
    next
      case False
      have "read_all svs (Suc i) c' = Some c'" if "\<not> sc_valid c'" using that by (subst read_all.simps) simp
      then show ?thesis using False again a by (cases "sc_valid c'") auto
    qed
  qed
  have inner: "?done i c" if "\<forall>u. next_uri c = Some u \<longrightarrow> svs (i + d) u = sv u" "currentResults c = Some r" "sc_valid c" for d i c
    using that
  proof (induction d arbitrary: i c)
    case 0
    then show ?case using step[OF 0(2,3), of i] by auto
  next
    case (Suc d)
    show ?case
    proof (cases "?done i c")
      case False
      then obtain c' where c': "read_all svs i c = read_all svs (Suc i) c'" "currentResults c' = Some r" "sc_valid c'"
        "rows_of (sc_calls c') = rows_of (sc_calls c)" using step[OF Suc.prems(2,3), of i] by blast
      have "next_uri c' = next_uri c" using c'(2) Suc.prems(2) by (simp add: next_uri_def)
      then show ?thesis using Suc.IH[of c' "Suc i"] Suc.prems(1) c' by simp
    qed
  qed
  show ?case
  proof (cases "next_uri c")
    case None
    then show ?thesis using inner[of c i 0] 1(2,4) by simp
  next
    case (Some u)
    obtain j where "i \<le> j" "svs j u = sv u" using assms(2) by (auto simp: fair_def)
    then show ?thesis using inner[of c i "j - i"] 1(2,4) Some by simp
  qed
qed

text \<open>A page whose address always fails is never left; the loop repeats the request for ever.\<close>

lemma advance_blocked:
  assumes "currentResults c = Some r" "pages sv r ps" "flaky sv f" "p \<in> set (r # ps)" "re_nextUri p = Some u" "u \<noteq> []" "f u = Failure a b"
  shows "\<exists>c' r' rest. advance f 0 c = Some c' \<and> sc_valid c' = sc_valid c \<and> currentResults c' = Some r' \<and> pages sv r' rest \<and> p \<in> set (r' # rest)"
  using assms
proof (induction ps arbitrary: c r)
  case (Cons q ps)
  then obtain v where v: "re_nextUri r = Some v" "v \<noteq> []" "sv v = Success q" and ps: "pages sv q ps" by auto
  note n = next_uri_results[OF Cons.prems(1) v(1,2)]
  show ?case
  proof (cases "f v = sv v")
    case False
    then obtain x y where "f v = Failure x y" using Cons.prems(3) by (auto simp: flaky_def)
    from advance_failed[where f = f, OF n this] show ?thesis using Cons.prems(1,2,4)
      by (intro exI[of _ "c\<lparr> sc_calls := sc_calls c @ [Error x y] \<rparr>"] exI[of _ r] exI[of _ "q # ps"]) simp
  next
    case True
    obtain c1 where c1: "advance f 0 c = (if has_result q then Some c1 else advance f 0 c1)" "currentResults c1 = Some q" "sc_valid c1 = sc_valid c"
      using advance_got[where f = f, OF n] True v(3) by metis
    have p: "p \<in> set (q # ps)" using Cons.prems(4,5,7) v True by auto
    show ?thesis
    proof (cases "has_result q")
      case True
      then show ?thesis using c1 ps p by (intro exI[of _ c1] exI[of _ q] exI[of _ ps]) simp
    next
      case False
      then show ?thesis using Cons.IH[OF c1(2) ps Cons.prems(3) p Cons.prems(5-7)] c1 by simp
    qed
  qed
qed auto

lemma read_all_blocked:
  assumes flaky: "\<And>i. flaky sv (svs i)" and u: "re_nextUri p = Some u" "u \<noteq> []" "\<And>i. \<exists>a b. svs i u = Failure a b"
    and c: "sc_valid c" "currentResults c = Some r" "pages sv r ps" "p \<in> set (r # ps)"
  shows "read_all svs i c = None"
proof (rule ccontr)
  assume "read_all svs i c \<noteq> None"
  then obtain y where y: "read_all svs i c = Some y" by blast
  let ?P = "\<lambda>c. sc_valid c \<and> (\<exists>r ps. currentResults c = Some r \<and> pages sv r ps \<and> p \<in> set (r # ps))"
  have "svs' = svs \<longrightarrow> \<not> ?P c" if "read_all svs' i c = Some y" for svs' i c y
  proof (rule read_all.raw_induct[where P = "\<lambda>svs' i c y. svs' = svs \<longrightarrow> \<not> ?P c", OF _ that], goal_cases)
    case (1 loop svs' i c y)
    show ?case
    proof (intro impI notI)
      assume s: "svs' = svs" and "?P c"
      then obtain r ps where c: "sc_valid c" "currentResults c = Some r" "pages sv r ps" "p \<in> set (r # ps)" by blast
      obtain a b where "svs i u = Failure a b" using u(3) by blast
      from advance_blocked[OF c(2,3) flaky c(4) u(1,2) this] c(1) obtain c' where c': "advance (svs i) 0 c = Some c'" "?P c'" by auto
      then have "loop svs (Suc i) c' = Some y" using 1(2) c(1) s by simp
      from 1(1)[OF this] c'(2) show False by blast
    qed
  qed
  with y c show False by blast
qed

lemma run_statement_post:
  assumes "cd_sessionParameters cd = None" "post (client_headers cd []) (cd_query cd) = Success first"
  shows "\<exists>c. run_statement post svs cd = map_option Some (read_all svs 0 c) \<and> currentResults c = Some first \<and> sc_valid c \<and> sc_calls c = response_calls first 0"
  using assms
  by (intro exI[of _ "\<lparr> sc_query = cd_query cd, sc_headers = client_headers cd [], currentResults = Some first, sc_valid = True,
      sc_calls = response_calls first 0 \<rparr>"])
    (simp add: run_statement_def session_parameters_def StatementClient_def submitQuery_def responseHandler_def)

lemma run_statement_fair:
  assumes "cd_sessionParameters cd = None" "post (client_headers cd []) (cd_query cd) = Success first" "pages sv first ps"
    "\<And>i. flaky sv (svs i)" "fair sv svs"
  shows "\<exists>c. run_statement post svs cd = Some (Some c) \<and> rows_of (sc_calls c) = concat (map page_rows (first # ps))"
proof -
  obtain c where c: "run_statement post svs cd = map_option Some (read_all svs 0 c)" "currentResults c = Some first" "sc_valid c" "sc_calls c = response_calls first 0"
    using run_statement_post[of cd post first svs] assms by auto
  then show ?thesis using read_all_fair[OF assms(4,5) c(2) assms(3) c(3), where i = 0] by auto
qed

lemma run_statement_blocked:
  assumes "cd_sessionParameters cd = None" "post (client_headers cd []) (cd_query cd) = Success first" "pages sv first ps"
    "\<And>i. flaky sv (svs i)" "p \<in> set (first # ps)" "re_nextUri p = Some u" "u \<noteq> []" "\<And>i. \<exists>a b. svs i u = Failure a b"
  shows "run_statement post svs cd = None"
proof -
  obtain c where c: "run_statement post svs cd = map_option Some (read_all svs 0 c)" "currentResults c = Some first" "sc_valid c"
    using run_statement_post[of cd post first svs] assms by auto
  then show ?thesis using read_all_blocked[OF assms(4,6-8) c(3,2) assms(3,5), where i = 0] by simp
qed

definition menus :: "form \<Rightarrow> string list \<times> (string \<times> bool) list \<times> string option \<times> string option" where
  "menus f = (fm_catalogs f, fm_schemas f, fm_catalog f, fm_schema f)"

lemma restore_params_menus: "pred_option (\<lambda>g. menus g = menus f) (restore_params html stored f)"
proof -
  have "menus (foldl (\<lambda>g (name, v). addSessionParameterToForm html name (js_text v) g) f nvs) = menus f" for nvs
    by (induction nvs arbitrary: f) (auto simp: addSessionParameterToForm_def Let_def menus_def)
  then show ?thesis by (cases "json_parse stored") (simp_all add: restore_params_def)
qed

lemma restore_params_throws: "restore_params html stored f = None \<longleftrightarrow> stored \<noteq> [] \<and> json_parse stored = None"
  by (cases "json_parse stored") (simp_all add: restore_params_def)

lemma restore_data_menus: "pred_option (\<lambda>g. menus g = menus f) (restore_data html stored f)"
proof (cases "json_parse stored")
  case (Some v)
  let ?f = "f\<lparr> fm_query := val_of (str_field ''query'' v), fm_userName := val_of (str_field ''userName'' v) \<rparr>"
  show ?thesis using restore_params_menus[of ?f html "val_of (str_field ''sessionParameters'' v)"] Some by (simp add: restore_data_def menus_def)
qed (simp add: restore_data_def)

lemma restore_data_throws: "restore_data html stored f = None \<longleftrightarrow> restore_data html stored g = None"
  by (cases "json_parse stored") (simp_all add: restore_data_def restore_params_throws)

lemma restored_menus: "restore_form html storedData storedName f = Some g \<Longrightarrow> menus g = menus f"
  using restore_data_menus[of f html "val_of storedData"]
  by (cases "restore_data html (val_of storedData) f") (auto simp: restore_form_def menus_def)

lemma restore_form_throws: "restore_form html storedData storedName f = None \<longleftrightarrow> restore_form html storedData storedName g = None"
  using restore_data_throws[of html "val_of storedData" f g]
  by (cases "restore_data html (val_of storedData) f"; cases "restore_data html (val_of storedData) g") (simp_all add: restore_form_def)

lemma populateCatalogs_pages:
  assumes "post (client_headers catalogs_statement []) ''show catalogs'' = Success first" "pages sv first ps" "\<And>i. flaky sv (svs i)" "fair sv svs"
    and rows: "cats = map option_text (concat (map page_rows (first # ps)))"
  shows "\<exists>s'. populateCatalogs post svs (s, form_init) = Some (Some (s', form_init\<lparr> fm_catalogs := cats, fm_catalog := first_option cats \<rparr>))"
proof -
  have "cd_sessionParameters catalogs_statement = None" "cd_query catalogs_statement = ''show catalogs''" by (simp_all add: catalogs_statement_def)
  then obtain c where "run_statement post svs catalogs_statement = Some (Some c)" "map option_text (rows_of (sc_calls c)) = cats"
    using run_statement_fair[of catalogs_statement post first sv ps svs] assms unfolding rows by auto
  then show ?thesis by (simp add: populateCatalogs_def form_init_def)
qed

lemma populateSchemas_pages:
  assumes "post (client_headers (schemas_statement c) []) ''show schemas'' = Success first" "pages sv first ps" "\<And>i. flaky sv (svs i)" "fair sv svs"
    and rows: "schemas = map option_text (concat (map page_rows (first # ps)))"
  shows "\<exists>s'. populateSchemas post svs c (s, f) =
    Some (Some (s', f\<lparr> fm_schemas := map (\<lambda>t. (t, t = ''default'')) schemas,
           fm_schema := (if ''default'' \<in> set schemas then Some ''default'' else first_option schemas) \<rparr>))"
proof -
  have "cd_sessionParameters (schemas_statement c) = None" "cd_query (schemas_statement c) = ''show schemas''" by (simp_all add: schemas_statement_def)
  then obtain cl where cl: "run_statement post svs (schemas_statement c) = Some (Some cl)" and "map option_text (rows_of (sc_calls cl)) = schemas"
    using run_statement_fair[of "schemas_statement c" post first sv ps svs] assms unfolding rows by auto
  then show ?thesis by (simp only: populateSchemas_def split_conv cl option.map Let_def) simp
qed

text \<open>
  C22. Loading the page, with a server that holds finitely many pages for each of the two statements and answers
  a request for a page with the page or with a failure.  When no address fails for ever, both loops end, and the
  page throws only where the stored form cannot be read.  The menus get one option for every row of every page,
  once and in order, however many requests failed on the way.  The first catalog is chosen and in it the schema
  \<open>default\<close>, or the first where there is none, whatever form is put back: also one that was submitted with
  another catalog.  When the address of a page, of the catalogs or of the schemas, fails at every request, the
  loop repeats the request for ever and the page hangs.
\<close>

theorem document_ready_menus:
  assumes first: "post (client_headers catalogs_statement []) ''show catalogs'' = Success first" "pages sv first ps"
    and cats: "cats = map option_text (concat (map page_rows (first # ps)))"
    and second: "post (client_headers (schemas_statement (first_option cats)) []) ''show schemas'' = Success second" "pages sv second qs"
    and schemas: "schemas = map option_text (concat (map page_rows (second # qs)))"
    and flaky: "\<And>i. flaky sv (svs i)" "\<And>i. flaky sv (svt i)"
  shows "(fair sv svs \<and> fair sv svt \<longrightarrow>
      (\<exists>r. document_ready post svs svt html storedData storedName (s, form_init) = Some r
       \<and> (r = None \<longleftrightarrow> restore_form html storedData storedName form_init = None)
       \<and> (\<forall>s' g. r = Some (s', g) \<longrightarrow> fm_catalogs g = cats \<and> fm_catalog g = first_option cats \<and> map fst (fm_schemas g) = schemas
           \<and> fm_schema g = (if ''default'' \<in> set schemas then Some ''default'' else first_option schemas))))
    \<and> (re_nextUri p = Some u \<and> u \<noteq> []
       \<and> (p \<in> set (first # ps) \<and> (\<forall>i. \<exists>a b. svs i u = Failure a b)
          \<or> fair sv svs \<and> p \<in> set (second # qs) \<and> (\<forall>i. \<exists>a b. svt i u = Failure a b))
       \<longrightarrow> document_ready post svs svt html storedData storedName (s, form_init) = None)"
proof -
  let ?f1 = "form_init\<lparr> fm_catalogs := cats, fm_catalog := first_option cats \<rparr>"
  let ?f2 = "?f1\<lparr> fm_schemas := map (\<lambda>t. (t, t = ''default'')) schemas,
    fm_schema := (if ''default'' \<in> set schemas then Some ''default'' else first_option schemas) \<rparr>"
  have 1: "\<exists>s1. populateCatalogs post svs (s, form_init) = Some (Some (s1, ?f1))" if "fair sv svs"
    using populateCatalogs_pages[where post = post, OF first flaky(1) that cats] .
  have 2: "\<exists>s2. populateSchemas post svt (first_option cats) (s1, ?f1) = Some (Some (s2, ?f2))" if "fair sv svt" for s1
    using populateSchemas_pages[where post = post, OF second flaky(2) that schemas] .
  have q: "cd_sessionParameters catalogs_statement = None" "cd_query catalogs_statement = ''show catalogs''"
    "cd_sessionParameters (schemas_statement c) = None" "cd_query (schemas_statement c) = ''show schemas''" for c
    by (simp_all add: catalogs_statement_def schemas_statement_def)
  have ends: "\<exists>r. document_ready post svs svt html storedData storedName (s, form_init) = Some r
       \<and> (r = None \<longleftrightarrow> restore_form html storedData storedName form_init = None)
       \<and> (\<forall>s' g. r = Some (s', g) \<longrightarrow> fm_catalogs g = cats \<and> fm_catalog g = first_option cats \<and> map fst (fm_schemas g) = schemas
           \<and> fm_schema g = (if ''default'' \<in> set schemas then Some ''default'' else first_option schemas))"
    if fair: "fair sv svs" "fair sv svt"
  proof -
    obtain s1 where s1: "populateCatalogs post svs (s, form_init) = Some (Some (s1, ?f1))" using 1[OF fair(1)] by blast
    obtain s2 where s2: "populateSchemas post svt (first_option cats) (s1, ?f1) = Some (Some (s2, ?f2))" using 2[OF fair(2)] by blast
    have "document_ready post svs svt html storedData storedName (s, form_init) = Some (map_option (Pair s2) (restore_form html storedData storedName ?f2))"
      by (simp add: document_ready_def s1 s2)
    then show ?thesis
      using restore_form_throws[of html storedData storedName ?f2 form_init] restored_menus[of html storedData storedName ?f2]
      by (auto simp: comp_def menus_def)
  qed
  have catalogs: "document_ready post svs svt html storedData storedName (s, form_init) = None"
    if "re_nextUri p = Some u" "u \<noteq> []" "p \<in> set (first # ps)" "\<forall>i. \<exists>a b. svs i u = Failure a b"
  proof -
    have "run_statement post svs catalogs_statement = None"
      using that first flaky(1) by (intro run_statement_blocked[of _ _ first sv ps _ p u]) (simp_all add: q)
    then show ?thesis by (simp add: document_ready_def populateCatalogs_def)
  qed
  have "document_ready post svs svt html storedData storedName (s, form_init) = None"
    if p: "re_nextUri p = Some u" "u \<noteq> []" "fair sv svs" "p \<in> set (second # qs)" "\<forall>i. \<exists>a b. svt i u = Failure a b"
  proof -
    obtain s1 where s1: "populateCatalogs post svs (s, form_init) = Some (Some (s1, ?f1))" using 1[OF p(3)] by blast
    have "run_statement post svt (schemas_statement (first_option cats)) = None"
      using p second flaky(2) by (intro run_statement_blocked[of _ _ second sv qs _ p u]) (simp_all add: q)
    then show ?thesis by (simp add: document_ready_def s1 populateSchemas_def)
  qed
  with ends catalogs show ?thesis by blast
qed

text \<open>A server with two catalogs on two pages, whose second page fails at the first request, and one where it always fails.\<close>

definition example_post :: "string option \<Rightarrow> post_server" where
  "example_post nextUri hs query =
    (if query = ''show catalogs'' then Success (data_page None (Some [[JsonStr ''hive'']]) nextUri)
     else Success (data_page None (Some [[JsonStr ''a''], [JsonStr ''default'']]) None))"

definition example_pages :: data_server where
  "example_pages u = Success (data_page None (Some [[JsonStr ''tpch'']]) None)"

definition example_gets :: "nat \<Rightarrow> get_server" where
  "example_gets n i = (if i < n then (\<lambda>_. Failure [] ''timeout'') else example_pages)"

lemma example_gets_flaky: "flaky example_pages (example_gets n i)" "fair example_pages (example_gets n)"
proof -
  show "flaky example_pages (example_gets n i)" by (simp add: flaky_def example_gets_def)
  have "example_gets n (max i n) u = example_pages u" for i u by (simp add: example_gets_def)
  then show "fair example_pages (example_gets n)" unfolding fair_def using max.cobounded1 by blast
qed

theorem document_ready_menus_witness:
  "(\<exists>s' g. document_ready (example_post (Some ''/1'')) (example_gets 1) (example_gets 0) id None None (connector_init, form_init) = Some (Some (s', g))
      \<and> fm_catalogs g = [''hive'', ''tpch''] \<and> fm_catalog g = Some ''hive'' \<and> map fst (fm_schemas g) = [''a'', ''default''] \<and> fm_schema g = Some ''default'')
   \<and> document_ready (example_post (Some ''/1'')) (\<lambda>_ _. Failure [] ''timeout'') (example_gets 0) id None None (connector_init, form_init) = None"
proof -
  let ?p = "data_page None (Some [[JsonStr ''hive'']]) (Some ''/1'')" and ?q = "data_page None (Some [[JsonStr ''tpch'']]) None"
  let ?r = "data_page None (Some [[JsonStr ''a''], [JsonStr ''default'']]) None"
  have f: "example_post (Some ''/1'') (client_headers catalogs_statement []) ''show catalogs'' = Success ?p"
    "example_post (Some ''/1'') (client_headers (schemas_statement c) []) ''show schemas'' = Success ?r" for c
    by (simp_all add: example_post_def)
  have m: "[''hive'', ''tpch''] = map option_text (concat (map page_rows [?p, ?q]))" "[''a'', ''default''] = map option_text (concat (map page_rows [?r]))"
    by code_simp+
  have p: "pages example_pages ?p [?q]" "pages example_pages ?r []" by (simp_all add: data_page_def example_pages_def)
  have n: "restore_form id None None form_init \<noteq> None" by (simp add: restore_form_def restore_data_def val_of_def)
  have fails: "flaky example_pages (\<lambda>_. Failure [] ''timeout'')" by (simp add: flaky_def)
  note t = document_ready_menus[OF f(1) p(1) m(1) f(2) p(2) m(2), where html = id and storedData = None and storedName = None and s = connector_init]
  have fairs: "fair example_pages (example_gets 1) \<and> fair example_pages (example_gets 0)" using example_gets_flaky(2) by blast
  obtain r where r: "document_ready (example_post (Some ''/1'')) (example_gets 1) (example_gets 0) id None None (connector_init, form_init) = Some r"
    "r = None \<longleftrightarrow> restore_form id None None form_init = None"
    "\<forall>s' g. r = Some (s', g) \<longrightarrow> fm_catalogs g = [''hive'', ''tpch''] \<and> fm_catalog g = first_option [''hive'', ''tpch'']
      \<and> map fst (fm_schemas g) = [''a'', ''default''] \<and> fm_schema g = (if ''default'' \<in> set [''a'', ''default''] then Some ''default'' else first_option [''a'', ''default''])"
    using mp[OF conjunct1[OF t[OF example_gets_flaky(1)[of 1] example_gets_flaky(1)[of 0]]] fairs] by (elim exE conjE)
  obtain s' g where g: "r = Some (s', g)" using r(2) n by (cases r) auto
  have "document_ready (example_post (Some ''/1'')) (\<lambda>_ _. Failure [] ''timeout'') (example_gets 0) id None None (connector_init, form_init) = None"
    using t[OF fails example_gets_flaky(1)[of 0], where p = ?p and u = "''/1''", THEN conjunct2] by (simp add: data_page_def)
  moreover have "fm_catalogs g = [''hive'', ''tpch''] \<and> fm_catalog g = Some ''hive'' \<and> map fst (fm_schemas g) = [''a'', ''default''] \<and> fm_schema g = Some ''default''"
    using r(3)[rule_format, OF g] by (simp add: first_option_def)
  ultimately show ?thesis using r(1)[unfolded g] by (intro conjI exI[of _ s'] exI[of _ g]) simp_all
qed

subsection \<open>The stored form\<close>

lemma sessionParameters_distinct:
  "distinct (map pr_name (fm_params f)) \<Longrightarrow> sessionParameters f = map (\<lambda>r. (pr_name r, JsonStr (pr_value r))) (fm_params f)"
proof -
  have new: "k \<notin> fst ` set m \<Longrightarrow> map_set k v m = m @ [(k, v)]" for k :: string and v :: json and m by (induction m) auto
  have "distinct (map pr_name rs) \<Longrightarrow>
      foldl (\<lambda>m r. map_set (pr_name r) (JsonStr (pr_value r)) (map_set (pr_name r) JsonNull m)) [] rs = map (\<lambda>r. (pr_name r, JsonStr (pr_value r))) rs" for rs
  proof (induction rs rule: rev_induct)
    case (snoc r rs)
    have "map_set k w (m @ [(k, v)]) = m @ [(k, w)]" if "k \<notin> fst ` set m" for k :: string and v w :: json and m using that by (induction m) auto
    with snoc show ?case by (simp add: new image_image)
  qed simp
  then show "distinct (map pr_name (fm_params f)) \<Longrightarrow> ?thesis" by (simp add: sessionParameters_def)
qed

text \<open>Names a session parameter can have: no two alike, none of them a number or the name JavaScript reads the prototype of an object by.\<close>

definition proper_params :: "form \<Rightarrow> bool" where
  "proper_params f \<longleftrightarrow> distinct (map pr_name (fm_params f))
    \<and> list_all (\<lambda>r. \<not> is_array_index (pr_name r) \<and> pr_name r \<noteq> ''__proto__'') (fm_params f)"

lemma stored_params:
  assumes "proper_params f"
  shows "json_parse (json_print (JsonObj (sessionParameters f))) = Some (JsonObj (sessionParameters f))"
    and "for_in (JsonObj (sessionParameters f)) = map (\<lambda>r. (pr_name r, JsonStr (pr_value r))) (fm_params f)"
proof -
  have d: "sessionParameters f = map (\<lambda>r. (pr_name r, JsonStr (pr_value r))) (fm_params f)"
    using assms sessionParameters_distinct by (simp add: proper_params_def)
  show "json_parse (json_print (JsonObj (sessionParameters f))) = Some (JsonObj (sessionParameters f))"
    using assms by (intro json_parse_print) (simp add: d proper_params_def list_all_iff comp_def)
  have "own_keys (sessionParameters f) = map fst (sessionParameters f)"
    using assms by (intro own_keys_no_index) (auto simp: d proper_params_def list_all_iff)
  moreover have "map_get (sessionParameters f) (pr_name r) = Some (JsonStr (pr_value r))" if "r \<in> set (fm_params f)" for r
    using that assms by (auto simp: d proper_params_def comp_def)
  ultimately show "for_in (JsonObj (sessionParameters f)) = map (\<lambda>r. (pr_name r, JsonStr (pr_value r))) (fm_params f)"
    by (auto simp: d comp_def)
qed

lemma stored_form: "json_parse (json_print (connectionData f)) = Some (connectionData f)"
proof -
  have i: "list_all (\<lambda>k. \<not> is_array_index k) [''catalog'', ''schema'', ''query'', ''userName'', ''sessionParameters'']" by code_simp
  show ?thesis using i by (intro json_parse_print) (simp add: connectionData_def json_option_def split: option.split)
qed

lemma restored_params:
  "(\<And>n v. (n, v) \<in> set nvs \<Longrightarrow> html n = n \<and> html (js_text v) = js_text v) \<Longrightarrow>
   map (\<lambda>r. (pr_name r, pr_value r)) (fm_params (foldl (\<lambda>g (name, v). addSessionParameterToForm html name (js_text v) g) g nvs))
     = map (\<lambda>r. (pr_name r, pr_value r)) (fm_params g) @ map (\<lambda>(n, v). (n, js_text v)) nvs"
proof (induction nvs arbitrary: g)
  case (Cons nv nvs)
  obtain n v where nv: "nv = (n, v)" by (cases nv)
  have "map (\<lambda>r. (pr_name r, pr_value r)) (attach_handler i rs) = map (\<lambda>r. (pr_name r, pr_value r)) rs" for i rs
    by (induction rs) simp_all
  then have one: "map (\<lambda>r. (pr_name r, pr_value r)) (fm_params (addSessionParameterToForm html n (js_text v) g))
      = map (\<lambda>r. (pr_name r, pr_value r)) (fm_params g) @ [(n, js_text v)]"
    using Cons.prems[of n v] nv by (simp add: addSessionParameterToForm_def Let_def)
  have "html n' = n' \<and> html (js_text v') = js_text v'" if "(n', v') \<in> set nvs" for n' v' using that Cons.prems[of n' v'] by simp
  from Cons.IH[OF this, of "addSessionParameterToForm html n (js_text v) g"] show ?case by (simp add: nv one)
qed simp

lemma restored_frame:
  "fm_query (foldl (\<lambda>g (name, v). addSessionParameterToForm html name (js_text v) g) g nvs) = fm_query g"
  "fm_userName (foldl (\<lambda>g (name, v). addSessionParameterToForm html name (js_text v) g) g nvs) = fm_userName g"
  by (induction nvs arbitrary: g) (auto simp: addSessionParameterToForm_def Let_def)

text \<open>
  C13. What survives of a form that is stored.  A form that is filled in, with session parameters whose names are
  all different, none of them a number or \<open>__proto__\<close>, is submitted.  From what is stored then, \<open>getColumnHeaders\<close>
  makes a client with the query, the user, the catalog and the schema of the form and one header value
  \<open>name=value\<close> for every session parameter, in order.  When the page is loaded again, it puts the query, the user,
  the name of the data source and the session parameters back, as long as the browser reads their texts
  unchanged from the attribute \<open>value\<close>, into which they are put without quoting.  The catalog and the schema are
  not put back: the menus and what is chosen in them stay as the page \<open>f0\<close> had them.
\<close>

theorem form_roundtrip:
  assumes "filled_in f" "proper_params f" "inputForm_submit f s = (s', stored, name, ok)"
    and "\<And>r. r \<in> set (fm_params f) \<Longrightarrow> html (pr_name r) = pr_name r \<and> html (pr_value r) = pr_value r"
  shows "ok \<and> (\<exists>cd params. read_connection stored = Some cd \<and> session_parameters cd = Some params
      \<and> params = map (\<lambda>r. pr_name r @ ''='' @ pr_value r) (fm_params f) \<and> cd_query cd = fm_query f
      \<and> client_headers cd params =
         [(''X-Presto-User'', HStr (fm_userName f)), (''X-Presto-Source'', HStr ''Tableau Web Connector''), (''X-Presto-Session'', HList params),
          (''X-Presto-Catalog'', HStr (the (fm_catalog f))), (''X-Presto-Schema'', HStr (the (fm_schema f)))])
    \<and> (\<exists>g. restore_form html (Some stored) (Some name) f0 = Some g \<and> fm_query g = fm_query f \<and> fm_userName g = fm_userName f
      \<and> fm_dataSourceName g = fm_dataSourceName f \<and> menus g = menus f0
      \<and> map (\<lambda>r. (pr_name r, pr_value r)) (fm_params g) = map (\<lambda>r. (pr_name r, pr_value r)) (fm_params f0 @ fm_params f))"
proof -
  have s: "stored = json_print (connectionData f)" "name = fm_dataSourceName f" "ok" using assms(1,3) by (auto simp: inputForm_submit_def)
  note f = assms(1)[unfolded filled_in_def] and p = stored_params[OF assms(2)]
  have flds: "str_field ''query'' (connectionData f) = Some (fm_query f)" "str_field ''userName'' (connectionData f) = Some (fm_userName f)"
    "header_field ''catalog'' (connectionData f) = fm_catalog f" "header_field ''schema'' (connectionData f) = fm_schema f"
    "str_field ''sessionParameters'' (connectionData f) = Some (json_print (JsonObj (sessionParameters f)))"
    using f by (auto simp: str_field_def header_field_def connectionData_def json_option_def split: option.split)
  have nonempty: "json_print (JsonObj m) \<noteq> []" for m by (simp add: Let_def)
  have nn: "connectionData f \<noteq> JsonNull" "json_print (connectionData f) \<noteq> []" by (simp_all add: connectionData_def Let_def)
  then have "\<exists>cd params. read_connection stored = Some cd \<and> session_parameters cd = Some params
      \<and> params = map (\<lambda>r. pr_name r @ ''='' @ pr_value r) (fm_params f) \<and> cd_query cd = fm_query f
      \<and> client_headers cd params =
         [(''X-Presto-User'', HStr (fm_userName f)), (''X-Presto-Source'', HStr ''Tableau Web Connector''), (''X-Presto-Session'', HList params),
          (''X-Presto-Catalog'', HStr (the (fm_catalog f))), (''X-Presto-Schema'', HStr (the (fm_schema f)))]"
    using f unfolding s(1) read_connection_def stored_form by (auto simp: flds session_parameters_def p client_headers_def comp_def simp del: json_print.simps for_in.simps)
  moreover have "map (\<lambda>r. (pr_name r, pr_value r)) (fm_params (foldl (\<lambda>g (name, v). addSessionParameterToForm html name (js_text v) g) g
      (map (\<lambda>r. (pr_name r, JsonStr (pr_value r))) (fm_params f)))) = map (\<lambda>r. (pr_name r, pr_value r)) (fm_params g) @ map (\<lambda>r. (pr_name r, pr_value r)) (fm_params f)" for g
    by (subst restored_params) (auto simp: assms(4) comp_def)
  then have "\<exists>g. restore_form html (Some stored) (Some name) f0 = Some g \<and> fm_query g = fm_query f \<and> fm_userName g = fm_userName f
      \<and> fm_dataSourceName g = fm_dataSourceName f
      \<and> map (\<lambda>r. (pr_name r, pr_value r)) (fm_params g) = map (\<lambda>r. (pr_name r, pr_value r)) (fm_params f0 @ fm_params f)"
    using f nn unfolding s(1,2) restore_form_def restore_data_def restore_params_def
    by (simp add: val_of_def stored_form flds p nonempty restored_frame del: json_print.simps for_in.simps)
  ultimately show ?thesis using s(3) restored_menus[of html "Some stored" "Some name" f0] by blast
qed

definition example_form :: form where
  "example_form = form_init
    \<lparr> fm_catalog := Some ''hive'', fm_schema := Some ''default'', fm_query := ''SELECT x'', fm_userName := ''ada'', fm_dataSourceName := ''d'',
      fm_params := [\<lparr> pr_id = 0, pr_name = ''a'', pr_value = ''1'', pr_handlers = 1 \<rparr>, \<lparr> pr_id = 1, pr_name = ''b'', pr_value = ''x y'', pr_handlers = 1 \<rparr>],
      sessionParameterCount := 2 \<rparr>"

theorem form_roundtrip_witness:
  "\<exists>cd g. read_connection (json_print (connectionData example_form)) = Some cd \<and> session_parameters cd = Some [''a=1'', ''b=x y'']
    \<and> restore_form id (Some (json_print (connectionData example_form))) (Some ''d'') form_init = Some g \<and> fm_query g = ''SELECT x''
    \<and> fm_catalog g = None \<and> map (\<lambda>r. (pr_name r, pr_value r)) (fm_params g) = [(''a'', ''1''), (''b'', ''x y'')]"
proof -
  have f: "filled_in example_form" "proper_params example_form" by code_simp+
  have s: "inputForm_submit example_form connector_init =
      (connector_init\<lparr> statementClient := None, headersPushed := False \<rparr>, json_print (connectionData example_form), ''d'', True)"
    using f(1) by (simp add: inputForm_submit_def example_form_def)
  have m: "map (\<lambda>r. pr_name r @ ''='' @ pr_value r) (fm_params example_form) = [''a=1'', ''b=x y'']"
    "map (\<lambda>r. (pr_name r, pr_value r)) (fm_params example_form) = [(''a'', ''1''), (''b'', ''x y'')]"
    by (simp_all add: example_form_def)
  have e: "fm_params form_init @ fm_params example_form = fm_params example_form" "fm_query example_form = ''SELECT x''" "fst (snd (snd (menus form_init))) = None"
    by (simp_all add: form_init_def example_form_def menus_def)
  have c: "fm_catalog g = fst (snd (snd (menus g)))" for g by (simp add: menus_def)
  note t = form_roundtrip[OF f s, where html = id and ?f0.0 = form_init]
  obtain cd where cd: "read_connection (json_print (connectionData example_form)) = Some cd" "session_parameters cd = Some [''a=1'', ''b=x y'']"
    using t unfolding m by auto
  obtain g where "restore_form id (Some (json_print (connectionData example_form))) (Some ''d'') form_init = Some g" "fm_query g = fm_query example_form"
    "menus g = menus form_init" "map (\<lambda>r. (pr_name r, pr_value r)) (fm_params g) = map (\<lambda>r. (pr_name r, pr_value r)) (fm_params form_init @ fm_params example_form)"
    using t by auto
  then show ?thesis using cd unfolding e(1,2) m by (intro exI[of _ cd] exI[of _ g]) (simp add: c e(3))
qed

subsection \<open>The numbers of the session parameters\<close>

text \<open>
  While no row is removed, the rows are numbered from zero and each has its handler.  Removing a row other
  than the last makes the next row get a number that is in use: its handler goes to the older row, and
  its own link does nothing.
\<close>

definition numbered_rows :: "form \<Rightarrow> bool" where
  "numbered_rows f \<longleftrightarrow> map pr_id (fm_params f) = map int [0..<length (fm_params f)] \<and> sessionParameterCount f = int (length (fm_params f))
    \<and> list_all (\<lambda>r. pr_handlers r = 1) (fm_params f)"

lemma attach_last: "i \<notin> pr_id ` set rs \<Longrightarrow> pr_id r = i \<Longrightarrow> attach_handler i (rs @ [r]) = rs @ [r\<lparr> pr_handlers := Suc (pr_handlers r) \<rparr>]"
  by (induction rs) auto

lemma attach_earlier: "i \<in> pr_id ` set rs \<Longrightarrow> \<exists>rs'. attach_handler i (rs @ [r]) = rs' @ [r] \<and> length rs' = length rs"
proof (induction rs)
  case (Cons r' rs)
  show ?case
  proof (cases "pr_id r' = i")
    case False
    then obtain rs' where "attach_handler i (rs @ [r]) = rs' @ [r]" "length rs' = length rs" using Cons by auto
    then show ?thesis using False by (intro exI[of _ "r' # rs'"]) simp
  qed (intro exI[of _ "r'\<lparr> pr_handlers := Suc (pr_handlers r') \<rparr> # rs"], simp)
qed simp

lemma numbered_rows_add: "numbered_rows f \<Longrightarrow> numbered_rows (addSessionParameterToForm html name v f)"
proof -
  assume f: "numbered_rows f"
  then have "set (map pr_id (fm_params f)) = int ` {0..<length (fm_params f)}" by (simp add: numbered_rows_def)
  then have "sessionParameterCount f \<notin> pr_id ` set (fm_params f)" using f by (auto simp: numbered_rows_def)
  then show ?thesis using f by (simp add: addSessionParameterToForm_def numbered_rows_def Let_def attach_last)
qed

theorem removed_number_reused:
  assumes "numbered_rows f" "Suc k < length (fm_params f)" and g_def: "g = addSessionParameterToForm html name v (removeSessionProp_click k f)"
  shows "length (fm_params g) = length (fm_params f) \<and> removeSessionProp_click (length (fm_params g) - 1) g = g"
proof -
  let ?rs = "take k (fm_params f) @ drop (Suc k) (fm_params f)" and ?n = "length (fm_params f)"
  have h: "pr_handlers (fm_params f ! k) = 1" using assms(1,2) by (auto simp: numbered_rows_def list_all_length)
  then have r: "removeSessionProp_click k f = f\<lparr> fm_params := ?rs, sessionParameterCount := int ?n - 1 \<rparr>"
    using assms(1,2) by (simp add: removeSessionProp_click_def numbered_rows_def)
  have "map pr_id (fm_params f) ! (?n - 1) = int (?n - 1)" using assms(1,2) by (simp add: numbered_rows_def)
  then have "pr_id (last (fm_params f)) = int ?n - 1" using assms(2) by (subst last_conv_nth) auto
  moreover have "last (fm_params f) \<in> set ?rs" using assms(2) last_drop[of "Suc k" "fm_params f"] last_in_set[of "drop (Suc k) (fm_params f)"] by simp
  ultimately have "int ?n - 1 \<in> pr_id ` set ?rs" by force
  from attach_earlier[OF this, of "\<lparr> pr_id = int ?n - 1, pr_name = html name, pr_value = html v, pr_handlers = 0 \<rparr>"] obtain rs' where
    "attach_handler (int ?n - 1) (?rs @ [\<lparr> pr_id = int ?n - 1, pr_name = html name, pr_value = html v, pr_handlers = 0 \<rparr>])
      = rs' @ [\<lparr> pr_id = int ?n - 1, pr_name = html name, pr_value = html v, pr_handlers = 0 \<rparr>]" "length rs' = length ?rs" by blast
  then have g: "fm_params g = rs' @ [\<lparr> pr_id = int ?n - 1, pr_name = html name, pr_value = html v, pr_handlers = 0 \<rparr>]" "length rs' = ?n - 1"
    using assms(2) by (simp_all add: g_def addSessionParameterToForm_def r Let_def)
  from g(1) have "pr_handlers (fm_params g ! length rs') = 0" "length (fm_params g) = Suc (length rs')" by simp_all
  moreover have "?n = Suc (length rs')" using g(2) assms(2) by simp
  ultimately show ?thesis unfolding removeSessionProp_click_def by simp
qed

end
