(* ===== verification/Spec2Isabelle.thy ===== *)
theory Spec2Isabelle
  imports Navigation QueryListView ConnectorForm
begin

text \<open>
  \<^bold>\<open>Verification of the Presto web interface.\<close>

  The program is the web interface of the Presto server, below
  \<^verbatim>\<open>src/presto-main/src/main/resources/webapp\<close>: React components that poll the server and render what
  it answers (\<^verbatim>\<open>src/components/*.jsx\<close>), the functions they share (\<^verbatim>\<open>src/utils.js\<close>), one entry point per
  page (\<^verbatim>\<open>src/index.jsx\<close>, \<^verbatim>\<open>query.jsx\<close>, \<^verbatim>\<open>plan.jsx\<close>, \<^verbatim>\<open>embedded_plan.jsx\<close>, \<^verbatim>\<open>stage.jsx\<close>, \<^verbatim>\<open>worker.jsx\<close>), the
  page that draws the tasks of a query on a time line (\<^verbatim>\<open>timeline.html\<close>), and the Tableau connector: its page
  (\<^verbatim>\<open>tableau/presto-connector.html\<close>) and the client it runs statements with (\<^verbatim>\<open>tableau/presto-client.js\<close>).

  \<^bold>\<open>How the code is modelled.\<close>  A component is a record of its state and its instance variables.  What can
  happen to it is a datatype of events: the answer or the failure of a request, a timeout, a click.  A
  function such as \<open>ql_exec\<close> runs the handler of one event, \<open>exec_all\<close> runs a list of them, and a theorem on a
  run holds for every list of events.  An exception is \<open>None\<close> of type \<open>'a throws\<close>; where a loop may also not
  end, \<open>None\<close> is that and \<open>Some None\<close> the exception.  A \<open>render\<close> method returns the tree of elements with the
  handlers and the properties of child components in it.  Numbers are IEEE doubles with rounding, not ideal
  numbers.  A field the server may leave out is an option.

  \<^bold>\<open>Exceptions while rendering.\<close>  React takes a component off the page when it throws while rendering, and
  \<open>setState\<close> then leaves as an exception.  Where the answers of the server can cause this, in \<open>LivePlan\<close>,
  \<open>StageDetail\<close> and \<open>WorkerThreadList\<close>, the state says whether the component is still there (\<open>lp_mounted\<close>,
  \<open>sg_mounted\<close>, \<open>wt_mounted\<close>), \<open>setState\<close> renders, and the handlers go on or end as the code does.  For the
  query list, the query page and the worker page \<open>query_list_run_renders\<close>, \<open>query_detail_run_renders\<close> and
  \<open>worker_status_run\<close> say along which runs rendering does not throw.

  \<^bold>\<open>The language.\<close>
  \<^item> \<open>Prelude\<close>: lists, options, sequencing of expressions that may throw.
  \<^item> \<open>JsNumber\<close>: doubles as rationals with \<open>rnd\<close>, arithmetic and comparison with \<open>NaN\<close> and the infinities,
    and the bounds on rounding the other theories use.
  \<^item> \<open>JsString\<close>, \<open>JsArray\<close>, \<open>JsDate\<close>, \<open>JsJson\<close>: the methods of strings, arrays, maps and dates that the
    program calls, number printing and parsing, \<open>JSON.parse\<close> and \<open>JSON.stringify\<close>.  The locale \<open>comparator\<close> states what a sort
    gives for a comparison function; it is interpreted for the queries (\<open>by_key\<close>), the tasks (\<open>by_task\<close>) and the
    operators (\<open>by_operator\<close>).
  \<^item> \<open>Vdom\<close>: React elements.
  \<^item> \<open>Polling\<close>: timers and the refresh loop.  The locale \<open>polled\<close> states the protocol of a polling component.
    Under it a run has at most one request or armed timeout, goes on as long as the component polls, and
    refines the abstract machine \<open>poll_step\<close>.  All seven polling components are interpretations of it.

  \<^bold>\<open>The components.\<close>
  \<^item> \<open>Utils\<close>, \<open>Quantities\<close> (\<^verbatim>\<open>utils.js\<close>): display states, histories, formatters and parsers; the printed unit and
    number, what is read back, and that the parsers return null or a number.
  \<^item> \<open>Charts\<close>: the sparklines the pages ask for, their properties as merged by the program, and their labels.
  \<^item> \<open>QueryListItem\<close>, \<open>QueryList\<close>, \<open>QueryListLaws\<close>, \<open>QueryListView\<close> (\<^verbatim>\<open>QueryList.jsx\<close>): sorting, filters, the merge
    of an answer into the list shown, the limit, the two timers, and rendering along every run.
  \<^item> \<open>ClusterHUD\<close>, \<open>PageTitle\<close>, \<open>WorkerStatus\<close>, \<open>WorkerThreadList\<close> (the components of these names): every history
    as a function of the answers received, the connection state, the grouping of threads, and what the thread list
    shows and offers after any run, with the runs that take it off the page.
  \<^item> \<open>QueryHeader\<close> (\<^verbatim>\<open>QueryHeader.jsx\<close>): the progress bar, the tabs, and the requests of the buttons.
  \<^item> \<open>QueryInfo\<close>: the record of a query with its stages and plans, and the calls that build a graph.
  \<^item> \<open>OperatorGraph\<close>, \<open>StageDetail\<close> (\<^verbatim>\<open>StageDetail.jsx\<close>): the graph of the operators, compared with a reference
    definition and described as one chain per pipeline, the operator a click selects, and the page with its stage menu: when it goes on asking, when it
    has stopped, and which answers end it.
  \<^item> \<open>LivePlan\<close>, \<open>PlanLayout\<close> (\<^verbatim>\<open>LivePlan.jsx\<close>): the nodes and edges of the plan of a query, the refresh loop, which
    goes on after an exception, all drawings of a run, and the size and scale of the canvas.
  \<^item> \<open>TaskList\<close>, \<open>StageList\<close>, \<open>StackTrace\<close>, \<open>QueryDetail\<close>, \<open>QueryDetailView\<close> (\<^verbatim>\<open>QueryDetail.jsx\<close>): the order of
    the tasks, the histograms, the stack traces, the page with its rates and frozen views, and its rendering.
  \<^item> \<open>StatementClient\<close> (\<^verbatim>\<open>presto-client.js\<close>): the calls of the callbacks against the pages the server holds.
  \<^item> \<open>Connector\<close>, \<open>ConnectorForm\<close> (\<^verbatim>\<open>presto-connector.html\<close>): the column headers and the rows handed to Tableau
    against those pages, and the form: its menus, its session parameters, what it stores and what of it is put
    back.
  \<^item> \<open>Timeline\<close> (\<^verbatim>\<open>timeline.html\<close>): every task once, in the group of its stage, with its four phases.

  \<^bold>\<open>Across components.\<close>
  \<^item> \<open>Pages\<close>: a page as its components side by side, which share nothing; each of the seven polling components
    refines the abstract machine of \<open>Polling\<close>.
  \<^item> \<open>Navigation\<close>: a click on one page opens an address from which the next page asks for and shows the
    right query and stage.

  \<^bold>\<open>Loops and fuel.\<close>  Most loops are structural recursions.  \<open>JSON.parse\<close> has fuel of twice the length of its
  text and one more, and \<open>json_parse_fuel\<close> shows that more changes nothing.  \<open>advance\<close> of the statement
  client, \<open>headers_loop\<close> and \<open>read_all\<close> of the connector and \<open>process_from\<close> of the thread list are partial
  functions.  \<open>advance_terminates_iff\<close> and \<open>getColumnHeaders_terminates_iff\<close> say exactly when the first two
  return, \<open>document_ready_menus\<close> when the loading of the form does, and \<open>processThreads_correct\<close> that the last one returns
  on threads with ordinary names (on others the array it walks over can grow as it walks).

  \<^bold>\<open>Parameters.\<close>  What the browser and the server decide is an argument or part of an event: the answers, the
  time of a call, the address of the page, time zone and \<open>Date.parse\<close> on other formats (the record \<open>env\<close>),
  the pages the server holds (\<open>post\<close> and what follows it; where a request may be repeated, in the loops that fill
  the menus, the answers also depend on the round of the loop), how the browser reads text put into an attribute (\<open>html\<close>),
  the sizes of the container and of the graph as the layout library reports them.

  \<^bold>\<open>Limits of the model.\<close>  Strings are lists of Latin-1 characters.  The two zeros are one number.  \<open>setState\<close>
  takes effect at once, and a component handles one event at a time.  Objects used as maps are association
  lists; where a key can be the name of an inherited property, as for thread groups and session parameters, the
  definition or the statement says so.  While the statement client reads one result, an address always gives the
  same answer.  The summary of a stage sorts the tasks of the query in place after an update; here the query keeps
  the order of the server, which only shows in the order in which the task table, which sorts them itself, gets
  them.  A stage can be selected whenever the stage page is there, also before its menu is.

  \<^bold>\<open>Not modelled.\<close>
  \<^item> The layout and the drawing by the libraries dagre, d3 and vis; the calls made on them are modelled.
  \<^item> The plugins for sparklines, tooltips, the clipboard and highlighting: the data and the properties handed to the
    sparklines and whether the query text was highlighted are recorded, what the plugins do with it is not.
  \<^item> Messages to the console, and the pages that hold only markup (\<^verbatim>\<open>index.html\<close> and the like).
  \<^item> \<^verbatim>\<open>webpack.config.js\<close>, which only names the entry points for the bundler, the bundles in \<^verbatim>\<open>dist\<close> generated
    with it, and the third-party packages in \<^verbatim>\<open>vendor\<close>.
\<close>

end
